(* ===== verification/Xen_Prelude.thy ===== *)
theory Xen_Prelude
  imports Main "HOL-Library.Word"
begin

unbundle bit_operations_syntax

text \<open>
  Shared vocabulary of the development: the machine integer types of the C sources, the
  error numbers of \<^verbatim>\<open>xen/include/xen/errno.h\<close>, and generic facts on words and lists that
  several components use.
\<close>

section \<open>Types\<close>

text \<open>Xen and the tools are modelled for x86/64: \<^verbatim>\<open>unsigned long\<close> is 64 bits wide.\<close>

type_synonym byte = "8 word"
type_synonym ulong = "64 word"
type_synonym u64 = "64 word"
type_synonym u32 = "32 word"
type_synonym u16 = "16 word"
type_synonym u8 = "8 word"

type_synonym domid = nat
type_synonym pfn = nat

text \<open>
  The error numbers the modelled code returns. A C function that returns \<open>0\<close> or \<open>-E\<close> has the
  result type \<open>rc\<close> (\<open>None\<close> is \<open>0\<close>); one that returns a value or \<open>-E\<close> has a sum type with
  the error on the left.
\<close>

datatype errno = EPERM | ENOENT | ESRCH | EIO | ENXIO | EAGAIN | ENOMEM | EACCES | EFAULT | EBUSY
  | EEXIST | ENODEV | EINVAL | ENOSPC | ENOSYS | EMSGSIZE

type_synonym rc = "errno option"

named_theorems op_defs \<open>definitions of modelled operations, unfolded when an operation is evaluated\<close>
named_theorems frame_simps \<open>what an operation leaves unchanged\<close>
named_theorems inv_intros \<open>preservation of the component invariants\<close>

section \<open>Words\<close>

text \<open>Successor and predecessor of a word that is known not to be at the end of the range.\<close>

lemma word_Suc_le_iff:
  fixes a b :: "'a::len word"
  assumes "a < b"
  shows "a + 1 \<le> x \<longleftrightarrow> a < x"
  using assms by (auto simp: inc_less_eq_iff)

lemma word_pred_ge_iff:
  fixes s :: "'a::len word"
  assumes "s \<noteq> 0"
  shows "x \<le> s - 1 \<longleftrightarrow> x < s"
  using assms by (simp add: less_eq_dec_iff)

lemma word_less_not_max: "a < (b :: 'a::len word) \<Longrightarrow> a \<noteq> - 1"
  by (metis leD word_order.extremum)

lemma atLeastAtMost_inc:
  fixes a :: "'a::len word"
  assumes "a \<noteq> - 1"
  shows "{a + 1..c} = {a<..c}"
  by (rule set_eqI) (simp add: inc_less_eq_iff assms)

lemma atLeastAtMost_dec:
  fixes s :: "'a::len word"
  assumes "s \<noteq> 0"
  shows "{a..s - 1} = {a..<s}"
  by (rule set_eqI) (simp add: less_eq_dec_iff assms)

lemma unat_ucast_up:
  "LENGTH('a::len) \<le> LENGTH('b::len) \<Longrightarrow> unat (ucast (w :: 'a word) :: 'b word) = unat w"
  by (simp add: unsigned_ucast_eq take_bit_nat_eq_self order.strict_trans2 [OF unsigned_less])

lemma word_ivl_UNIV: "{0..- 1 :: 'a::len word} = UNIV"
  by auto

section \<open>Lists with positions\<close>

text \<open>
  An intrusive linked list of the C code is a list, and a pointer to one of its elements the
  position of the element. Inserting after a position and deleting at a position are
  \<^verbatim>\<open>list_add\<close> and \<^verbatim>\<open>list_del\<close> of \<^verbatim>\<open>xen/include/xen/list.h\<close>.
\<close>

definition list_add :: "'a \<Rightarrow> nat option \<Rightarrow> 'a list \<Rightarrow> 'a list" where
  "list_add y x l = (case x of None \<Rightarrow> y # l | Some i \<Rightarrow> take (Suc i) l @ y # drop (Suc i) l)"

definition list_del :: "nat \<Rightarrow> 'a list \<Rightarrow> 'a list" where
  "list_del i l = take i l @ drop (Suc i) l"

lemma list_add_None [simp]: "list_add y None l = y # l"
  by (simp add: list_add_def)

lemma list_add_at [simp]: "list_add y (Some (length p)) (p @ x # q) = p @ x # y # q"
  by (simp add: list_add_def)

lemma list_del_at [simp]: "list_del (length p) (p @ x # q) = p @ q"
  by (simp add: list_del_def)

lemma list_del_0 [simp]: "list_del 0 (x # q) = q"
  by (simp add: list_del_def)

lemma length_list_del: "i < length l \<Longrightarrow> length (list_del i l) = length l - 1"
  by (simp add: list_del_def)

lemma list_update_at [simp]: "(p @ x # q)[length p := y] = p @ y # q"
  by (simp add: list_update_append)

section \<open>Formatted output\<close>

text \<open>
  The conversions of \<^verbatim>\<open>printk\<close> the sources use: digits in a base (\<^verbatim>\<open>%lu\<close>, \<^verbatim>\<open>%lx\<close>) and
  left-justified padding (\<^verbatim>\<open>%-10s\<close>).
\<close>

definition digit_char :: "nat \<Rightarrow> char" where
  "digit_char n = char_of (if n < 10 then 48 + n else 87 + n)"

fun digits_of :: "nat \<Rightarrow> nat \<Rightarrow> string" where
  "digits_of b n =
     (if n < b \<or> b < 2 then [digit_char n] else digits_of b (n div b) @ [digit_char (n mod b)])"

declare digits_of.simps [simp del]

definition pad_right :: "nat \<Rightarrow> string \<Rightarrow> string" where
  "pad_right w s = s @ replicate (w - length s) CHR '' ''"

end
