(* ===== verification/Rangeset.thy ===== *)
theory Rangeset
  imports Xen_Prelude
begin

text \<open>
  Model of \<^verbatim>\<open>xen/common/rangeset.c\<close>: sets of \<^verbatim>\<open>unsigned long\<close> kept as an ordered list of
  inclusive ranges. A pointer to a \<^verbatim>\<open>struct range\<close> is the position of the range in the list,
  \<^verbatim>\<open>NULL\<close> is \<open>None\<close>. The security hook is an argument (it is chosen when the hypervisor is
  built), and so is the outcome of the one \<^verbatim>\<open>xmalloc\<close> an operation may perform. The
  spinlock of the set makes every operation atomic.
\<close>

section \<open>Data\<close>

record range =
  range_s :: ulong
  range_e :: ulong

record rangeset =
  rs_domain :: "domid option"
  range_list :: "range list"
  rs_name :: string
  rs_flags :: u32

type_synonym xsm_range_hook = "domid option \<Rightarrow> string \<Rightarrow> ulong \<Rightarrow> ulong \<Rightarrow> rc"

section \<open>Private range functions\<close>

fun find_range_loop :: "range list \<Rightarrow> nat \<Rightarrow> nat option \<Rightarrow> ulong \<Rightarrow> nat option" where
  "find_range_loop [] i x s = x"
| "find_range_loop (y # ys) i x s =
     (if range_s y > s then x else find_range_loop ys (Suc i) (Some i) s)"

definition find_range :: "rangeset \<Rightarrow> ulong \<Rightarrow> nat option" where
  "find_range r s = find_range_loop (range_list r) 0 None s"

definition first_range :: "rangeset \<Rightarrow> nat option" where
  "first_range r = (if range_list r = [] then None else Some 0)"

definition next_range :: "rangeset \<Rightarrow> nat \<Rightarrow> nat option" where
  "next_range r x = (if Suc x < length (range_list r) then Some (Suc x) else None)"

definition insert_range :: "rangeset \<Rightarrow> nat option \<Rightarrow> range \<Rightarrow> rangeset" where
  "insert_range r x y = r\<lparr>range_list := list_add y x (range_list r)\<rparr>"

definition destroy_range :: "rangeset \<Rightarrow> nat \<Rightarrow> rangeset" where
  "destroy_range r x = r\<lparr>range_list := list_del x (range_list r)\<rparr>"

text \<open>Field access through a range pointer: \<^verbatim>\<open>x->s\<close>, \<^verbatim>\<open>x->e\<close> and the assignments to them.\<close>

abbreviation get_s :: "rangeset \<Rightarrow> nat \<Rightarrow> ulong" where
  "get_s r x \<equiv> range_s (range_list r ! x)"

abbreviation get_e :: "rangeset \<Rightarrow> nat \<Rightarrow> ulong" where
  "get_e r x \<equiv> range_e (range_list r ! x)"

definition set_s :: "rangeset \<Rightarrow> nat \<Rightarrow> ulong \<Rightarrow> rangeset" where
  "set_s r x v = r\<lparr>range_list := (range_list r)[x := (range_list r ! x)\<lparr>range_s := v\<rparr>]\<rparr>"

definition set_e :: "rangeset \<Rightarrow> nat \<Rightarrow> ulong \<Rightarrow> rangeset" where
  "set_e r x v = r\<lparr>range_list := (range_list r)[x := (range_list r ! x)\<lparr>range_e := v\<rparr>]\<rparr>"

section \<open>Public operations\<close>

text \<open>The loop of \<^verbatim>\<open>rangeset_add_range\<close> that destroys the ranges swallowed by \<open>x\<close>.\<close>

function add_absorb :: "rangeset \<Rightarrow> nat \<Rightarrow> rangeset" where
  "add_absorb r x =
     (case next_range r x of
        None \<Rightarrow> r
      | Some y \<Rightarrow> if get_e r y > get_e r x then r else add_absorb (destroy_range r y) x)"
  by pat_completeness auto
termination
  by (relation "measure (\<lambda>(r, x). length (range_list r))")
     (auto simp: next_range_def destroy_range_def length_list_del split: if_splits)

declare add_absorb.simps [simp del]

text \<open>The tail of \<^verbatim>\<open>rangeset_add_range\<close>: merge \<open>x\<close> with an adjacent successor.\<close>

definition add_merge_next :: "rangeset \<Rightarrow> nat \<Rightarrow> rangeset" where
  "add_merge_next r x =
     (case next_range r x of
        None \<Rightarrow> r
      | Some y \<Rightarrow>
          if get_e r x + 1 = get_s r y then destroy_range (set_e r x (get_e r y)) y else r)"

definition rangeset_add_range ::
    "xsm_range_hook \<Rightarrow> bool \<Rightarrow> rangeset \<Rightarrow> ulong \<Rightarrow> ulong \<Rightarrow> rc \<times> rangeset" where
  "rangeset_add_range xsm_add_range alloc_ok r s e =
     (case xsm_add_range (rs_domain r) (rs_name r) s e of
        Some err \<Rightarrow> (Some err, r)
      | None \<Rightarrow>
          let x = find_range r s; y = find_range r e in
          if x = y then
            (if (case x of None \<Rightarrow> True | Some i \<Rightarrow> get_e r i < s \<and> get_e r i + 1 \<noteq> s) then
               (if \<not> alloc_ok then (Some ENOMEM, r)
                else
                  let r' = insert_range r y \<lparr>range_s = s, range_e = e\<rparr>;
                      i = (case y of None \<Rightarrow> 0 | Some j \<Rightarrow> Suc j)
                  in (None, add_merge_next r' i))
             else
               let i = the x;
                   r' = (if get_e r i < e then set_e r i e else r)
               in (None, add_merge_next r' i))
          else
            let (r1, i) =
                  (case x of
                     None \<Rightarrow> let i = the (first_range r) in (set_s r i s, i)
                   | Some i \<Rightarrow>
                       if get_e r i < s \<and> get_e r i + 1 \<noteq> s
                       then let i' = the (next_range r i) in (set_s r i' s, i')
                       else (r, i));
                j = the y;
                r2 = set_e r1 i (if get_e r1 j > e then get_e r1 j else e)
            in (None, add_merge_next (add_absorb r2 i) i))"

text \<open>
  The loop of \<^verbatim>\<open>rangeset_remove_range\<close> that destroys the ranges from \<open>x\<close> up to, not
  including, \<open>y\<close>. Destroying the range at \<open>x\<close> moves its successor to position \<open>x\<close> and \<open>y\<close> one
  position down.
\<close>

fun remove_upto :: "rangeset \<Rightarrow> nat \<Rightarrow> nat \<Rightarrow> rangeset \<times> nat" where
  "remove_upto r x 0 = (r, x)"
| "remove_upto r x (Suc y) =
     (if x = Suc y then (r, x) else remove_upto (destroy_range r x) x y)"

definition rangeset_remove_range ::
    "xsm_range_hook \<Rightarrow> bool \<Rightarrow> rangeset \<Rightarrow> ulong \<Rightarrow> ulong \<Rightarrow> rc \<times> rangeset" where
  "rangeset_remove_range xsm_remove_range alloc_ok r s e =
     (case xsm_remove_range (rs_domain r) (rs_name r) s e of
        Some err \<Rightarrow> (Some err, r)
      | None \<Rightarrow>
          let x = find_range r s; y = find_range r e in
          if x = y then
            (case x of
               None \<Rightarrow> (None, r)
             | Some i \<Rightarrow>
                 if get_e r i < s then (None, r)
                 else if get_s r i < s \<and> get_e r i > e then
                   (if \<not> alloc_ok then (Some ENOMEM, r)
                    else
                      let new = \<lparr>range_s = e + 1, range_e = get_e r i\<rparr>
                      in (None, insert_range (set_e r i (s - 1)) x new))
                 else if get_s r i = s \<and> get_e r i \<le> e then (None, destroy_range r i)
                 else if get_s r i = s then (None, set_s r i (e + 1))
                 else if get_e r i \<le> e then (None, set_e r i (s - 1))
                 else (None, r))
          else
            let i = (case x of None \<Rightarrow> the (first_range r) | Some i \<Rightarrow> i);
                (r1, i1) = (if get_s r i < s then (set_e r i (s - 1), the (next_range r i))
                            else (r, i));
                (r2, i2) = remove_upto r1 i1 (the y);
                r3 = set_s r2 i2 (e + 1)
            in (None, if get_s r3 i2 > get_e r3 i2 then destroy_range r3 i2 else r3))"

definition rangeset_contains_range :: "rangeset \<Rightarrow> ulong \<Rightarrow> ulong \<Rightarrow> bool" where
  "rangeset_contains_range r s e =
     (case find_range r s of None \<Rightarrow> False | Some x \<Rightarrow> get_e r x \<ge> e)"

definition rangeset_overlaps_range :: "rangeset \<Rightarrow> ulong \<Rightarrow> ulong \<Rightarrow> bool" where
  "rangeset_overlaps_range r s e =
     (case find_range r e of None \<Rightarrow> False | Some x \<Rightarrow> s \<le> get_e r x)"

text \<open>
  \<^verbatim>\<open>rangeset_report_ranges\<close> calls \<open>cb\<close> on the parts of the set inside the window, in order,
  until a call returns non-zero. The callback threads a context of any type.
\<close>

fun report_loop ::
    "range list \<Rightarrow> ulong \<Rightarrow> ulong \<Rightarrow> (ulong \<Rightarrow> ulong \<Rightarrow> 'c \<Rightarrow> int \<times> 'c) \<Rightarrow> int \<Rightarrow> 'c \<Rightarrow> int \<times> 'c" where
  "report_loop [] s e cb rc ctxt = (rc, ctxt)"
| "report_loop (x # xs) s e cb rc ctxt =
     (if range_s x \<le> e \<and> rc = 0 then
        (if range_e x \<ge> s
         then let (rc', ctxt') = cb (max (range_s x) s) (min (range_e x) e) ctxt
              in report_loop xs s e cb rc' ctxt'
         else report_loop xs s e cb rc ctxt)
      else (rc, ctxt))"

definition rangeset_report_ranges ::
    "rangeset \<Rightarrow> ulong \<Rightarrow> ulong \<Rightarrow> (ulong \<Rightarrow> ulong \<Rightarrow> 'c \<Rightarrow> int \<times> 'c) \<Rightarrow> 'c \<Rightarrow> int \<times> 'c" where
  "rangeset_report_ranges r s e cb ctxt =
     (case find_range r s of
        None \<Rightarrow> (0, ctxt)
      | Some i \<Rightarrow> report_loop (drop i (range_list r)) s e cb 0 ctxt)"

definition rangeset_add_singleton ::
    "xsm_range_hook \<Rightarrow> bool \<Rightarrow> rangeset \<Rightarrow> ulong \<Rightarrow> rc \<times> rangeset" where
  "rangeset_add_singleton h a r s = rangeset_add_range h a r s s"

definition rangeset_remove_singleton ::
    "xsm_range_hook \<Rightarrow> bool \<Rightarrow> rangeset \<Rightarrow> ulong \<Rightarrow> rc \<times> rangeset" where
  "rangeset_remove_singleton h a r s = rangeset_remove_range h a r s s"

definition rangeset_contains_singleton :: "rangeset \<Rightarrow> ulong \<Rightarrow> bool" where
  "rangeset_contains_singleton r s = rangeset_contains_range r s s"

definition rangeset_is_empty :: "rangeset option \<Rightarrow> bool" where
  "rangeset_is_empty r = (case r of None \<Rightarrow> True | Some r \<Rightarrow> range_list r = [])"

section \<open>Creation and destruction\<close>

text \<open>
  The rangesets of the hypervisor live in a heap, indexed by address; \<open>rangesets\<close> is the list
  \<^verbatim>\<open>d->rangesets\<close> of each domain. A \<^verbatim>\<open>BUG_ON\<close> that fires (and the use of a freed set) is the
  result \<open>None\<close>.
\<close>

record rs_world =
  rs_heap :: "nat \<Rightarrow> rangeset option"
  rangesets :: "domid \<Rightarrow> nat list"

definition RANGESETF_prettyprint_hex :: u32 where
  "RANGESETF_prettyprint_hex = 1"

definition rangeset_new ::
    "nat option \<Rightarrow> rs_world \<Rightarrow> domid option \<Rightarrow> string option \<Rightarrow> u32 \<Rightarrow>
     (nat option \<times> rs_world) option" where
  "rangeset_new mem w d name flags =
     (case mem of
        None \<Rightarrow> Some (None, w)
      | Some a \<Rightarrow>
          if flags AND NOT RANGESETF_prettyprint_hex \<noteq> 0 then None
          else
            let r = \<lparr>rs_domain = d, range_list = [],
                     rs_name = (case name of Some n \<Rightarrow> take 31 n | None \<Rightarrow> ''(no name)''),
                     rs_flags = flags\<rparr>;
                w1 = w\<lparr>rs_heap := (rs_heap w)(a := Some r)\<rparr>
            in Some (Some a,
                 (case d of
                    None \<Rightarrow> w1
                  | Some i \<Rightarrow> w1\<lparr>rangesets := (rangesets w1)(i := a # rangesets w1 i)\<rparr>)))"

function destroy_ranges :: "rangeset \<Rightarrow> rangeset" where
  "destroy_ranges r =
     (case first_range r of None \<Rightarrow> r | Some x \<Rightarrow> destroy_ranges (destroy_range r x))"
  by pat_completeness auto
termination
  by (relation "measure (\<lambda>r. length (range_list r))")
     (auto simp: first_range_def destroy_range_def length_list_del split: if_splits)

declare destroy_ranges.simps [simp del]

definition rangeset_destroy :: "rs_world \<Rightarrow> nat option \<Rightarrow> rs_world option" where
  "rangeset_destroy w p =
     (case p of
        None \<Rightarrow> Some w
      | Some a \<Rightarrow>
          (case rs_heap w a of
             None \<Rightarrow> None
           | Some r \<Rightarrow>
               let w1 = (case rs_domain r of
                           None \<Rightarrow> w
                         | Some d \<Rightarrow> w\<lparr>rangesets := (rangesets w)(d := remove1 a (rangesets w d))\<rparr>);
                   w2 = w1\<lparr>rs_heap := (rs_heap w1)(a := Some (destroy_ranges r))\<rparr>
               in Some (w2\<lparr>rs_heap := (rs_heap w2)(a := None)\<rparr>)))"

definition rangeset_domain_initialise :: "rs_world \<Rightarrow> domid \<Rightarrow> rs_world" where
  "rangeset_domain_initialise w d = w\<lparr>rangesets := (rangesets w)(d := [])\<rparr>"

text \<open>One turn of the loop of \<^verbatim>\<open>rangeset_domain_destroy\<close>, on the first set \<open>a\<close> of the list.\<close>

definition domain_destroy_one :: "rs_world \<Rightarrow> domid \<Rightarrow> nat \<Rightarrow> rs_world option" where
  "domain_destroy_one w d a =
     (case rs_heap w a of
        None \<Rightarrow> None
      | Some r \<Rightarrow>
          if rs_domain r \<noteq> Some d then None
          else rangeset_destroy
                 (w\<lparr>rs_heap := (rs_heap w)(a := Some (r\<lparr>rs_domain := None\<rparr>)),
                    rangesets := (rangesets w)(d := remove1 a (rangesets w d))\<rparr>) (Some a))"

lemma domain_destroy_one_list:
  "domain_destroy_one w d a = Some w' \<Longrightarrow> rangesets w' d = remove1 a (rangesets w d)"
  by (auto simp: domain_destroy_one_def rangeset_destroy_def Let_def split: option.splits if_splits)

function rangeset_domain_destroy :: "rs_world \<Rightarrow> domid \<Rightarrow> rs_world option" where
  "rangeset_domain_destroy w d =
     (case rangesets w d of
        [] \<Rightarrow> Some w
      | a # _ \<Rightarrow>
          (case domain_destroy_one w d a of
             None \<Rightarrow> None
           | Some w' \<Rightarrow> rangeset_domain_destroy w' d))"
  by pat_completeness auto
termination
  by (relation "measure (\<lambda>(w, d). length (rangesets w d))")
     (auto dest: domain_destroy_one_list)

declare rangeset_domain_destroy.simps [simp del]

section \<open>Pretty-printing\<close>

definition print_limit :: "rangeset \<Rightarrow> ulong \<Rightarrow> string" where
  "print_limit r s =
     digits_of (if rs_flags r AND RANGESETF_prettyprint_hex \<noteq> 0 then 16 else 10) (unat s)"

fun printk_ranges :: "rangeset \<Rightarrow> nat \<Rightarrow> range list \<Rightarrow> string" where
  "printk_ranges r nr_printed [] = []"
| "printk_ranges r nr_printed (x # xs) =
     (if nr_printed \<noteq> 0 then '','' else []) @ '' '' @ print_limit r (range_s x) @
     (if range_s x \<noteq> range_e x then ''-'' @ print_limit r (range_e x) else []) @
     printk_ranges r (Suc nr_printed) xs"

definition rangeset_printk :: "rangeset \<Rightarrow> string" where
  "rangeset_printk r =
     pad_right 10 (rs_name r) @ '' {'' @ printk_ranges r 0 (range_list r) @ '' }''"

fun domain_printk_sets :: "rs_world \<Rightarrow> nat list \<Rightarrow> string option" where
  "domain_printk_sets w [] = Some []"
| "domain_printk_sets w (a # as) =
     (case (rs_heap w a, domain_printk_sets w as) of
        (Some r, Some out) \<Rightarrow> Some (''    '' @ rangeset_printk r @ ''\<newline>'' @ out)
      | _ \<Rightarrow> None)"

definition rangeset_domain_printk :: "rs_world \<Rightarrow> domid \<Rightarrow> string option" where
  "rangeset_domain_printk w d =
     (case domain_printk_sets w (rangesets w d) of
        None \<Rightarrow> None
      | Some out \<Rightarrow>
          Some (''Rangesets belonging to domain '' @ digits_of 10 d @ '':\<newline>'' @
                (if rangesets w d = [] then ''    None\<newline>'' else []) @ out))"

end
