(* ===== verification/Rangeset_Lemmas.thy ===== *)
theory Rangeset_Lemmas
  imports Rangeset
begin

text \<open>
  What a range set means and that its operations implement it: the abstraction of a range list
  to the set of its members, the invariant (ascending ranges that neither overlap nor touch),
  and for each operation of \<^verbatim>\<open>rangeset.c\<close> its effect on the abstraction.
\<close>

section \<open>Abstraction and invariant\<close>

definition range_lt :: "range \<Rightarrow> range \<Rightarrow> bool" where
  "range_lt x y \<longleftrightarrow> range_e x < range_s y \<and> range_e x + 1 \<noteq> range_s y"

definition ranges_wf :: "range list \<Rightarrow> bool" where
  "ranges_wf l \<longleftrightarrow> sorted_wrt range_lt l \<and> (\<forall>x\<in>set l. range_s x \<le> range_e x)"

definition ranges_set :: "range list \<Rightarrow> ulong set" where
  "ranges_set l = (\<Union>x\<in>set l. {range_s x..range_e x})"

definition rangeset_wf :: "rangeset \<Rightarrow> bool" where
  "rangeset_wf r \<longleftrightarrow> ranges_wf (range_list r)"

definition rangeset_abs :: "rangeset \<Rightarrow> ulong set" where
  "rangeset_abs r = ranges_set (range_list r)"

lemma ranges_set_Nil [simp]: "ranges_set [] = {}"
  by (simp add: ranges_set_def)

lemma ranges_set_Cons [simp]: "ranges_set (x # l) = {range_s x..range_e x} \<union> ranges_set l"
  by (simp add: ranges_set_def)

lemma ranges_set_append [simp]: "ranges_set (l @ m) = ranges_set l \<union> ranges_set m"
  by (simp add: ranges_set_def)

lemma ranges_wf_Nil [simp]: "ranges_wf []"
  by (simp add: ranges_wf_def)

lemma ranges_wf_Cons [simp]:
  "ranges_wf (x # l) \<longleftrightarrow> range_s x \<le> range_e x \<and> (\<forall>y\<in>set l. range_lt x y) \<and> ranges_wf l"
  by (auto simp: ranges_wf_def)

lemma ranges_wf_append [simp]:
  "ranges_wf (l @ m) \<longleftrightarrow> ranges_wf l \<and> ranges_wf m \<and> (\<forall>x\<in>set l. \<forall>y\<in>set m. range_lt x y)"
  by (auto simp: ranges_wf_def sorted_wrt_append)

lemma ranges_set_iff: "a \<in> ranges_set l \<longleftrightarrow> (\<exists>x\<in>set l. range_s x \<le> a \<and> a \<le> range_e x)"
  by (auto simp: ranges_set_def)

lemma range_lt_trans_wf:
  assumes "range_lt x y" and "range_s y \<le> range_e y" and "range_lt y z"
  shows "range_lt x z"
proof -
  from assms have "range_e x < range_s y" "range_e y < range_s z"
    by (simp_all add: range_lt_def)
  moreover from this have "range_e x + 1 \<le> range_s y"
    by (simp add: inc_le)
  ultimately have "range_e x < range_s z" "range_e x + 1 < range_s z"
    using assms(2) by order+
  then show ?thesis by (simp add: range_lt_def)
qed

section \<open>Finding ranges\<close>

lemma find_range_loop_eq:
  "find_range_loop ys i x s =
     (let k = length (takeWhile (\<lambda>y. range_s y \<le> s) ys) in if k = 0 then x else Some (i + k - 1))"
  by (induction ys i x s rule: find_range_loop.induct) (auto simp: Let_def not_le)

lemma find_range_None:
  "\<forall>y\<in>set (range_list r). s < range_s y \<Longrightarrow> find_range r s = None"
  by (cases "range_list r") (auto simp: find_range_def)

lemma takeWhile_split:
  "\<forall>z\<in>set p. P z \<Longrightarrow> \<forall>z\<in>set q. \<not> P z \<Longrightarrow> takeWhile P (p @ q) = p"
  by (induction p) (cases q, auto)

lemma find_range_at:
  assumes "range_list r = p @ x # q" and "\<forall>z\<in>set p. range_s z \<le> s" and "range_s x \<le> s"
    and "\<forall>z\<in>set q. s < range_s z"
  shows "find_range r s = Some (length p)"
proof -
  have "takeWhile (\<lambda>y. range_s y \<le> s) ((p @ [x]) @ q) = p @ [x]"
    by (rule takeWhile_split) (use assms in auto)
  then show ?thesis
    using assms(1) by (simp add: find_range_def find_range_loop_eq)
qed

text \<open>The list split at a point: the ranges that start at or before it, and the others.\<close>

lemma ranges_split:
  assumes "ranges_wf l"
  obtains p q where "l = p @ q" "\<forall>z\<in>set p. range_s z \<le> s" "\<forall>z\<in>set q. s < range_s z"
proof -
  have "\<exists>p q. l = p @ q \<and> (\<forall>z\<in>set p. range_s z \<le> s) \<and> (\<forall>z\<in>set q. s < range_s z)"
    using assms
  proof (induction l)
    case (Cons a l)
    then obtain p q where pq: "l = p @ q" "\<forall>z\<in>set p. range_s z \<le> s" "\<forall>z\<in>set q. s < range_s z"
      by auto
    show ?case
    proof (cases "range_s a \<le> s")
      case True
      with pq show ?thesis by (intro exI [of _ "a # p"] exI [of _ q]) simp
    next
      case False
      have "\<forall>z\<in>set (a # l). s < range_s z"
        using Cons.prems False by (force simp: range_lt_def)
      then show ?thesis by (intro exI [of _ "[]"] exI [of _ "a # l"]) simp
    qed
  qed auto
  with that show ?thesis by blast
qed

text \<open>
  The four positions the ends of an interval can have in the list, with what
  \<^const>\<open>find_range\<close> returns for the two ends.
\<close>

lemma find_range_pair_cases:
  assumes wf: "ranges_wf (range_list r)" and le: "s \<le> e"
  obtains
    (before) "\<forall>z\<in>set (range_list r). e < range_s z"
      "find_range r s = None" "find_range r e = None"
  | (same) p x q where "range_list r = p @ x # q" "range_s x \<le> s" "\<forall>z\<in>set q. e < range_s z"
      "find_range r s = Some (length p)" "find_range r e = Some (length p)"
  | (first) m y q where "range_list r = m @ y # q" "\<forall>z\<in>set m. s < range_s z" "s < range_s y"
      "range_s y \<le> e" "\<forall>z\<in>set q. e < range_s z"
      "find_range r s = None" "find_range r e = Some (length m)"
  | (two) p x m y q where "range_list r = p @ x # m @ y # q" "range_s x \<le> s"
      "\<forall>z\<in>set m. s < range_s z" "s < range_s y" "range_s y \<le> e" "\<forall>z\<in>set q. e < range_s z"
      "find_range r s = Some (length p)" "find_range r e = Some (Suc (length p + length m))"
proof -
  obtain p q where pq: "range_list r = p @ q" "\<forall>z\<in>set p. range_s z \<le> s" "\<forall>z\<in>set q. s < range_s z"
    by (rule ranges_split [OF wf])
  from wf pq(1) have "ranges_wf q" by simp
  then obtain m t where mt: "q = m @ t" "\<forall>z\<in>set m. range_s z \<le> e" "\<forall>z\<in>set t. e < range_s z"
    by (rule ranges_split)
  have pe: "\<forall>z\<in>set p. range_s z \<le> e" using pq(2) le by auto
  show ?thesis
  proof (cases p rule: rev_cases)
    case Nil
    then have fs: "find_range r s = None"
      using pq by (auto intro: find_range_None)
    show ?thesis
    proof (cases m rule: rev_cases)
      case mNil: Nil
      have "\<forall>z\<in>set (range_list r). e < range_s z" using pq mt mNil Nil by simp
      from this fs find_range_None [OF this] show ?thesis by (rule before)
    next
      case (snoc m' y)
      have "find_range r e = Some (length m')"
        by (rule find_range_at [where x = y and q = t]) (use Nil pq mt snoc in auto)
      then show ?thesis
        by (intro first [of m' y t]) (use fs Nil pq mt snoc in simp_all)
    qed
  next
    case (snoc p' x)
    have fs: "find_range r s = Some (length p')"
      by (rule find_range_at [where x = x and q = q]) (use snoc pq in auto)
    show ?thesis
    proof (cases m rule: rev_cases)
      case mNil: Nil
      have "find_range r e = Some (length p')"
        by (rule find_range_at [where x = x and q = q]) (use snoc pq pe mt mNil in auto)
      then show ?thesis
        by (intro same [of p' x q]) (use fs snoc pq mt mNil in simp_all)
    next
      case m: (snoc m' y)
      have "find_range r e = Some (length (p' @ x # m'))"
        by (rule find_range_at [where x = y and q = t]) (use snoc pq pe mt m in auto)
      then show ?thesis
        by (intro two [of p' x m' y t]) (use fs snoc pq mt m in simp_all)
    qed
  qed
qed

section \<open>Adding a range\<close>

text \<open>What \<^const>\<open>add_merge_next\<close> does to the range and its successors, as a list function.\<close>

fun merge_next :: "range \<Rightarrow> range list \<Rightarrow> range list" where
  "merge_next n [] = [n]"
| "merge_next n (z # q) =
     (if range_e n + 1 = range_s z then n\<lparr>range_e := range_e z\<rparr> # q else n # z # q)"

lemma add_merge_next_at:
  assumes "range_list r = p @ n # q"
  shows "add_merge_next r (length p) = r\<lparr>range_list := p @ merge_next n q\<rparr>"
proof (cases q)
  case Nil
  with assms show ?thesis by (simp add: add_merge_next_def next_range_def)
next
  case (Cons z q')
  have "range_list r ! Suc (length p) = z"
    using assms Cons by (simp add: nth_append)
  moreover have "list_del (Suc (length p)) (p @ n' # z # q') = p @ n' # q'" for n'
    using list_del_at [of "p @ [n']" z q'] by simp
  ultimately show ?thesis
    using assms Cons
    by (simp add: add_merge_next_def next_range_def destroy_range_def set_e_def)
qed

lemma add_absorb_at:
  assumes "range_list r = p @ n # m @ q" and "\<forall>z\<in>set m. range_e z \<le> range_e n"
    and "\<forall>z\<in>set q. range_e n < range_e z"
  shows "add_absorb r (length p) = r\<lparr>range_list := p @ n # q\<rparr>"
  using assms
proof (induction m arbitrary: r)
  case Nil
  then show ?case
    by (cases q) (auto simp: add_absorb.simps next_range_def nth_append)
next
  case (Cons z m)
  have nx: "next_range r (length p) = Some (Suc (length p))"
    using Cons.prems by (simp add: next_range_def)
  have z: "range_list r ! Suc (length p) = z" "range_list r ! length p = n"
    using Cons.prems by (simp_all add: nth_append)
  have "list_del (Suc (length p)) (p @ n # z # m @ q) = p @ n # m @ q"
    using list_del_at [of "p @ [n]" z "m @ q"] by simp
  then have d: "destroy_range r (Suc (length p)) = r\<lparr>range_list := p @ n # m @ q\<rparr>"
    using Cons.prems by (simp add: destroy_range_def)
  have "add_absorb (destroy_range r (Suc (length p))) (length p) =
      (destroy_range r (Suc (length p)))\<lparr>range_list := p @ n # q\<rparr>"
    using Cons.prems by (intro Cons.IH) (simp_all add: d)
  then show ?case
    using Cons.prems(2) by (subst add_absorb.simps) (auto simp: nx z d)
qed

lemma ranges_wf_merge_next:
  assumes "ranges_wf p" and "ranges_wf q" and "range_s n \<le> range_e n"
    and "\<forall>z\<in>set p. range_lt z n" and "\<forall>z\<in>set q. range_e n < range_s z"
    and "\<forall>z\<in>set p. \<forall>y\<in>set q. range_lt z y"
  shows "ranges_wf (p @ merge_next n q)"
proof (cases q)
  case Nil
  with assms show ?thesis by simp
next
  case (Cons z q')
  have lt: "range_lt n y" if "y \<in> set q'" for y
  proof -
    have "range_e n < range_s z" "range_s z \<le> range_e z" "range_e z < range_s y"
      using assms(2,5) that Cons by (simp_all add: range_lt_def)
    moreover from this have "range_e n + 1 \<le> range_s z" by (simp add: inc_le)
    ultimately have "range_e n < range_s y" "range_e n + 1 < range_s y" by order+
    then show ?thesis by (simp add: range_lt_def)
  qed
  show ?thesis
  proof (cases "range_e n + 1 = range_s z")
    case True
    have "range_e n < range_s z" "range_s z \<le> range_e z" using assms(2,5) Cons by simp_all
    with assms(3) have "range_s n \<le> range_e z" by order
    then show ?thesis
      using assms Cons True by (auto simp: range_lt_def)
  next
    case False
    then show ?thesis
      using assms Cons lt by (auto simp: range_lt_def)
  qed
qed

lemma ranges_set_merge_next:
  assumes "ranges_wf q" and "range_s n \<le> range_e n" and "\<forall>z\<in>set q. range_e n < range_s z"
  shows "ranges_set (merge_next n q) = {range_s n..range_e n} \<union> ranges_set q"
proof (cases q)
  case Nil
  then show ?thesis by simp
next
  case (Cons z q')
  have "{range_s n..range_e z} = {range_s n..range_e n} \<union> {range_s z..range_e z}"
    if eq: "range_e n + 1 = range_s z"
  proof -
    have "range_e n < range_s z" "range_s z \<le> range_e z" using assms Cons by simp_all
    moreover from this have "{range_s z..range_e z} = {range_e n<..range_e z}"
      by (simp add: eq [symmetric] atLeastAtMost_inc word_less_not_max [of _ "range_s z"])
    moreover have "range_e n \<le> range_e z" using calculation(1,2) by order
    ultimately show ?thesis
      using assms(2) ivl_disj_un_two(8) [of "range_s n" "range_e n" "range_e z"] by simp
  qed
  then show ?thesis using Cons by auto
qed

lemma ranges_wf_imp:
  "ranges_wf l \<Longrightarrow> z \<in> set l \<Longrightarrow> range_s z \<le> range_e z"
  by (simp add: ranges_wf_def)

lemma range_lt_less: "range_lt x y \<Longrightarrow> range_e x < range_s y"
  by (simp add: range_lt_def)

lemma ivl_union_overlap:
  fixes a b c d :: "'a::linorder"
  assumes "a \<le> c" and "c \<le> b"
  shows "{a..b} \<union> {c..d} = {a..max b d}"
  using assms by (auto simp: max_def)

lemma ivl_union_touch:
  fixes a b c d :: "'a::len word"
  assumes "a \<le> c" and "\<not> (b < c \<and> b + 1 \<noteq> c)" and "a \<le> b" and "c \<le> d"
  shows "{a..b} \<union> {c..d} = {a..max b d}"
proof (cases "c \<le> b")
  case True
  with assms show ?thesis by (simp add: ivl_union_overlap)
next
  case False
  then have "b < c" "b + 1 = c" using assms(2) by auto
  then have "{c..d} = {b<..d}" using atLeastAtMost_inc [of b d] word_less_not_max by blast
  moreover have "b \<le> d" using \<open>b < c\<close> assms(4) by order
  ultimately show ?thesis
    using ivl_disj_un_two(8) [of a b d] assms(3) by (simp add: max_def)
qed

lemma ranges_set_between:
  assumes "ranges_wf m" and "\<forall>z\<in>set m. s < range_s z" and "\<forall>z\<in>set m. range_e z < b" and "b \<le> e"
  shows "ranges_set m \<subseteq> {s..e}"
proof
  fix a assume "a \<in> ranges_set m"
  then obtain z where "z \<in> set m" "range_s z \<le> a" "a \<le> range_e z"
    by (auto simp: ranges_set_iff)
  moreover from this assms have "s < range_s z" "range_e z < b" by simp_all
  ultimately have "s \<le> a" "a \<le> e" using assms(4) by order+
  then show "a \<in> {s..e}" by simp
qed

text \<open>
  The ranges \<open>m @ [y]\<close> that start inside the new interval are replaced by one range that starts
  at \<open>lo\<close> and ends where the later of the interval and \<open>y\<close> ends.
\<close>

lemma ranges_set_swallow:
  assumes wf: "ranges_wf (m @ [y])" and m: "\<forall>z\<in>set m. s < range_s z"
    and y: "s < range_s y" "range_s y \<le> e"
  shows "ranges_set (m @ [y]) \<union> {s..e} = {s..max e (range_e y)}"
proof -
  have "ranges_set m \<subseteq> {s..e}"
    by (rule ranges_set_between [where b = "range_s y"]) (use wf m y in \<open>auto simp: range_lt_def\<close>)
  moreover have "{s..e} \<union> {range_s y..range_e y} = {s..max e (range_e y)}"
    by (rule ivl_union_overlap) (use y in auto)
  ultimately show ?thesis by auto
qed

lemma absorb_tail:
  assumes wf: "ranges_wf (m @ y # q)" and y: "range_s y \<le> e" and q: "\<forall>z\<in>set q. e < range_s z"
  shows "\<forall>z\<in>set (m @ [y]). range_e z \<le> max e (range_e y)"
    and "\<forall>z\<in>set q. max e (range_e y) < range_s z" and "\<forall>z\<in>set q. max e (range_e y) < range_e z"
proof -
  show "\<forall>z\<in>set (m @ [y]). range_e z \<le> max e (range_e y)"
  proof
    fix z assume "z \<in> set (m @ [y])"
    then have "z = y \<or> range_e z < range_s y" using wf by (auto simp: range_lt_def)
    then show "range_e z \<le> max e (range_e y)" using y by (auto simp: max_def)
  qed
  show *: "\<forall>z\<in>set q. max e (range_e y) < range_s z"
    using wf q by (auto simp: range_lt_def)
  show "\<forall>z\<in>set q. max e (range_e y) < range_e z"
    using * wf ranges_wf_imp by (fastforce intro: order.strict_trans2)
qed

text \<open>
  Stretching the first of the ranges \<open>m @ [y]\<close> over \<open>s\<close> to the later of \<open>e\<close> and the end of
  \<open>y\<close>, and absorbing the others.
\<close>

lemma add_stretch_at:
  assumes l: "range_list r = p @ f # t @ q" and ft: "f # t = m @ [y]"
    and wf: "ranges_wf (m @ y # q)" and y: "range_s y \<le> e" and q: "\<forall>z\<in>set q. e < range_s z"
    and i: "i = length p" and j: "j = length p + length m"
  shows "add_merge_next (add_absorb (set_e (set_s r i s) i
           (if get_e (set_s r i s) j > e then get_e (set_s r i s) j else e)) i) i =
         r\<lparr>range_list := p @ merge_next \<lparr>range_s = s, range_e = max e (range_e y)\<rparr> q\<rparr>"
proof -
  let ?n = "\<lparr>range_s = s, range_e = max e (range_e y)\<rparr>"
  have l1: "range_list (set_s r (length p) s) = p @ f\<lparr>range_s := s\<rparr> # t @ q"
    using l by (simp add: set_s_def)
  have "get_e (set_s r (length p) s) j = range_e y"
  proof (cases m)
    case Nil
    with ft j show ?thesis by (simp add: l1)
  next
    case (Cons a m')
    with ft have "t = m' @ [y]" by simp
    with Cons j show ?thesis by (simp add: l1 nth_append)
  qed
  then have e: "(if get_e (set_s r (length p) s) j > e then get_e (set_s r (length p) s) j else e)
      = max e (range_e y)" by (auto simp: max_def)
  have l2: "range_list (set_e (set_s r (length p) s) (length p) (max e (range_e y))) = p @ ?n # t @ q"
    by (simp add: set_e_def l1)
  have tl: "\<forall>z\<in>set t. range_e z \<le> range_e ?n"
  proof -
    have "set t \<subseteq> set (m @ [y])" using ft by (metis set_subset_Cons)
    then show ?thesis using absorb_tail(1) [OF wf y q] by auto
  qed
  show ?thesis
    unfolding i e
    by (subst add_absorb_at [OF l2 tl])
       (use absorb_tail(3) [OF wf y q] in
         \<open>simp_all add: add_merge_next_at [where p = p and n = ?n and q = q] set_e_def set_s_def\<close>)
qed

lemma add_range_before:
  assumes "\<forall>z\<in>set (range_list r). e < range_s z" and "find_range r s = None" and "find_range r e = None"
    and "h (rs_domain r) (rs_name r) s e = None"
  shows "rangeset_add_range h True r s e =
    (None, r\<lparr>range_list := merge_next \<lparr>range_s = s, range_e = e\<rparr> (range_list r)\<rparr>)"
  using assms
  by (simp add: rangeset_add_range_def insert_range_def
      add_merge_next_at [where p = "[]" and n = "\<lparr>range_s = s, range_e = e\<rparr>" and q = "range_list r",
        simplified])

lemma add_range_same:
  assumes "range_list r = p @ x # q" and "find_range r s = Some (length p)"
    and "find_range r e = Some (length p)" and "h (rs_domain r) (rs_name r) s e = None"
  shows "rangeset_add_range h True r s e =
    (None, r\<lparr>range_list :=
       (if range_e x < s \<and> range_e x + 1 \<noteq> s
        then (p @ [x]) @ merge_next \<lparr>range_s = s, range_e = e\<rparr> q
        else p @ merge_next (x\<lparr>range_e := max (range_e x) e\<rparr>) q)\<rparr>)"
proof (cases "range_e x < s \<and> range_e x + 1 \<noteq> s")
  case True
  let ?n = "\<lparr>range_s = s, range_e = e\<rparr>"
  have l: "range_list (insert_range r (Some (length p)) ?n) = (p @ [x]) @ ?n # q"
    using assms(1) by (simp add: insert_range_def)
  show ?thesis
    using add_merge_next_at [OF l] assms True
    by (simp add: rangeset_add_range_def insert_range_def)
next
  case False
  let ?r = "if range_e x < e then set_e r (length p) e else r"
  have l: "range_list ?r = p @ x\<lparr>range_e := max (range_e x) e\<rparr> # q"
    using assms(1) by (auto simp: set_e_def max_def)
  show ?thesis
    using add_merge_next_at [OF l] assms False
    by (auto simp: rangeset_add_range_def set_e_def)
qed

lemma add_range_first:
  assumes l: "range_list r = m @ y # q" and wf: "ranges_wf (range_list r)"
    and y: "range_s y \<le> e" and q: "\<forall>z\<in>set q. e < range_s z"
    and f: "find_range r s = None" "find_range r e = Some (length m)"
    and h: "h (rs_domain r) (rs_name r) s e = None"
  shows "rangeset_add_range h a r s e =
    (None, r\<lparr>range_list := merge_next \<lparr>range_s = s, range_e = max e (range_e y)\<rparr> q\<rparr>)"
proof -
  obtain f t where ft: "f # t = m @ [y]" by (cases m) auto
  then have l': "range_list r = [] @ f # t @ q"
    using l by (metis append_Cons append_Nil append_assoc)
  have fr: "first_range r = Some 0" using l by (simp add: first_range_def)
  show ?thesis
    using add_stretch_at [OF l' ft _ y q, of 0 "length m" s] wf l f h
    by (simp add: rangeset_add_range_def fr Let_def split del: if_split)
qed

lemma add_range_two:
  assumes l: "range_list r = p @ x # m @ y # q" and wf: "ranges_wf (range_list r)"
    and y: "range_s y \<le> e" and q: "\<forall>z\<in>set q. e < range_s z"
    and f: "find_range r s = Some (length p)" "find_range r e = Some (Suc (length p + length m))"
    and h: "h (rs_domain r) (rs_name r) s e = None"
  shows "rangeset_add_range h a r s e =
    (None, r\<lparr>range_list :=
       (if range_e x < s \<and> range_e x + 1 \<noteq> s
        then (p @ [x]) @ merge_next \<lparr>range_s = s, range_e = max e (range_e y)\<rparr> q
        else p @ merge_next \<lparr>range_s = range_s x, range_e = max e (range_e y)\<rparr> q)\<rparr>)"
proof (cases "range_e x < s \<and> range_e x + 1 \<noteq> s")
  case True
  obtain f t where ft: "f # t = m @ [y]" by (cases m) auto
  then have l': "range_list r = (p @ [x]) @ f # t @ q"
    using l by (metis append_Cons append_Nil append_assoc)
  have nx: "next_range r (length p) = Some (Suc (length p))" using l by (simp add: next_range_def)
  show ?thesis
    using add_stretch_at [OF l' ft _ y q, of "Suc (length p)" "Suc (length p + length m)" s] wf l f h True
    by (simp add: rangeset_add_range_def nx Let_def nth_append split del: if_split)
next
  case False
  have l': "range_list r = p @ x # (m @ [y]) @ q" using l by simp
  have "set_s r (length p) (range_s x) = r" using l by (simp add: set_s_def)
  then show ?thesis
    using add_stretch_at [OF l', of "x # m" y e "length p" "Suc (length p + length m)" "range_s x"] wf l f h False y q
    by (auto simp add: rangeset_add_range_def Let_def)
qed

text \<open>
  The two facts every case of the addition needs of the stretched range \<open>n\<close>: the list stays
  ordered, and it denotes the ranges around \<open>n\<close> together with \<open>n\<close>.
\<close>

lemma merge_next_correct:
  assumes "ranges_wf p" and "ranges_wf q" and "range_s n \<le> range_e n"
    and "\<forall>z\<in>set p. range_lt z n" and "\<forall>z\<in>set q. range_e n < range_s z"
    and "\<forall>z\<in>set p. \<forall>y\<in>set q. range_lt z y"
  shows "ranges_wf (p @ merge_next n q) \<and>
    ranges_set (p @ merge_next n q) = ranges_set p \<union> {range_s n..range_e n} \<union> ranges_set q"
  using ranges_wf_merge_next [OF assms] ranges_set_merge_next [OF assms(2,3,5)] by auto

lemma range_lt_snoc:
  assumes "ranges_wf (p @ [x])" and "range_e x < range_s n \<and> range_e x + 1 \<noteq> range_s n"
  shows "\<forall>z\<in>set (p @ [x]). range_lt z n"
proof -
  have "range_lt x n" using assms(2) by (simp add: range_lt_def)
  then show ?thesis using assms(1) by (auto intro: range_lt_trans_wf)
qed

text \<open>What an addition promises, on the lists before and after.\<close>

definition ranges_added :: "range list \<Rightarrow> ulong \<Rightarrow> ulong \<Rightarrow> range list \<Rightarrow> bool" where
  "ranges_added l s e l' \<longleftrightarrow> ranges_wf l' \<and> ranges_set l' = ranges_set l \<union> {s..e}"

lemma added_before:
  assumes "ranges_wf l" and "s \<le> e" and "\<forall>z\<in>set l. e < range_s z"
  shows "ranges_added l s e (merge_next \<lparr>range_s = s, range_e = e\<rparr> l)"
  using merge_next_correct [of "[]" l "\<lparr>range_s = s, range_e = e\<rparr>"] assms
  by (auto simp: ranges_added_def)

lemma added_same_new:
  assumes "ranges_wf (p @ x # q)" and "s \<le> e" and "\<forall>z\<in>set q. e < range_s z"
    and "range_e x < s \<and> range_e x + 1 \<noteq> s"
  shows "ranges_added (p @ x # q) s e ((p @ [x]) @ merge_next \<lparr>range_s = s, range_e = e\<rparr> q)"
  using merge_next_correct [of "p @ [x]" q "\<lparr>range_s = s, range_e = e\<rparr>"]
    range_lt_snoc [of p x "\<lparr>range_s = s, range_e = e\<rparr>"] assms
  by (auto simp: ranges_added_def)

lemma added_same_extend:
  assumes wf: "ranges_wf (p @ x # q)" and "s \<le> e" and "range_s x \<le> s" and "\<forall>z\<in>set q. e < range_s z"
    and "\<not> (range_e x < s \<and> range_e x + 1 \<noteq> s)"
  shows "ranges_added (p @ x # q) s e (p @ merge_next (x\<lparr>range_e := max (range_e x) e\<rparr>) q)"
proof -
  let ?x = "x\<lparr>range_e := max (range_e x) e\<rparr>"
  have "{range_s x..range_e x} \<union> {s..e} = {range_s x..max (range_e x) e}"
    using ivl_union_touch [of "range_s x" s "range_e x" e] assms by simp
  moreover have "\<forall>z\<in>set p. range_lt z ?x" "range_s x \<le> max (range_e x) e"
    using wf by (auto simp: range_lt_def le_max_iff_disj)
  moreover have "\<forall>z\<in>set q. max (range_e x) e < range_s z"
    using wf assms(4) by (simp add: range_lt_def)
  ultimately show ?thesis
    using merge_next_correct [of p q ?x] wf by (auto simp: ranges_added_def)
qed

lemma added_first:
  assumes wf: "ranges_wf (m @ y # q)" and "s \<le> e" and "\<forall>z\<in>set m. s < range_s z" and "s < range_s y"
    and "range_s y \<le> e" and "\<forall>z\<in>set q. e < range_s z"
  shows "ranges_added (m @ y # q) s e (merge_next \<lparr>range_s = s, range_e = max e (range_e y)\<rparr> q)"
proof -
  have "ranges_set (m @ [y]) \<union> {s..e} = {s..max e (range_e y)}"
    by (rule ranges_set_swallow) (use assms in auto)
  then show ?thesis
    using merge_next_correct [of "[]" q "\<lparr>range_s = s, range_e = max e (range_e y)\<rparr>"] assms
      absorb_tail [OF wf assms(5,6)]
    by (auto simp: ranges_added_def le_max_iff_disj)
qed

lemma added_two_new:
  assumes wf: "ranges_wf (p @ x # m @ y # q)" and "s \<le> e" and "\<forall>z\<in>set m. s < range_s z"
    and "s < range_s y" and "range_s y \<le> e" and "\<forall>z\<in>set q. e < range_s z"
    and "range_e x < s \<and> range_e x + 1 \<noteq> s"
  shows "ranges_added (p @ x # m @ y # q) s e
    ((p @ [x]) @ merge_next \<lparr>range_s = s, range_e = max e (range_e y)\<rparr> q)"
proof -
  let ?n = "\<lparr>range_s = s, range_e = max e (range_e y)\<rparr>"
  have sw: "{range_s ?n..range_e ?n} = ranges_set (m @ [y]) \<union> {s..e}"
    using ranges_set_swallow [of m y s e] assms by simp
  have "\<forall>z\<in>set q. range_e ?n < range_s z"
    using absorb_tail(2) [of m y q e] assms by simp
  moreover have "\<forall>z\<in>set (p @ [x]). range_lt z ?n"
    by (rule range_lt_snoc) (use wf assms(7) in auto)
  moreover have "range_s ?n \<le> range_e ?n" using assms(2) by (simp add: le_max_iff_disj)
  ultimately have "ranges_wf ((p @ [x]) @ merge_next ?n q) \<and>
      ranges_set ((p @ [x]) @ merge_next ?n q) =
      ranges_set (p @ [x]) \<union> {range_s ?n..range_e ?n} \<union> ranges_set q"
    by (intro merge_next_correct) (use wf in auto)
  then show ?thesis unfolding ranges_added_def sw by auto
qed

lemma added_two_extend:
  assumes wf: "ranges_wf (p @ x # m @ y # q)" and "s \<le> e" and "range_s x \<le> s"
    and "\<forall>z\<in>set m. s < range_s z" and "s < range_s y" and "range_s y \<le> e"
    and "\<forall>z\<in>set q. e < range_s z" and "\<not> (range_e x < s \<and> range_e x + 1 \<noteq> s)"
  shows "ranges_added (p @ x # m @ y # q) s e
    (p @ merge_next \<lparr>range_s = range_s x, range_e = max e (range_e y)\<rparr> q)"
proof -
  let ?b = "max e (range_e y)"
  let ?x = "\<lparr>range_s = range_s x, range_e = ?b\<rparr>"
  have xs: "range_s x \<le> range_e x" "range_e x < range_s y" "s \<le> ?b"
    using wf assms(2) by (simp_all add: range_lt_def le_max_iff_disj)
  then have "range_e x \<le> e" using assms(6) by order
  then have "range_e x \<le> ?b" by (simp add: le_max_iff_disj)
  then have "{range_s x..range_e x} \<union> {s..?b} = {range_s x..?b}"
    using ivl_union_touch [OF assms(3,8) xs(1,3)] by (simp add: max_absorb2)
  then have sw: "{range_s ?x..range_e ?x} = {range_s x..range_e x} \<union> (ranges_set (m @ [y]) \<union> {s..e})"
    using ranges_set_swallow [of m y s e] assms by simp
  have "\<forall>z\<in>set q. range_e ?x < range_s z"
    using absorb_tail(2) [of m y q e] assms by simp
  moreover have "\<forall>z\<in>set p. range_lt z ?x" using wf by (simp add: range_lt_def)
  moreover have "range_s ?x \<le> range_e ?x" using assms(3) xs(3) by simp
  ultimately have "ranges_wf (p @ merge_next ?x q) \<and>
      ranges_set (p @ merge_next ?x q) = ranges_set p \<union> {range_s ?x..range_e ?x} \<union> ranges_set q"
    by (intro merge_next_correct) (use wf in auto)
  then show ?thesis unfolding ranges_added_def sw by auto
qed

text \<open>
  The sorted list invariant is kept and the interval is added, whatever its position.
\<close>

lemma add_range_correct:
  assumes wf: "ranges_wf (range_list r)" and le: "s \<le> e"
    and h: "h (rs_domain r) (rs_name r) s e = None"
  shows "fst (rangeset_add_range h True r s e) = None \<and>
    ranges_added (range_list r) s e (range_list (snd (rangeset_add_range h True r s e)))"
  using wf le
proof (cases rule: find_range_pair_cases [of r s e, case_names before same first two])
  case before
  show ?thesis
    using added_before [OF wf le before(1)] by (simp add: add_range_before [where h = h, OF before h])
next
  case (same p x q)
  note wf' = wf [unfolded same(1)]
  have "ranges_added (p @ x # q) s e
      (if range_e x < s \<and> range_e x + 1 \<noteq> s
       then (p @ [x]) @ merge_next \<lparr>range_s = s, range_e = e\<rparr> q
       else p @ merge_next (x\<lparr>range_e := max (range_e x) e\<rparr>) q)"
    using added_same_new [OF wf' le same(3)] added_same_extend [OF wf' le same(2,3)]
    by (cases "range_e x < s \<and> range_e x + 1 \<noteq> s") (simp_all only: if_True if_False simp_thms)
  then show ?thesis
    by (simp add: add_range_same [where h = h, OF same(1,4,5) h] same(1) split del: if_split)
next
  case (first m y q)
  note wf' = wf [unfolded first(1)]
  show ?thesis
    using added_first [OF wf' le first(2-5)]
    by (simp add: add_range_first [where h = h, OF first(1) wf first(4-7) h] first(1))
next
  case (two p x m y q)
  note wf' = wf [unfolded two(1)]
  have "ranges_added (p @ x # m @ y # q) s e
      (if range_e x < s \<and> range_e x + 1 \<noteq> s
       then (p @ [x]) @ merge_next \<lparr>range_s = s, range_e = max e (range_e y)\<rparr> q
       else p @ merge_next \<lparr>range_s = range_s x, range_e = max e (range_e y)\<rparr> q)"
    using added_two_new [OF wf' le two(3-6)] added_two_extend [OF wf' le two(2-6)]
    by (cases "range_e x < s \<and> range_e x + 1 \<noteq> s") (simp_all only: if_True if_False simp_thms)
  then show ?thesis
    by (simp add: add_range_two [where h = h, OF two(1) wf two(5-8) h] two(1) split del: if_split)
qed

section \<open>Removing a range\<close>

lemma remove_upto_at:
  assumes "range_list r = p @ m @ q" and "x = length p" and "y = length p + length m"
  shows "remove_upto r x y = (r\<lparr>range_list := p @ q\<rparr>, length p)"
  using assms
proof (induction m arbitrary: r y)
  case Nil
  then show ?case by (cases "length p") simp_all
next
  case (Cons z m)
  then show ?case by (simp add: destroy_range_def)
qed

text \<open>
  What the last step of the multi-range case does: cut \<open>y\<close> so that it starts after \<open>e\<close>, and
  drop it when nothing is left. It needs \<open>e + 1\<close> not to wrap.
\<close>

definition cut_below :: "ulong \<Rightarrow> range \<Rightarrow> range list" where
  "cut_below e y = (if range_e y < e + 1 then [] else [y\<lparr>range_s := e + 1\<rparr>])"

lemma cut_below_correct:
  assumes "e \<noteq> - 1" and "range_s y \<le> e"
  shows "ranges_wf (cut_below e y)" and "ranges_set (cut_below e y) = {range_s y..range_e y} - {..e}"
    and "z \<in> set (cut_below e y) \<Longrightarrow> range_s z = e + 1 \<and> range_e z = range_e y"
proof -
  have lt: "range_e y < e + 1 \<longleftrightarrow> range_e y \<le> e"
    using assms(1) by (metis inc_less_eq_iff linorder_not_le)
  show "ranges_wf (cut_below e y)" by (simp add: cut_below_def not_less)
  have "{e + 1..range_e y} = {range_s y..range_e y} - {..e}"
    using atLeastAtMost_inc [OF assms(1)] assms(2) by auto
  then show "ranges_set (cut_below e y) = {range_s y..range_e y} - {..e}"
    by (auto simp: cut_below_def lt)
  show "z \<in> set (cut_below e y) \<Longrightarrow> range_s z = e + 1 \<and> range_e z = range_e y"
    by (auto simp: cut_below_def split: if_splits)
qed

lemma remove_range_two_at:
  assumes l: "range_list r = p @ x # m @ y # q"
    and f: "find_range r s = Some (length p)" "find_range r e = Some (Suc (length p + length m))"
    and h: "h (rs_domain r) (rs_name r) s e = None"
  shows "rangeset_remove_range h a r s e =
    (None, r\<lparr>range_list :=
       p @ (if range_s x < s then [x\<lparr>range_e := s - 1\<rparr>] else []) @ cut_below e y @ q\<rparr>)"
proof (cases "range_s x < s")
  case True
  let ?x = "x\<lparr>range_e := s - 1\<rparr>"
  have nx: "next_range r (length p) = Some (Suc (length p))" using l by (simp add: next_range_def)
  have up: "remove_upto (set_e r (length p) (s - 1)) (Suc (length p)) (Suc (length p + length m)) =
      (r\<lparr>range_list := (p @ [?x]) @ y # q\<rparr>, Suc (length p))"
    using remove_upto_at [of "set_e r (length p) (s - 1)" "p @ [?x]" m "y # q"] l
    by (simp add: set_e_def)
  have y: "((p @ [?x]) @ y # q) ! Suc (length p) = y"
    by (metis length_append_singleton nth_append_length)
  have u: "(p @ ?x # y # q)[Suc (length p) := v] = p @ ?x # v # q" for v
    using list_update_at [of "p @ [?x]" y q v] by simp
  have d: "list_del (Suc (length p)) (p @ ?x # v # q) = p @ ?x # q" for v
    using list_del_at [of "p @ [?x]" v q] by simp
  show ?thesis
    using l f h True nx up y u d
    by (simp add: rangeset_remove_range_def Let_def set_s_def destroy_range_def cut_below_def
          nth_append)
next
  case False
  have up: "remove_upto r (length p) (Suc (length p + length m)) =
      (r\<lparr>range_list := p @ y # q\<rparr>, length p)"
    using remove_upto_at [of r p "x # m" "y # q"] l by simp
  show ?thesis
    using l f h False up
    by (simp add: rangeset_remove_range_def Let_def set_s_def destroy_range_def cut_below_def)
qed

lemma remove_range_first_at:
  assumes l: "range_list r = m @ y # q" and gt: "\<forall>z\<in>set m. s < range_s z" "s < range_s y"
    and f: "find_range r s = None" "find_range r e = Some (length m)"
    and h: "h (rs_domain r) (rs_name r) s e = None"
  shows "rangeset_remove_range h a r s e = (None, r\<lparr>range_list := cut_below e y @ q\<rparr>)"
proof -
  have fr: "first_range r = Some 0" using l by (simp add: first_range_def)
  have "range_list r ! 0 \<in> set (m @ [y])" using l by (cases m) auto
  then have ns: "\<not> range_s (range_list r ! 0) < s" using gt by auto
  have up: "remove_upto r 0 (length m) = (r\<lparr>range_list := y # q\<rparr>, 0)"
    using remove_upto_at [of r "[]" m "y # q"] l by simp
  show ?thesis
    using f h ns up by (simp add: rangeset_remove_range_def fr Let_def set_s_def destroy_range_def
        cut_below_def)
qed

text \<open>
  The numbers the multi-range case adds by mistake: when \<open>s\<close> lies in the gap behind the range
  \<open>x\<close> that \<^const>\<open>find_range\<close> returns for it, the assignment \<^verbatim>\<open>x->e = s - 1\<close> moves the end of
  \<open>x\<close> up, over the gap.
\<close>

definition remove_leak :: "rangeset \<Rightarrow> ulong \<Rightarrow> ulong \<Rightarrow> ulong set" where
  "remove_leak r s e =
     (case find_range r s of
        None \<Rightarrow> {}
      | Some i \<Rightarrow> if find_range r s \<noteq> find_range r e \<and> get_s r i < s
                 then {get_e r i<..<s} else {})"

definition ranges_removed :: "range list \<Rightarrow> ulong \<Rightarrow> ulong \<Rightarrow> ulong set \<Rightarrow> range list \<Rightarrow> bool" where
  "ranges_removed l s e leak l' \<longleftrightarrow> ranges_wf l' \<and> ranges_set l' = (ranges_set l - {s..e}) \<union> leak"

lemma ranges_set_below:
  "\<forall>z\<in>set l. range_e z < s \<Longrightarrow> ranges_set l - {s..e} = ranges_set l"
  by (fastforce simp: ranges_set_iff)

lemma ranges_set_above:
  "\<forall>z\<in>set l. e < range_s z \<Longrightarrow> ranges_set l - {s..e} = ranges_set l"
  by (fastforce simp: ranges_set_iff)

lemma ranges_below_of_start:
  assumes "ranges_wf (p @ x # q)" and "range_s x \<le> s"
  shows "\<forall>z\<in>set p. range_e z < s"
  using assms by (auto simp: range_lt_def intro: order.strict_trans2)

text \<open>The ranges that replace \<open>x\<close> when the interval touches no other range.\<close>

definition remove_one :: "range \<Rightarrow> ulong \<Rightarrow> ulong \<Rightarrow> range list" where
  "remove_one x s e =
     (if range_e x < s then [x]
      else (if range_s x < s then [x\<lparr>range_e := s - 1\<rparr>] else []) @
           (if range_e x > e then [x\<lparr>range_s := e + 1\<rparr>] else []))"

lemma unat_inc: "a \<noteq> - 1 \<Longrightarrow> unat (a + 1) = Suc (unat a)" for a :: "'a::len word"
  by (metis add.commute add_eq_0_iff unatSuc)

lemma range_lt_unat: "range_lt x y \<longleftrightarrow> unat (range_e x) + 1 < unat (range_s y)"
proof (cases "range_e x < range_s y")
  case True
  then have "unat (range_e x + 1) = unat (range_e x) + 1"
    by (metis add.commute unatSuc word_less_not_max add_eq_0_iff Suc_eq_plus1)
  with True show ?thesis
    by (auto simp: range_lt_def word_less_nat_alt word_unat_eq_iff)
next
  case False
  then show ?thesis by (auto simp: range_lt_def word_less_nat_alt)
qed

lemma range_lt_mono:
  assumes "range_lt x y" and "range_e x' \<le> range_e x" and "range_s y \<le> range_s y'"
  shows "range_lt x' y'"
  using assms by (simp add: range_lt_unat word_le_nat_alt)

lemma remove_one_correct:
  assumes x: "range_s x \<le> range_e x" "range_s x \<le> s" and le: "s \<le> e"
  shows "ranges_wf (remove_one x s e)"
    and "ranges_set (remove_one x s e) = {range_s x..range_e x} - {s..e}"
    and "z \<in> set (remove_one x s e) \<Longrightarrow> range_s x \<le> range_s z \<and> range_e z \<le> range_e x"
proof -
  have low: "{range_s x..s - 1} = {range_s x..<s}" "range_s x \<le> s - 1" "s - 1 < s" if "range_s x < s"
  proof -
    have "s \<noteq> 0" using that by auto
    then show "{range_s x..s - 1} = {range_s x..<s}" "range_s x \<le> s - 1" "s - 1 < s"
      using that by (simp_all add: atLeastAtMost_dec word_pred_ge_iff flip: word_pred_ge_iff [of s "s - 1"])
  qed
  have high: "{e + 1..range_e x} = {e<..range_e x}" "e + 1 \<le> range_e x" "e < e + 1" if "e < range_e x"
  proof -
    note ne = word_less_not_max [OF that]
    show "{e + 1..range_e x} = {e<..range_e x}" by (rule atLeastAtMost_inc [OF ne])
    show "e + 1 \<le> range_e x" using that by (rule inc_le)
    show "e < e + 1" using word_Suc_le_iff [OF that, of "e + 1"] by simp
  qed
  have sep: "range_lt (x\<lparr>range_e := s - 1\<rparr>) (x\<lparr>range_s := e + 1\<rparr>)" if "range_s x < s" "e < range_e x"
  proof -
    have "s < e + 1" by (rule order.strict_trans1 [OF le high(3) [OF that(2)]])
    moreover have "s - 1 < e + 1" by (rule order.strict_trans [OF low(3) [OF that(1)] calculation])
    ultimately have "s - 1 < e + 1 \<and> s \<noteq> e + 1" by simp
    then show ?thesis by (simp add: range_lt_def)
  qed
  show "ranges_wf (remove_one x s e)"
    using low(2) high(2) sep x
    by (cases "range_s x < s"; cases "e < range_e x"; cases "range_e x < s")
       (simp_all add: remove_one_def)
  show "ranges_set (remove_one x s e) = {range_s x..range_e x} - {s..e}"
    using x le by (auto simp: remove_one_def low(1) high(1))
  show "z \<in> set (remove_one x s e) \<Longrightarrow> range_s x \<le> range_s z \<and> range_e z \<le> range_e x"
  proof -
    assume "z \<in> set (remove_one x s e)"
    then consider "z = x" | "z = x\<lparr>range_e := s - 1\<rparr>" "range_s x < s" "\<not> range_e x < s"
      | "z = x\<lparr>range_s := e + 1\<rparr>" "e < range_e x"
      by (cases "range_s x < s"; cases "e < range_e x"; cases "range_e x < s")
         (auto simp: remove_one_def)
    then show "range_s x \<le> range_s z \<and> range_e z \<le> range_e x"
    proof cases
      case 2
      with low(3) show ?thesis by simp
    next
      case 3
      with high(3) x(2) le show ?thesis by simp
    qed simp
  qed
qed

lemma remove_range_same_at:
  assumes l: "range_list r = p @ x # q" and x: "range_s x \<le> range_e x" "range_s x \<le> s"
    and f: "find_range r s = Some (length p)" "find_range r e = Some (length p)"
    and h: "h (rs_domain r) (rs_name r) s e = None"
  shows "rangeset_remove_range h True r s e = (None, r\<lparr>range_list := p @ remove_one x s e @ q\<rparr>)"
  using assms
  by (auto simp: rangeset_remove_range_def Let_def remove_one_def set_s_def set_e_def insert_range_def
        destroy_range_def not_less)

lemma removed_same:
  assumes wf: "ranges_wf (p @ x # q)" and le: "s \<le> e" and x: "range_s x \<le> s"
    and q: "\<forall>z\<in>set q. e < range_s z"
  shows "ranges_removed (p @ x # q) s e {} (p @ remove_one x s e @ q)"
proof -
  have xx: "range_s x \<le> range_e x" using wf by simp
  note one = remove_one_correct [OF xx x le]
  have "range_lt z w" if "z \<in> set p" "w \<in> set (remove_one x s e)" for z w
    using range_lt_mono [of z x z w] wf that one(3) [OF that(2)] by simp
  moreover have "range_lt w z" if "w \<in> set (remove_one x s e)" "z \<in> set q" for z w
    using range_lt_mono [of x z w z] wf that one(3) [OF that(1)] by simp
  moreover have "ranges_set p - {s..e} = ranges_set p" "ranges_set q - {s..e} = ranges_set q"
    using ranges_set_below [OF ranges_below_of_start [OF wf x]] ranges_set_above [OF q] by auto
  ultimately show ?thesis
    using wf one by (auto simp: ranges_removed_def Un_Diff)
qed

lemma cut_below_sep:
  assumes "ranges_wf (y # q)" and "e \<noteq> - 1" and "range_s y \<le> e"
  shows "ranges_wf (cut_below e y @ q)"
  using assms cut_below_correct [OF assms(2,3)] by (auto simp: range_lt_def)

lemma removed_first:
  assumes wf: "ranges_wf (m @ y # q)" and le: "s \<le> e" and e: "e \<noteq> - 1"
    and m: "\<forall>z\<in>set m. s < range_s z" and y: "s < range_s y" "range_s y \<le> e"
    and q: "\<forall>z\<in>set q. e < range_s z"
  shows "ranges_removed (m @ y # q) s e {} (cut_below e y @ q)"
proof -
  have "ranges_wf (cut_below e y @ q)" by (rule cut_below_sep) (use wf e y in auto)
  moreover have "ranges_set m \<subseteq> {s..e}"
    by (rule ranges_set_between [where b = "range_s y"]) (use wf m y in \<open>auto simp: range_lt_def\<close>)
  moreover have "{range_s y..range_e y} - {..e} = {range_s y..range_e y} - {s..e}" using y by auto
  ultimately show ?thesis
    using cut_below_correct(2) [OF e y(2)] ranges_set_above [OF q, of s]
    by (auto simp: ranges_removed_def)
qed

lemma ivl_diff_gap:
  fixes a b s e :: "'a::linorder"
  assumes "a \<le> b" and "b \<le> e"
  shows "({a..b} - {s..e}) \<union> {b<..<s} = {a..<s}"
  using assms by (auto simp: not_le)

lemma set_diff_parts:
  "A - D = A \<Longrightarrow> A \<union> (((B - D) \<union> L) \<union> (C - D)) = ((A \<union> (B \<union> C)) - D) \<union> L"
  by blast

lemma removed_two:
  assumes wf: "ranges_wf (p @ x # m @ y # q)" and le: "s \<le> e" and e: "e \<noteq> - 1"
    and x: "range_s x \<le> s" and m: "\<forall>z\<in>set m. s < range_s z" and y: "s < range_s y" "range_s y \<le> e"
    and q: "\<forall>z\<in>set q. e < range_s z"
  shows "ranges_removed (p @ x # m @ y # q) s e (if range_s x < s then {range_e x<..<s} else {})
    (p @ (if range_s x < s then [x\<lparr>range_e := s - 1\<rparr>] else []) @ cut_below e y @ q)"
proof -
  let ?t = "cut_below e y @ q"
  define X where "X = (if range_s x < s then [x\<lparr>range_e := s - 1\<rparr>] else [])"
  have "ranges_removed (m @ y # q) s e {} ?t"
    by (rule removed_first [OF _ le e m y q]) (use wf in simp)
  then have t: "ranges_wf ?t" "ranges_set ?t = ranges_set (m @ y # q) - {s..e}"
    by (simp_all add: ranges_removed_def)
  have gt: "range_lt z w" if "range_e z < s" "w \<in> set ?t" for z w
  proof -
    have "w \<in> set (cut_below e y) \<or> w \<in> set q" using that(2) by simp
    then have "e < range_s w"
    proof
      assume "w \<in> set (cut_below e y)"
      then have "range_s w = e + 1" using cut_below_correct(3) [OF e y(2)] by blast
      then show ?thesis using unat_inc [OF e] by (simp add: word_less_nat_alt)
    qed (use q in blast)
    then show ?thesis
      using that(1) le by (simp add: range_lt_unat word_less_nat_alt word_le_nat_alt)
  qed
  have xe: "range_s x \<le> range_e x" "range_e x < range_s y" using wf by (simp_all add: range_lt_def)
  then have xe': "range_e x \<le> e" using y(2) by order
  have xs: "ranges_set X =
      ({range_s x..range_e x} - {s..e}) \<union> (if range_s x < s then {range_e x<..<s} else {})"
  proof (cases "range_s x < s")
    case True
    then have "s \<noteq> 0" by auto
    with True show ?thesis
      by (simp add: X_def atLeastAtMost_dec ivl_diff_gap [OF xe(1) xe'])
  next
    case False
    then show ?thesis using x xe' by (auto simp: X_def)
  qed
  have pz: "\<forall>z\<in>set p. range_e z < s" by (rule ranges_below_of_start [OF wf x])
  have xz: "range_e z < s" "range_s z \<le> range_e z" "range_s z = range_s x" if "z \<in> set X" for z
  proof -
    have z: "range_s x < s" "z = x\<lparr>range_e := s - 1\<rparr>"
      using that by (cases "range_s x < s"; simp add: X_def)+
    then have "s \<noteq> 0" by auto
    then have "s - 1 < s" "range_s x \<le> s - 1"
      using z(1) word_pred_ge_iff [of s] by auto
    with z show "range_e z < s" "range_s z \<le> range_e z" "range_s z = range_s x" by simp_all
  qed
  have px: "range_lt z w" if "z \<in> set p" "w \<in> set X" for z w
    using range_lt_mono [of z x z w] wf that xz(3) [OF that(2)] by simp
  have "ranges_wf X" using xz(2) by (cases "range_s x < s") (simp_all add: X_def)
  then have "ranges_wf (p @ X @ ?t)"
    using wf t(1) px gt pz xz(1) by auto
  moreover have "ranges_set (p @ X @ ?t) = ranges_set (p @ x # m @ y # q) - {s..e} \<union>
      (if range_s x < s then {range_e x<..<s} else {})"
    unfolding ranges_set_append [of p] ranges_set_append [of X] ranges_set_Cons xs t(2)
    by (rule set_diff_parts [OF ranges_set_below [OF pz]])
  ultimately show ?thesis
    unfolding X_def [symmetric] ranges_removed_def by (rule conjI)
qed

lemma remove_range_correct:
  assumes wf: "ranges_wf (range_list r)" and le: "s \<le> e"
    and e: "find_range r s = find_range r e \<or> e \<noteq> - 1"
    and h: "h (rs_domain r) (rs_name r) s e = None"
  shows "fst (rangeset_remove_range h True r s e) = None \<and>
    ranges_removed (range_list r) s e (remove_leak r s e)
      (range_list (snd (rangeset_remove_range h True r s e)))"
  using wf le
proof (cases rule: find_range_pair_cases [of r s e, case_names before same first two])
  case before
  then show ?thesis
    using wf h ranges_set_above [OF before(1), of s]
    by (simp add: rangeset_remove_range_def ranges_removed_def remove_leak_def)
next
  case (same p x q)
  have "range_s x \<le> range_e x" using wf same(1) by simp
  then show ?thesis
    using removed_same [OF wf [unfolded same(1)] le same(2,3)] same
    by (simp add: remove_range_same_at [where h = h, OF same(1) _ same(2,4,5) h] remove_leak_def)
next
  case (first m y q)
  with e have "e \<noteq> - 1" by simp
  then show ?thesis
    using removed_first [OF wf [unfolded first(1)] le _ first(2-5)] first
    by (simp add: remove_range_first_at [where h = h, OF first(1-3,6,7) h] remove_leak_def)
next
  case (two p x m y q)
  with e have "e \<noteq> - 1" by simp
  then show ?thesis
    using removed_two [OF wf [unfolded two(1)] le _ two(2-6)] two
    by (cases "range_s x < s")
       (simp_all add: remove_range_two_at [where h = h, OF two(1,7,8) h] remove_leak_def nth_append)
qed

lemma find_range_cases:
  assumes "ranges_wf (range_list r)"
  obtains (none) "find_range r s = None" "\<forall>z\<in>set (range_list r). s < range_s z"
  | (at) p x q where "range_list r = p @ x # q" "find_range r s = Some (length p)"
      "range_s x \<le> s" "\<forall>z\<in>set p. range_e z < s" "\<forall>z\<in>set q. s < range_s z"
proof -
  have le: "s \<le> s" by simp
  from assms le show ?thesis
  proof (cases rule: find_range_pair_cases [of r s s, case_names before same first two])
    case before
    then show ?thesis using none by simp
  next
    case (same p x q)
    then show ?thesis using at [of p x q] ranges_below_of_start [of p x q s] assms by simp
  next
    case (first m y q)
    then show ?thesis by simp
  next
    case (two p x m y q)
    then show ?thesis by simp
  qed
qed

lemma ranges_set_above_mem: "\<forall>z\<in>set l. e < range_s z \<Longrightarrow> a \<le> e \<Longrightarrow> a \<notin> ranges_set l"
  by (auto simp: ranges_set_iff)

lemma ranges_set_below_mem: "\<forall>z\<in>set l. range_e z < s \<Longrightarrow> s \<le> a \<Longrightarrow> a \<notin> ranges_set l"
  by (auto simp: ranges_set_iff)

lemma overlaps_range_correct:
  assumes wf: "ranges_wf (range_list r)" and le: "s \<le> e"
  shows "rangeset_overlaps_range r s e \<longleftrightarrow> ranges_set (range_list r) \<inter> {s..e} \<noteq> {}"
  using wf
proof (cases rule: find_range_cases [of r e, case_names none at])
  case none
  then have "ranges_set (range_list r) \<inter> {s..e} = {}"
    using ranges_set_above [OF none(2), of s] by auto
  with none show ?thesis by (simp add: rangeset_overlaps_range_def)
next
  case (at p x q)
  have x: "range_s x \<le> range_e x" using wf at(1) by simp
  have "ranges_set q \<inter> {s..e} = {}" using ranges_set_above [OF at(5), of s] by auto
  moreover have "ranges_set p \<inter> {s..e} = {}" if "range_e x < s"
  proof -
    have "\<forall>z\<in>set p. range_e z < s"
      using wf at(1) that x by (auto simp: range_lt_def)
    then show ?thesis using ranges_set_below [of p s e] by auto
  qed
  moreover have "max (range_s x) s \<in> {range_s x..range_e x} \<inter> {s..e}" if "s \<le> range_e x"
    using that x at(3) le by auto
  ultimately have "ranges_set (p @ x # q) \<inter> {s..e} \<noteq> {} \<longleftrightarrow> s \<le> range_e x"
    by (cases "s \<le> range_e x") (auto simp: not_le Int_Un_distrib2)
  then show ?thesis using at by (simp add: rangeset_overlaps_range_def)
qed

lemma contains_range_correct:
  assumes wf: "ranges_wf (range_list r)" and le: "s \<le> e"
  shows "rangeset_contains_range r s e \<longleftrightarrow> {s..e} \<subseteq> ranges_set (range_list r)"
  using wf
proof (cases rule: find_range_cases [of r s, case_names none at])
  case none
  then have "s \<notin> ranges_set (range_list r)" using ranges_set_above_mem [OF none(2), of s] by simp
  with none le show ?thesis by (auto simp: rangeset_contains_range_def)
next
  case (at p x q)
  have gap: "\<exists>a. a \<in> {s..e} \<and> a \<notin> ranges_set (range_list r)" if lt: "range_e x < e"
  proof (cases "range_e x < s")
    case True
    then have "s \<notin> ranges_set (range_list r)"
      using ranges_set_above_mem [OF at(5), of s] ranges_set_below_mem [OF at(4), of s] True at(1)
      by (simp add: not_le)
    then show ?thesis using le by auto
  next
    case False
    have ne: "range_e x \<noteq> - 1" using lt by auto
    let ?a = "range_e x + 1"
    have a: "range_e x < ?a" "?a \<le> e"
      using unat_inc [OF ne] lt by (simp_all add: word_less_nat_alt word_le_nat_alt)
    have "\<forall>z\<in>set q. ?a < range_s z"
      using wf at(1) unat_inc [OF ne] by (auto simp: range_lt_unat word_less_nat_alt)
    moreover have "\<forall>z\<in>set (p @ [x]). range_e z < ?a"
      using at(4) False a(1) by (auto simp: not_less)
    ultimately have "?a \<notin> ranges_set (range_list r)"
      using ranges_set_above_mem [of q ?a ?a] ranges_set_below_mem [of "p @ [x]" ?a ?a] at(1) by auto
    moreover have "?a \<in> {s..e}" using False a by (auto simp: not_less)
    ultimately show ?thesis by blast
  qed
  show ?thesis
  proof (cases "e \<le> range_e x")
    case True
    then have "{s..e} \<subseteq> {range_s x..range_e x}" using at(3) by auto
    with True at show ?thesis by (auto simp: rangeset_contains_range_def)
  next
    case False
    with gap have "\<not> {s..e} \<subseteq> ranges_set (range_list r)" by (meson not_le subsetD)
    with False at show ?thesis by (simp add: rangeset_contains_range_def)
  qed
qed

section \<open>Reporting\<close>

text \<open>
  The windows a full report makes: the part of each range inside \<open>[s, e]\<close>, in ascending order;
  and the calls made for a list of windows, which stop at the first non-zero result.
\<close>

definition report_windows :: "range list \<Rightarrow> ulong \<Rightarrow> ulong \<Rightarrow> (ulong \<times> ulong) list" where
  "report_windows l s e =
     map (\<lambda>x. (max (range_s x) s, min (range_e x) e))
       (filter (\<lambda>x. range_s x \<le> e \<and> s \<le> range_e x) l)"

fun call_until ::
    "(ulong \<Rightarrow> ulong \<Rightarrow> 'c \<Rightarrow> int \<times> 'c) \<Rightarrow> (ulong \<times> ulong) list \<Rightarrow> int \<Rightarrow> 'c \<Rightarrow> int \<times> 'c" where
  "call_until cb [] rc ctxt = (rc, ctxt)"
| "call_until cb ((a, b) # ws) rc ctxt =
     (if rc \<noteq> 0 then (rc, ctxt)
      else let (rc', ctxt') = cb a b ctxt in call_until cb ws rc' ctxt')"

lemma report_windows_Nil [simp]: "report_windows [] s e = []"
  by (simp add: report_windows_def)

lemma report_windows_Cons [simp]:
  "report_windows (x # l) s e =
     (if range_s x \<le> e \<and> s \<le> range_e x
      then (max (range_s x) s, min (range_e x) e) # report_windows l s e else report_windows l s e)"
  by (simp add: report_windows_def)

lemma report_windows_append [simp]:
  "report_windows (l @ m) s e = report_windows l s e @ report_windows m s e"
  by (simp add: report_windows_def)

lemma report_windows_above: "\<forall>x\<in>set l. e < range_s x \<Longrightarrow> report_windows l s e = []"
  by (auto simp: report_windows_def filter_empty_conv)

lemma report_windows_below: "\<forall>x\<in>set l. range_e x < s \<Longrightarrow> report_windows l s e = []"
  by (auto simp: report_windows_def filter_empty_conv)

lemma call_until_stop [simp]: "rc \<noteq> 0 \<Longrightarrow> call_until cb ws rc ctxt = (rc, ctxt)"
  by (cases ws) auto

lemma report_loop_stop [simp]: "rc \<noteq> 0 \<Longrightarrow> report_loop l s e cb rc ctxt = (rc, ctxt)"
  by (cases l) auto

lemma report_loop_eq:
  "ranges_wf l \<Longrightarrow> report_loop l s e cb rc ctxt = call_until cb (report_windows l s e) rc ctxt"
proof (induction l s e cb rc ctxt rule: report_loop.induct)
  case (2 x xs s e cb rc ctxt)
  show ?case
  proof (cases "rc = 0 \<and> e < range_s x")
    case True
    have "\<forall>y\<in>set (x # xs). e < range_s y"
      using "2.prems" True by (force simp: range_lt_def)
    with True show ?thesis by (simp add: report_windows_above flip: not_le)
  next
    case False
    with 2 show ?thesis by (cases "rc = 0") (auto simp: not_le split: prod.split)
  qed
qed simp

lemma report_ranges_correct:
  assumes wf: "ranges_wf (range_list r)" and "find_range r s \<noteq> None"
  shows "rangeset_report_ranges r s e cb ctxt =
    call_until cb (report_windows (range_list r) s e) 0 ctxt"
  using wf
proof (cases rule: find_range_cases [of r s, case_names none at])
  case (at p x q)
  have "ranges_wf (x # q)" using wf at(1) by simp
  then have "report_loop (x # q) s e cb 0 ctxt = call_until cb (report_windows (x # q) s e) 0 ctxt"
    by (rule report_loop_eq)
  moreover have "report_windows (range_list r) s e = report_windows (x # q) s e"
    using at(1) report_windows_below [OF at(4)] by simp
  ultimately show ?thesis
    using at(1,2) by (simp only: rangeset_report_ranges_def option.case append_eq_conv_conj) simp
qed (use assms in simp)

lemma report_windows_set:
  assumes "s \<le> e"
  shows "(\<Union>(a, b)\<in>set (report_windows l s e). {a..b}) = ranges_set l \<inter> {s..e}"
  by (induction l) (auto simp: not_le)

lemma rangeset_add_range_hook:
  "h (rs_domain r) (rs_name r) s e = Some err \<Longrightarrow> rangeset_add_range h a r s e = (Some err, r)"
  by (simp add: rangeset_add_range_def)

lemma rangeset_remove_range_hook:
  "h (rs_domain r) (rs_name r) s e = Some err \<Longrightarrow> rangeset_remove_range h a r s e = (Some err, r)"
  by (simp add: rangeset_remove_range_def)

lemma rangeset_add_range_nomem:
  "rangeset_add_range h False r s e = (Some ENOMEM, r) \<or>
   rangeset_add_range h False r s e = rangeset_add_range h True r s e"
  by (auto simp: rangeset_add_range_def Let_def split: option.split)

lemma rangeset_remove_range_nomem:
  "rangeset_remove_range h False r s e = (Some ENOMEM, r) \<or>
   rangeset_remove_range h False r s e = rangeset_remove_range h True r s e"
  by (auto simp: rangeset_remove_range_def Let_def split: option.split)

section \<open>Life cycle of the sets of a domain\<close>

text \<open>
  The list of a domain holds exactly the live sets that name it as their owner, once each.
\<close>

definition rs_registry :: "rs_world \<Rightarrow> bool" where
  "rs_registry w \<longleftrightarrow>
     (\<forall>d a. a \<in> set (rangesets w d) \<longleftrightarrow> (\<exists>r. rs_heap w a = Some r \<and> rs_domain r = Some d)) \<and>
     (\<forall>d. distinct (rangesets w d))"

lemma rangeset_new_registry:
  assumes "rs_registry w" and "rs_heap w a = None" and "rangeset_new (Some a) w d name flags = Some (p, w')"
  shows "rs_registry w'"
  using assms
  by (cases d) (auto simp: rs_registry_def rangeset_new_def Let_def split: if_splits)

lemma rangeset_destroy_registry:
  assumes "rs_registry w" and "rangeset_destroy w p = Some w'"
  shows "rs_registry w'"
  using assms
  by (cases p) (auto simp: rs_registry_def rangeset_destroy_def Let_def split: option.splits if_splits)

lemma domain_destroy_one_registry:
  assumes "rs_registry w" and "a \<in> set (rangesets w d)"
  obtains w' where "domain_destroy_one w d a = Some w'" "rs_registry w'" "rs_heap w' = (rs_heap w)(a := None)"
    "rangesets w' = (rangesets w)(d := remove1 a (rangesets w d))"
proof -
  obtain r where r: "rs_heap w a = Some r" "rs_domain r = Some d"
    using assms by (auto simp: rs_registry_def)
  let ?w = "w\<lparr>rs_heap := (rs_heap w)(a := None), rangesets := (rangesets w)(d := remove1 a (rangesets w d))\<rparr>"
  have "domain_destroy_one w d a = Some ?w"
    using r by (simp add: domain_destroy_one_def rangeset_destroy_def Let_def)
  moreover have "rs_registry ?w"
    using assms r by (auto simp: rs_registry_def)
  ultimately show ?thesis using that by simp
qed

lemma domain_destroy_correct:
  assumes "rs_registry w"
  shows "\<exists>w'. rangeset_domain_destroy w d = Some w' \<and> rs_registry w' \<and> rangesets w' d = [] \<and>
    rs_heap w' = rs_heap w |` (- set (rangesets w d)) \<and>
    (\<forall>d'. d' \<noteq> d \<longrightarrow> rangesets w' d' = rangesets w d')"
  using assms
proof (induction w d rule: rangeset_domain_destroy.induct)
  case (1 w d)
  show ?case
  proof (cases "rangesets w d")
    case Nil
    with "1.prems" show ?thesis by (simp add: rangeset_domain_destroy.simps [of w])
  next
    case (Cons a as)
    then have "a \<in> set (rangesets w d)" by simp
    with "1.prems" obtain w1 where w1: "domain_destroy_one w d a = Some w1" "rs_registry w1"
      "rs_heap w1 = (rs_heap w)(a := None)" "rangesets w1 = (rangesets w)(d := remove1 a (rangesets w d))"
      by (rule domain_destroy_one_registry)
    from "1.IH" [OF Cons w1(1,2)] obtain w' where w':
      "rangeset_domain_destroy w1 d = Some w'" "rs_registry w'" "rangesets w' d = []"
      "rs_heap w' = rs_heap w1 |` (- set (rangesets w1 d))" "\<forall>d'. d' \<noteq> d \<longrightarrow> rangesets w' d' = rangesets w1 d'"
      by blast
    have "rs_heap w' = rs_heap w |` (- set (rangesets w d))"
      using w'(4) w1(3,4) Cons by (auto simp: restrict_map_def fun_eq_iff)
    with w' w1 Cons show ?thesis by (simp add: rangeset_domain_destroy.simps [of w])
  qed
qed

end
