(* ===== verification/Rangeset_Caps.thy ===== *)
theory Rangeset_Caps
  imports Rangeset_Lemmas
begin

text \<open>
  The contract that the users of range sets rely on, as the locale \<open>range_caps\<close>, its
  interpretation by the operations of \<^verbatim>\<open>rangeset.c\<close>, and the properties of the component.
\<close>

section \<open>Range sets as a capability interface\<close>

text \<open>
  What the clients of a range set rely on. A grant that succeeds adds exactly the requested
  range. A revocation that succeeds leaves nothing of the requested range and loses no other
  member (that it may gain members below the range is the subject of
  \<open>iocap_deny_regrants\<close>); an operation that fails changes nothing.
\<close>

locale range_caps =
  fixes wf :: "'r \<Rightarrow> bool" and members :: "'r \<Rightarrow> ulong set"
    and grant revoke :: "'r \<Rightarrow> ulong \<Rightarrow> ulong \<Rightarrow> rc \<times> 'r"
    and query :: "'r \<Rightarrow> ulong \<Rightarrow> ulong \<Rightarrow> bool"
  assumes grant_ok: "wf r \<Longrightarrow> s \<le> e \<Longrightarrow> grant r s e = (None, r') \<Longrightarrow>
      wf r' \<and> members r' = members r \<union> {s..e}"
    and grant_fails: "wf r \<Longrightarrow> s \<le> e \<Longrightarrow> grant r s e = (Some err, r') \<Longrightarrow> r' = r"
    and revoke_ok: "wf r \<Longrightarrow> s \<le> e \<Longrightarrow> e \<noteq> - 1 \<Longrightarrow> revoke r s e = (None, r') \<Longrightarrow>
      wf r' \<and> members r - {s..e} \<subseteq> members r' \<and> members r' \<inter> {s..e} = {}"
    and revoke_point: "wf r \<Longrightarrow> revoke r s s = (None, r') \<Longrightarrow> wf r' \<and> members r' = members r - {s}"
    and revoke_fails: "wf r \<Longrightarrow> revoke r s e = (Some err, r') \<Longrightarrow> r' = r"
    and query_iff: "wf r \<Longrightarrow> s \<le> e \<Longrightarrow> query r s e \<longleftrightarrow> {s..e} \<subseteq> members r"
begin

lemma granted: "wf r \<Longrightarrow> s \<le> e \<Longrightarrow> grant r s e = (None, r') \<Longrightarrow> query r' s e"
  using grant_ok query_iff by blast

lemma grant_keeps:
  assumes "wf r" "s \<le> e" "a \<le> b" "query r a b" "grant r s e = (ret, r')"
  shows "query r' a b"
proof (cases ret)
  case None
  have "{a..b} \<subseteq> members r" using assms(1,3,4) query_iff by blast
  moreover have "wf r' \<and> members r' = members r \<union> {s..e}"
    using assms(5) None grant_ok [OF assms(1,2)] by simp
  ultimately show ?thesis using query_iff [of r' a b] assms(3) by auto
next
  case (Some err)
  with assms(4,5) show ?thesis using grant_fails [OF assms(1,2)] by blast
qed

lemma revoked:
  "wf r \<Longrightarrow> s \<le> e \<Longrightarrow> e \<noteq> - 1 \<Longrightarrow> revoke r s e = (None, r') \<Longrightarrow> a \<in> {s..e} \<Longrightarrow> \<not> query r' a a"
  using revoke_ok [of r s e r'] query_iff [of r' a a] by auto

lemma revoke_keeps:
  assumes "wf r" "s \<le> e" "e \<noteq> - 1" "revoke r s e = (None, r')" "query r a b" "a \<le> b" "b < s \<or> e < a"
  shows "query r' a b"
proof -
  have "{a..b} \<inter> {s..e} = {}" using assms(7) by auto
  moreover have "{a..b} \<subseteq> members r" using assms(1,5,6) query_iff by blast
  ultimately have "{a..b} \<subseteq> members r'" using revoke_ok [OF assms(1-4)] by blast
  then show ?thesis using revoke_ok [OF assms(1-4)] query_iff assms(6) by blast
qed

text \<open>Revoking points one after the other takes away exactly those points.\<close>

fun revoke_points :: "'r \<Rightarrow> ulong list \<Rightarrow> rc list \<times> 'r" where
  "revoke_points r [] = ([], r)"
| "revoke_points r (a # as) =
     (let (ret, r') = revoke r a a; (rets, r'') = revoke_points r' as in (ret # rets, r''))"

lemma revoke_points_correct:
  "wf r \<Longrightarrow> revoke_points r as = (rets, r') \<Longrightarrow> set rets \<subseteq> {None} \<Longrightarrow>
   wf r' \<and> members r' = members r - set as"
proof (induction as arbitrary: r rets)
  case (Cons a as)
  obtain ret r1 where 1: "revoke r a a = (ret, r1)" by fastforce
  obtain rs where 2: "revoke_points r1 as = (rs, r')" "rets = ret # rs"
    using Cons.prems(2) 1 by (auto split: prod.splits)
  then have "ret = None" using Cons.prems(3) by simp
  with 1 have 3: "wf r1 \<and> members r1 = members r - {a}" using revoke_point [OF Cons.prems(1)] by simp
  then have "wf r' \<and> members r' = members r1 - set as"
    using Cons.IH [OF _ 2(1)] 2(2) Cons.prems(3) by simp
  with 3 show ?case by auto
qed simp

end

lemma add_range_cases:
  assumes "rangeset_add_range h a r s e = (ret, r')"
  obtains "ret \<noteq> None" "r' = r"
  | "h (rs_domain r) (rs_name r) s e = None" "rangeset_add_range h True r s e = (ret, r')"
proof (cases "h (rs_domain r) (rs_name r) s e")
  case None
  then show ?thesis using that assms rangeset_add_range_nomem [of h r s e] by (cases a) auto
next
  case (Some err)
  then have "ret = Some err \<and> r' = r"
    using assms rangeset_add_range_hook [where h = h, OF Some, of a] by simp
  then show ?thesis using that(1) by simp
qed

lemma remove_range_cases:
  assumes "rangeset_remove_range h a r s e = (ret, r')"
  obtains "ret \<noteq> None" "r' = r"
  | "h (rs_domain r) (rs_name r) s e = None" "rangeset_remove_range h True r s e = (ret, r')"
proof (cases "h (rs_domain r) (rs_name r) s e")
  case None
  then show ?thesis using that assms rangeset_remove_range_nomem [of h r s e] by (cases a) auto
next
  case (Some err)
  then have "ret = Some err \<and> r' = r"
    using assms rangeset_remove_range_hook [where h = h, OF Some, of a] by simp
  then show ?thesis using that(1) by simp
qed

lemma remove_leak_disjoint:
  "s \<le> e \<Longrightarrow> remove_leak r s e \<inter> {s..e} = {}"
  by (auto simp: remove_leak_def split: option.splits)

lemma remove_leak_point: "remove_leak r s s = {}"
  by (auto simp: remove_leak_def split: option.splits)

lemma remove_range_rc:
  "h (rs_domain r) (rs_name r) s e = None \<Longrightarrow> fst (rangeset_remove_range h True r s e) = None"
  by (simp add: rangeset_remove_range_def Let_def case_prod_beta split: option.split)

lemma rangeset_range_caps:
  "range_caps rangeset_wf rangeset_abs (rangeset_add_range h a) (rangeset_remove_range h' a')
     rangeset_contains_range"
proof
  fix r r' :: rangeset and s e :: ulong
  assume wf: "rangeset_wf r"
  have rem: "rangeset_wf r' \<and> rangeset_abs r' = (rangeset_abs r - {s..e}) \<union> remove_leak r s e"
    if "s \<le> e" "s = e \<or> e \<noteq> - 1" "rangeset_remove_range h' a' r s e = (None, r')" for s e
    using that(3)
  proof (cases rule: remove_range_cases)
    case 2
    have "find_range r s = find_range r e \<or> e \<noteq> - 1" using that(2) by auto
    with remove_range_correct [where h = h', OF wf [unfolded rangeset_wf_def] that(1) _ 2(1)] 2(2) show ?thesis
      by (simp add: ranges_removed_def rangeset_wf_def rangeset_abs_def)
  qed simp
  {
    assume "s \<le> e" "e \<noteq> - 1" "rangeset_remove_range h' a' r s e = (None, r')"
    with rem [of s e] remove_leak_disjoint [of s e r]
    show "rangeset_wf r' \<and> rangeset_abs r - {s..e} \<subseteq> rangeset_abs r' \<and> rangeset_abs r' \<inter> {s..e} = {}"
      by auto
  next
    assume "rangeset_remove_range h' a' r s s = (None, r')"
    with rem [of s s] show "rangeset_wf r' \<and> rangeset_abs r' = rangeset_abs r - {s}"
      by (simp add: remove_leak_point)
  next
    fix err assume *: "rangeset_remove_range h' a' r s e = (Some err, r')"
    from this show "r' = r"
    proof (cases rule: remove_range_cases)
      case 2
      with remove_range_rc [where h = h', OF 2(1)] show ?thesis by simp
    qed
  next
    assume le: "s \<le> e" and "rangeset_add_range h a r s e = (None, r')"
    from this(2) show "rangeset_wf r' \<and> rangeset_abs r' = rangeset_abs r \<union> {s..e}"
    proof (cases rule: add_range_cases)
      case 2
      with add_range_correct [where h = h, OF wf [unfolded rangeset_wf_def] le 2(1)] show ?thesis
        by (simp add: ranges_added_def rangeset_wf_def rangeset_abs_def)
    qed simp
  next
    fix err assume le: "s \<le> e" and "rangeset_add_range h a r s e = (Some err, r')"
    from this(2) show "r' = r"
    proof (cases rule: add_range_cases)
      case 2
      with add_range_correct [where h = h, OF wf [unfolded rangeset_wf_def] le 2(1)] show ?thesis by simp
    qed
  next
    assume "s \<le> e"
    with contains_range_correct [OF wf [unfolded rangeset_wf_def] this]
    show "rangeset_contains_range r s e \<longleftrightarrow> {s..e} \<subseteq> rangeset_abs r"
      by (simp add: rangeset_abs_def)
  }
qed

interpretation caps: range_caps rangeset_wf rangeset_abs "rangeset_add_range h a"
    "rangeset_remove_range h' a'" rangeset_contains_range for h a h' a'
  by (rule rangeset_range_caps)

lemma remove_leak_member:
  assumes "rangeset_wf r" and "s \<in> rangeset_abs r"
  shows "remove_leak r s e = {}"
  using assms(1) [unfolded rangeset_wf_def]
proof (cases rule: find_range_cases [of r s, case_names none at])
  case none
  then show ?thesis by (simp add: remove_leak_def)
next
  case (at p x q)
  then have "s \<le> range_e x"
    using assms(2) ranges_set_above_mem [OF at(5), of s] ranges_set_below_mem [OF at(4), of s]
    by (simp add: rangeset_abs_def)
  then show ?thesis using at by (auto simp: remove_leak_def)
qed

text \<open>The removal of a range whose first element is a member is exact.\<close>

lemma remove_range_exact:
  assumes "rangeset_wf r" "s \<le> e" "e \<noteq> - 1" "s \<in> rangeset_abs r"
    "h (rs_domain r) (rs_name r) s e = None"
  shows "\<exists>r'. rangeset_remove_range h True r s e = (None, r') \<and> rangeset_wf r' \<and>
    rangeset_abs r' = rangeset_abs r - {s..e}"
proof -
  have "find_range r s = find_range r e \<or> e \<noteq> - 1" using assms(3) by simp
  with remove_range_correct [where h = h, OF assms(1) [unfolded rangeset_wf_def] assms(2) _ assms(5)]
    remove_leak_member [OF assms(1,4)] show ?thesis
    by (cases "rangeset_remove_range h True r s e")
       (simp add: ranges_removed_def rangeset_wf_def rangeset_abs_def)
qed

lemma remove_point_exact:
  assumes "rangeset_wf r" "h (rs_domain r) (rs_name r) s s = None"
  shows "\<exists>r'. rangeset_remove_range h True r s s = (None, r') \<and> rangeset_wf r' \<and>
    rangeset_abs r' = rangeset_abs r - {s}"
  using remove_range_correct [where h = h, OF assms(1) [unfolded rangeset_wf_def] order.refl _ assms(2)]
  by (cases "rangeset_remove_range h True r s s")
     (simp add: ranges_removed_def rangeset_wf_def rangeset_abs_def remove_leak_point)

lemma remove_range_sound:
  assumes "rangeset_wf r" "s \<le> e" "e \<noteq> - 1" "h (rs_domain r) (rs_name r) s e = None"
  shows "\<exists>r'. rangeset_remove_range h True r s e = (None, r') \<and> rangeset_wf r' \<and>
    rangeset_abs r - {s..e} \<subseteq> rangeset_abs r' \<and> rangeset_abs r' \<inter> {s..e} = {}"
proof -
  obtain ret r' where *: "rangeset_remove_range h True r s e = (ret, r')" by fastforce
  with remove_range_rc [where h = h, OF assms(4)] have "ret = None" by simp
  with * caps.revoke_ok [OF assms(1-3)] show ?thesis by blast
qed

lemma add_range_exact:
  assumes "rangeset_wf r" "s \<le> e" "h (rs_domain r) (rs_name r) s e = None"
  shows "\<exists>r'. rangeset_add_range h True r s e = (None, r') \<and> rangeset_wf r' \<and>
    rangeset_abs r' = rangeset_abs r \<union> {s..e}"
  using add_range_correct [where h = h, OF assms(1) [unfolded rangeset_wf_def] assms(2,3)]
  by (cases "rangeset_add_range h True r s e")
     (simp add: ranges_added_def rangeset_wf_def rangeset_abs_def)

lemma add_range_result:
  assumes "rangeset_wf r" "s \<le> e" "rangeset_add_range h a r s e = (ret, r')"
  shows "rangeset_wf r' \<and> (if ret = None then rangeset_abs r' = rangeset_abs r \<union> {s..e} else r' = r)"
  using assms caps.grant_ok [OF assms(1,2), of h a r'] caps.grant_fails [OF assms(1,2), of h a _ r']
  by (cases ret) auto

lemma remove_range_result:
  assumes "rangeset_wf r" "s \<le> e" "e \<noteq> - 1" "rangeset_remove_range h a r s e = (ret, r')"
  shows "rangeset_wf r' \<and>
    (if ret = None then rangeset_abs r' = (rangeset_abs r - {s..e}) \<union> remove_leak r s e else r' = r)"
  using assms(4)
proof (cases rule: remove_range_cases)
  case 2
  with remove_range_correct [where h = h, OF assms(1) [unfolded rangeset_wf_def] assms(2) _ 2(1)] assms(3)
  show ?thesis by (simp add: ranges_removed_def rangeset_wf_def rangeset_abs_def)
qed (use assms(1) in auto)

section \<open>Properties\<close>

text \<open>A small set the witnesses are evaluated on.\<close>

definition example_caps :: rangeset where
  "example_caps = \<lparr>rs_domain = None,
     range_list = [\<lparr>range_s = 1, range_e = 4\<rparr>, \<lparr>range_s = 8, range_e = 9\<rparr>],
     rs_name = ''caps'', rs_flags = 0\<rparr>"

lemma example_caps_wf: "rangeset_wf example_caps"
  by code_simp

text \<open>C28: \<^const>\<open>rangeset_add_range\<close> keeps the invariant of the set; when it returns 0 the members are
  the old members and the range, and when it fails (hook or allocation) the set is unchanged.\<close>

theorem rangeset_add_refines:
  assumes "rangeset_wf r" "s \<le> e" "rangeset_add_range h a r s e = (ret, r')"
  shows "rangeset_wf r' \<and>
    (if ret = None then rangeset_abs r' = rangeset_abs r \<union> {s..e} else r' = r)"
  using assms by (rule add_range_result)

theorem rangeset_add_refines_witness:
  "rangeset_wf (snd (rangeset_add_range (\<lambda>_ _ _ _. None) True example_caps 5 7)) \<and>
   rangeset_abs (snd (rangeset_add_range (\<lambda>_ _ _ _. None) True example_caps 5 7)) =
     rangeset_abs example_caps \<union> {5..7}"
proof -
  have "rangeset_add_range (\<lambda>_ _ _ _. None) True example_caps 5 7 =
      (None, snd (rangeset_add_range (\<lambda>_ _ _ _. None) True example_caps 5 7))" by code_simp
  from rangeset_add_refines [OF example_caps_wf _ this] show ?thesis by simp
qed

text \<open>C29: \<^const>\<open>rangeset_remove_range\<close> on a range that does not end at the top of the address space keeps
  the invariant; when it returns 0 the members are the old members outside the range together with the
  elements named by \<^const>\<open>remove_leak\<close> (none of them in the range, and none at all when the first element
  of the range is a member); when it fails the set is unchanged.\<close>

theorem rangeset_remove_refines:
  assumes "rangeset_wf r" "s \<le> e" "e \<noteq> - 1" "rangeset_remove_range h a r s e = (ret, r')"
  shows "rangeset_wf r' \<and>
    (if ret = None then rangeset_abs r' = (rangeset_abs r - {s..e}) \<union> remove_leak r s e else r' = r) \<and>
    remove_leak r s e \<inter> {s..e} = {} \<and> (s \<in> rangeset_abs r \<longrightarrow> remove_leak r s e = {})"
  using remove_range_result [OF assms] remove_leak_disjoint [OF assms(2)]
    remove_leak_member [OF assms(1)] by simp

theorem rangeset_remove_refines_witness:
  "rangeset_abs (snd (rangeset_remove_range (\<lambda>_ _ _ _. None) True example_caps 3 8)) =
     rangeset_abs example_caps - {3..8}"
proof -
  have mem: "3 \<in> rangeset_abs example_caps" by (simp add: example_caps_def rangeset_abs_def)
  have "rangeset_remove_range (\<lambda>_ _ _ _. None) True example_caps 3 8 =
      (None, snd (rangeset_remove_range (\<lambda>_ _ _ _. None) True example_caps 3 8))" by code_simp
  from rangeset_remove_refines [OF example_caps_wf _ _ this] mem show ?thesis by simp
qed

text \<open>C30: The single-number operations are exact: adding inserts the number, removing deletes it and
  nothing else, and the query answers membership.\<close>

theorem rangeset_singletons:
  assumes "rangeset_wf r"
  shows "(rangeset_add_singleton h a r s = (None, r') \<longrightarrow>
      rangeset_wf r' \<and> rangeset_abs r' = insert s (rangeset_abs r)) \<and>
    (rangeset_remove_singleton h a r s = (None, r') \<longrightarrow>
      rangeset_wf r' \<and> rangeset_abs r' = rangeset_abs r - {s}) \<and>
    (rangeset_contains_singleton r s \<longleftrightarrow> s \<in> rangeset_abs r)"
  using caps.grant_ok [OF assms order.refl, of h a s r'] caps.revoke_point [OF assms, of h a s r']
    caps.query_iff [OF assms order.refl, of s]
  by (simp add: rangeset_add_singleton_def rangeset_remove_singleton_def rangeset_contains_singleton_def)

theorem rangeset_singletons_witness:
  "rangeset_wf example_caps \<and>
   rangeset_abs (snd (rangeset_remove_singleton (\<lambda>_ _ _ _. None) True example_caps 8)) =
     rangeset_abs example_caps - {8}"
proof -
  have "rangeset_remove_singleton (\<lambda>_ _ _ _. None) True example_caps 8 =
      (None, snd (rangeset_remove_singleton (\<lambda>_ _ _ _. None) True example_caps 8))" by code_simp
  with rangeset_singletons [OF example_caps_wf, of _ True 8] example_caps_wf show ?thesis by blast
qed

text \<open>C31: \<^const>\<open>rangeset_contains_range\<close> answers whether all of the range is in the set and
  \<^const>\<open>rangeset_overlaps_range\<close> whether some of it is.\<close>

theorem rangeset_queries:
  assumes "rangeset_wf r" "s \<le> e"
  shows "(rangeset_contains_range r s e \<longleftrightarrow> {s..e} \<subseteq> rangeset_abs r) \<and>
    (rangeset_overlaps_range r s e \<longleftrightarrow> rangeset_abs r \<inter> {s..e} \<noteq> {})"
  using caps.query_iff [OF assms] overlaps_range_correct [OF assms(1) [unfolded rangeset_wf_def] assms(2)]
  by (simp add: rangeset_abs_def)

theorem rangeset_queries_witness:
  "\<not> {3..8} \<subseteq> rangeset_abs example_caps \<and> rangeset_abs example_caps \<inter> {3..8} \<noteq> {}"
proof -
  have "\<not> rangeset_contains_range example_caps 3 8" "rangeset_overlaps_range example_caps 3 8"
    by code_simp+
  with rangeset_queries [OF example_caps_wf, of 3 8] show ?thesis by simp
qed

text \<open>C32: \<^const>\<open>rangeset_report_ranges\<close> calls the callback on the parts of the ranges inside the window, in
  ascending order and until a call returns non-zero, when some range starts at or below the window; these
  parts are the members in the window. When no range starts there it calls nothing, whatever the window
  contains.\<close>

theorem rangeset_report_exact:
  assumes "rangeset_wf r" "s \<le> e"
  shows "rangeset_report_ranges r s e cb ctxt =
      (if find_range r s = None then (0, ctxt)
       else call_until cb (report_windows (range_list r) s e) 0 ctxt) \<and>
    (\<Union>(a, b)\<in>set (report_windows (range_list r) s e). {a..b}) = rangeset_abs r \<inter> {s..e}"
  using report_ranges_correct [OF assms(1) [unfolded rangeset_wf_def], of s e cb ctxt]
    report_windows_set [OF assms(2), of "range_list r"]
  by (simp add: rangeset_report_ranges_def rangeset_abs_def)

theorem rangeset_report_exact_witness:
  "rangeset_report_ranges example_caps 0 9 (\<lambda>a b l. (0, l @ [(a, b)])) [] = (0, []) \<and>
   rangeset_report_ranges example_caps 2 8 (\<lambda>a b l. (0, l @ [(a, b)])) [] = (0, [(2, 4), (8, 8)])"
proof -
  let ?cb = "\<lambda>a b l. (0, l @ [(a, b)])"
  have "find_range example_caps 0 = None" "find_range example_caps 2 \<noteq> None"
    "call_until ?cb (report_windows (range_list example_caps) 2 8) 0 [] = (0, [(2, 4), (8, 8)])"
    by code_simp+
  with rangeset_report_exact [OF example_caps_wf, of 0 9 ?cb "[]"]
    rangeset_report_exact [OF example_caps_wf, of 2 8 ?cb "[]"] show ?thesis by simp
qed

text \<open>C33: \<^const>\<open>rangeset_domain_destroy\<close> on a consistent registry never hits its \<^verbatim>\<open>BUG_ON\<close>, ends with the
  list of the domain empty, frees exactly the sets of the domain and leaves the lists of the other domains
  alone.\<close>

theorem rangeset_domain_destroy_frees:
  assumes "rs_registry w"
  shows "\<exists>w'. rangeset_domain_destroy w d = Some w' \<and> rs_registry w' \<and> rangesets w' d = [] \<and>
    rs_heap w' = rs_heap w |` (- set (rangesets w d)) \<and>
    (\<forall>d'. d' \<noteq> d \<longrightarrow> rangesets w' d' = rangesets w d')"
  using assms by (rule domain_destroy_correct)

theorem rangeset_domain_destroy_frees_witness:
  "let w = \<lparr>rs_heap = [7 \<mapsto> example_caps\<lparr>rs_domain := Some 1\<rparr>], rangesets = (\<lambda>_. [])(1 := [7])\<rparr>
   in rs_registry w \<and> (\<exists>w'. rangeset_domain_destroy w 1 = Some w' \<and> rs_heap w' 7 = None)"
proof -
  define w where "w = \<lparr>rs_heap = [7 \<mapsto> example_caps\<lparr>rs_domain := Some 1\<rparr>], rangesets = (\<lambda>_. [])(1 := [7])\<rparr>"
  have "rs_registry w" by (auto simp: rs_registry_def w_def)
  moreover from rangeset_domain_destroy_frees [OF this, of 1]
  have "\<exists>w'. rangeset_domain_destroy w 1 = Some w' \<and> rs_heap w' 7 = None" by (auto simp: w_def)
  ultimately show ?thesis unfolding Let_def w_def by (rule conjI)
qed



end
