(* ===== verification/Iocap.thy ===== *)
theory Iocap
  imports Rangeset_Caps
begin

text \<open>
  Per-domain I/O capabilities: the macros of \<^verbatim>\<open>xen/include/xen/iocap.h\<close> and
  \<^verbatim>\<open>xen/include/asm-x86/iocap.h\<close>, the domain-control handlers that change the capabilities
  (\<^verbatim>\<open>xen/common/domctl.c\<close>, \<^verbatim>\<open>xen/arch/x86/domctl.c\<close>) and the section of
  \<^verbatim>\<open>construct_dom0\<close> that sets up those of domain 0. The clients see range sets through the
  locale \<open>range_caps\<close>, which the operations of \<^verbatim>\<open>rangeset.c\<close> interpret.
\<close>

section \<open>Domains and their capability sets\<close>

text \<open>What a call depends on besides its arguments: the security hooks and the allocator.\<close>

record io_env =
  xsm_add_range :: xsm_range_hook
  xsm_remove_range :: xsm_range_hook
  mem_ok :: bool

record g2m_ioport =
  gport :: u32
  mport :: u32
  g2m_np :: u32

record io_domain =
  iomem_caps :: rangeset
  irq_caps :: rangeset
  ioport_caps :: rangeset
  nr_pirqs :: u32
  is_privileged :: bool
  g2m_ioport_list :: "g2m_ioport list"

definition iomem_permit_access :: "io_env \<Rightarrow> io_domain \<Rightarrow> ulong \<Rightarrow> ulong \<Rightarrow> rc \<times> io_domain" where
  "iomem_permit_access env d s e =
     (let (ret, r) = rangeset_add_range (xsm_add_range env) (mem_ok env) (iomem_caps d) s e
      in (ret, d\<lparr>iomem_caps := r\<rparr>))"

definition iomem_deny_access :: "io_env \<Rightarrow> io_domain \<Rightarrow> ulong \<Rightarrow> ulong \<Rightarrow> rc \<times> io_domain" where
  "iomem_deny_access env d s e =
     (let (ret, r) = rangeset_remove_range (xsm_remove_range env) (mem_ok env) (iomem_caps d) s e
      in (ret, d\<lparr>iomem_caps := r\<rparr>))"

definition iomem_access_permitted :: "io_domain \<Rightarrow> ulong \<Rightarrow> ulong \<Rightarrow> bool" where
  "iomem_access_permitted d s e = rangeset_contains_range (iomem_caps d) s e"

definition irq_permit_access :: "io_env \<Rightarrow> io_domain \<Rightarrow> ulong \<Rightarrow> rc \<times> io_domain" where
  "irq_permit_access env d i =
     (let (ret, r) = rangeset_add_singleton (xsm_add_range env) (mem_ok env) (irq_caps d) i
      in (ret, d\<lparr>irq_caps := r\<rparr>))"

definition irq_deny_access :: "io_env \<Rightarrow> io_domain \<Rightarrow> ulong \<Rightarrow> rc \<times> io_domain" where
  "irq_deny_access env d i =
     (let (ret, r) = rangeset_remove_singleton (xsm_remove_range env) (mem_ok env) (irq_caps d) i
      in (ret, d\<lparr>irq_caps := r\<rparr>))"

definition irqs_permit_access :: "io_env \<Rightarrow> io_domain \<Rightarrow> ulong \<Rightarrow> ulong \<Rightarrow> rc \<times> io_domain" where
  "irqs_permit_access env d s e =
     (let (ret, r) = rangeset_add_range (xsm_add_range env) (mem_ok env) (irq_caps d) s e
      in (ret, d\<lparr>irq_caps := r\<rparr>))"

definition irqs_deny_access :: "io_env \<Rightarrow> io_domain \<Rightarrow> ulong \<Rightarrow> ulong \<Rightarrow> rc \<times> io_domain" where
  "irqs_deny_access env d s e =
     (let (ret, r) = rangeset_remove_range (xsm_remove_range env) (mem_ok env) (irq_caps d) s e
      in (ret, d\<lparr>irq_caps := r\<rparr>))"

definition irq_access_permitted :: "io_domain \<Rightarrow> ulong \<Rightarrow> bool" where
  "irq_access_permitted d i = rangeset_contains_singleton (irq_caps d) i"

definition ioports_permit_access :: "io_env \<Rightarrow> io_domain \<Rightarrow> ulong \<Rightarrow> ulong \<Rightarrow> rc \<times> io_domain" where
  "ioports_permit_access env d s e =
     (let (ret, r) = rangeset_add_range (xsm_add_range env) (mem_ok env) (ioport_caps d) s e
      in (ret, d\<lparr>ioport_caps := r\<rparr>))"

definition ioports_deny_access :: "io_env \<Rightarrow> io_domain \<Rightarrow> ulong \<Rightarrow> ulong \<Rightarrow> rc \<times> io_domain" where
  "ioports_deny_access env d s e =
     (let (ret, r) = rangeset_remove_range (xsm_remove_range env) (mem_ok env) (ioport_caps d) s e
      in (ret, d\<lparr>ioport_caps := r\<rparr>))"

definition ioports_access_permitted :: "io_domain \<Rightarrow> ulong \<Rightarrow> ulong \<Rightarrow> bool" where
  "ioports_access_permitted d s e = rangeset_contains_range (ioport_caps d) s e"

definition cache_flush_permitted :: "io_domain \<Rightarrow> bool" where
  "cache_flush_permitted d \<longleftrightarrow>
     \<not> rangeset_is_empty (Some (iomem_caps d)) \<or> \<not> rangeset_is_empty (Some (ioport_caps d))"

definition multipage_allocation_permitted :: "io_domain \<Rightarrow> nat \<Rightarrow> bool" where
  "multipage_allocation_permitted d order \<longleftrightarrow>
     order \<le> 9 \<or> \<not> rangeset_is_empty (Some (iomem_caps d)) \<or> \<not> rangeset_is_empty (Some (ioport_caps d))"

section \<open>Domain-control handlers\<close>

text \<open>
  The domains by id. The calls to \<^verbatim>\<open>set_mmio_p2m_entry\<close> and \<^verbatim>\<open>clear_mmio_p2m_entry\<close>, whose
  results the handler ignores, are recorded in order in \<open>p2m_log\<close> (\<open>None\<close> clears the frame).
\<close>

record io_world =
  io_domains :: "domid \<Rightarrow> io_domain option"
  p2m_log :: "(domid \<times> ulong \<times> ulong option) list"

definition put_domain :: "io_world \<Rightarrow> domid \<Rightarrow> rc \<times> io_domain \<Rightarrow> rc \<times> io_world" where
  "put_domain w i res = (fst res, w\<lparr>io_domains := (io_domains w)(i := Some (snd res))\<rparr>)"

definition domctl_ioport_permission ::
    "io_env \<Rightarrow> io_world \<Rightarrow> domid \<Rightarrow> u32 \<Rightarrow> u32 \<Rightarrow> bool \<Rightarrow> rc \<times> io_world" where
  "domctl_ioport_permission env w domain_id fp np allow_access =
     (if fp + np > 65536 then (Some EINVAL, w)
      else
        case io_domains w domain_id of
          None \<Rightarrow> (Some ESRCH, w)
        | Some d \<Rightarrow>
            if np = 0 then (None, w)
            else if allow_access then
              put_domain w domain_id (ioports_permit_access env d (ucast fp) (ucast (fp + np - 1)))
            else put_domain w domain_id (ioports_deny_access env d (ucast fp) (ucast (fp + np - 1))))"

definition domctl_irq_permission ::
    "io_env \<Rightarrow> io_world \<Rightarrow> domid \<Rightarrow> u32 \<Rightarrow> bool \<Rightarrow> rc \<times> io_world" where
  "domctl_irq_permission env w domain_id pirq allow_access =
     (case io_domains w domain_id of
        None \<Rightarrow> (Some ESRCH, w)
      | Some d \<Rightarrow>
          if pirq \<ge> nr_pirqs d then (Some EINVAL, w)
          else if allow_access then put_domain w domain_id (irq_permit_access env d (ucast pirq))
          else put_domain w domain_id (irq_deny_access env d (ucast pirq)))"

definition domctl_iomem_permission ::
    "io_env \<Rightarrow> io_world \<Rightarrow> domid \<Rightarrow> ulong \<Rightarrow> ulong \<Rightarrow> bool \<Rightarrow> rc \<times> io_world" where
  "domctl_iomem_permission env w domain_id mfn nr_mfns allow_access =
     (if mfn + nr_mfns - 1 < mfn then (Some EINVAL, w)
      else
        case io_domains w domain_id of
          None \<Rightarrow> (Some ESRCH, w)
        | Some d \<Rightarrow>
            if allow_access then put_domain w domain_id (iomem_permit_access env d mfn (mfn + nr_mfns - 1))
            else put_domain w domain_id (iomem_deny_access env d mfn (mfn + nr_mfns - 1)))"

definition domctl_memory_mapping ::
    "io_env \<Rightarrow> io_domain \<Rightarrow> io_world \<Rightarrow> domid \<Rightarrow> ulong \<Rightarrow> ulong \<Rightarrow> ulong \<Rightarrow> bool \<Rightarrow> rc \<times> io_world" where
  "domctl_memory_mapping env current w domain_id gfn mfn nr_mfns add_mapping =
     (if mfn + nr_mfns - 1 < mfn then (Some EINVAL, w)
      else if \<not> is_privileged current \<and> \<not> iomem_access_permitted current mfn (mfn + nr_mfns - 1)
      then (Some EPERM, w)
      else
        case io_domains w domain_id of
          None \<Rightarrow> (Some ESRCH, w)
        | Some d \<Rightarrow>
            if add_mapping then
              let (ret, w') = put_domain w domain_id (iomem_permit_access env d mfn (mfn + nr_mfns - 1))
              in (ret, w'\<lparr>p2m_log := p2m_log w' @
                    map (\<lambda>i. (domain_id, gfn + of_nat i, Some (mfn + of_nat i))) [0..<unat nr_mfns]\<rparr>)
            else
              let w' = w\<lparr>p2m_log := p2m_log w @
                    map (\<lambda>i. (domain_id, gfn + of_nat i, None)) [0..<unat nr_mfns]\<rparr>
              in put_domain w' domain_id (iomem_deny_access env d mfn (mfn + nr_mfns - 1)))"

definition MAX_IOPORTS :: u32 where
  "MAX_IOPORTS = 0x10000"

fun g2m_update :: "u32 \<Rightarrow> u32 \<Rightarrow> u32 \<Rightarrow> g2m_ioport list \<Rightarrow> g2m_ioport list option" where
  "g2m_update fgp fmp np [] = None"
| "g2m_update fgp fmp np (g # gs) =
     (if mport g = fmp then Some (g\<lparr>gport := fgp, g2m_np := np\<rparr> # gs)
      else case g2m_update fgp fmp np gs of None \<Rightarrow> None | Some gs' \<Rightarrow> Some (g # gs'))"

fun g2m_remove :: "u32 \<Rightarrow> g2m_ioport list \<Rightarrow> g2m_ioport list" where
  "g2m_remove fmp [] = []"
| "g2m_remove fmp (g # gs) = (if mport g = fmp then gs else g # g2m_remove fmp gs)"

definition domctl_ioport_mapping ::
    "io_env \<Rightarrow> io_domain \<Rightarrow> io_world \<Rightarrow> domid \<Rightarrow> u32 \<Rightarrow> u32 \<Rightarrow> u32 \<Rightarrow> bool \<Rightarrow> rc \<times> io_world" where
  "domctl_ioport_mapping env current w domain_id fgp fmp np add_mapping =
     (if np = 0 \<or> fgp > MAX_IOPORTS \<or> fmp > MAX_IOPORTS \<or>
         fgp + np > MAX_IOPORTS \<or> fmp + np > MAX_IOPORTS then (Some EINVAL, w)
      else if \<not> is_privileged current \<and>
              \<not> ioports_access_permitted current (ucast fmp) (ucast (fmp + np - 1))
      then (Some EPERM, w)
      else
        case io_domains w domain_id of
          None \<Rightarrow> (Some ESRCH, w)
        | Some d \<Rightarrow>
            if add_mapping then
              let l = (case g2m_update fgp fmp np (g2m_ioport_list d) of
                         Some l' \<Rightarrow> l'
                       | None \<Rightarrow> g2m_ioport_list d @ [\<lparr>gport = fgp, mport = fmp, g2m_np = np\<rparr>])
              in put_domain w domain_id
                   (ioports_permit_access env (d\<lparr>g2m_ioport_list := l\<rparr>) (ucast fmp) (ucast (fmp + np - 1)))
            else
              put_domain w domain_id
                (ioports_deny_access env (d\<lparr>g2m_ioport_list := g2m_remove fmp (g2m_ioport_list d)\<rparr>)
                   (ucast fmp) (ucast (fmp + np - 1))))"

section \<open>The capabilities of domain 0\<close>

text \<open>
  \<^verbatim>\<open>simple_strtoul\<close> (\<^verbatim>\<open>xen/common/vsprintf.c\<close>) on a string: the value and the rest of the
  string at \<^verbatim>\<open>*endp\<close>. The end of the list is the terminating zero.
\<close>

definition isdigit :: "char \<Rightarrow> bool" where
  "isdigit c \<longleftrightarrow> 48 \<le> (of_char c :: nat) \<and> (of_char c :: nat) \<le> 57"

definition islower :: "char \<Rightarrow> bool" where
  "islower c \<longleftrightarrow> (let n = of_char c :: nat in (97 \<le> n \<and> n \<le> 122) \<or> (223 \<le> n \<and> n \<noteq> 247))"

definition toupper :: "char \<Rightarrow> nat" where
  "toupper c = (if islower c then of_char c - 32 else of_char c)"

definition isxdigit :: "char \<Rightarrow> bool" where
  "isxdigit c \<longleftrightarrow> isdigit c \<or>
     (let n = of_char c :: nat in (65 \<le> n \<and> n \<le> 70) \<or> (97 \<le> n \<and> n \<le> 102))"

definition digit_value :: "char \<Rightarrow> nat" where
  "digit_value c = (if isdigit c then of_char c - 48 else toupper c - 65 + 10)"

fun strtoul_digits :: "nat \<Rightarrow> ulong \<Rightarrow> string \<Rightarrow> ulong \<times> string" where
  "strtoul_digits base result [] = (result, [])"
| "strtoul_digits base result (c # cs) =
     (if isxdigit c \<and> digit_value c < base
      then strtoul_digits base (result * of_nat base + of_nat (digit_value c)) cs
      else (result, c # cs))"

definition skip_0x :: "string \<Rightarrow> string" where
  "skip_0x cp =
     (case cp of
        a # b # cs \<Rightarrow> if a = CHR ''0'' \<and> toupper b = 88 then cs else cp
      | _ \<Rightarrow> cp)"

definition simple_strtoul :: "string \<Rightarrow> nat \<Rightarrow> ulong \<times> string" where
  "simple_strtoul cp base =
     (if base = 0 then
        (case cp of
           [] \<Rightarrow> strtoul_digits 10 0 cp
         | c # cs \<Rightarrow>
             if c = CHR ''0'' then
               (case cs of
                  x # y # ys \<Rightarrow>
                    if toupper x = 88 \<and> isxdigit y then strtoul_digits 16 0 (y # ys)
                    else strtoul_digits 8 0 cs
                | _ \<Rightarrow> strtoul_digits 8 0 cs)
             else strtoul_digits 10 0 cp)
      else if base = 16 then strtoul_digits 16 0 (skip_0x cp)
      else strtoul_digits base 0 cp)"

text \<open>The tokens \<^verbatim>\<open>strsep(&s, ",")\<close> returns one after the other, empty ones included.\<close>

fun strsep_all :: "char \<Rightarrow> string \<Rightarrow> string list" where
  "strsep_all ct [] = [[]]"
| "strsep_all ct (c # cs) =
     (if c = ct then [] # strsep_all ct cs
      else case strsep_all ct cs of [] \<Rightarrow> [[c]] | t # ts \<Rightarrow> (c # t) # ts)"

text \<open>One token of \<^verbatim>\<open>dom0_ioports_disable\<close>: \<open>None\<close> is the branch \<^verbatim>\<open>parse_error\<close>.\<close>

definition parse_ioport_range :: "string \<Rightarrow> (ulong \<times> ulong) option" where
  "parse_ioport_range t =
     (let (io_from, u) = simple_strtoul t 16 in
      if u = t then None
      else
        case (case u of
                [] \<Rightarrow> Some (io_from, u)
              | c # u' \<Rightarrow> if c = CHR ''-'' then Some (simple_strtoul u' 16) else None) of
          None \<Rightarrow> None
        | Some (io_to, v) \<Rightarrow>
            if v \<noteq> [] \<or> io_to < io_from \<or> io_to \<ge> 65536 then None else Some (io_from, io_to))"

text \<open>Denying a list of ranges in order; \<open>None\<close> is \<^verbatim>\<open>BUG()\<close>.\<close>

fun disable_ioports :: "io_env \<Rightarrow> io_domain \<Rightarrow> string list \<Rightarrow> io_domain option" where
  "disable_ioports env d [] = Some d"
| "disable_ioports env d (t # ts) =
     (case parse_ioport_range t of
        None \<Rightarrow> disable_ioports env d ts
      | Some (io_from, io_to) \<Rightarrow>
          (case ioports_deny_access env d io_from io_to of
             (None, d') \<Rightarrow> disable_ioports env d' ts
           | (Some _, _) \<Rightarrow> None))"

definition process_dom0_ioports_disable :: "io_env \<Rightarrow> string \<Rightarrow> io_domain \<Rightarrow> io_domain option" where
  "process_dom0_ioports_disable env opt d =
     (if opt = [] then Some d else disable_ioports env d (strsep_all CHR '','' opt))"

text \<open>
  The sequence \<^verbatim>\<open>rc |= ...\<close>: \<open>acc_rc\<close> runs an operation and keeps whether any has failed.
\<close>

definition acc_rc :: "(io_domain \<Rightarrow> rc \<times> io_domain) \<Rightarrow> bool \<times> io_domain \<Rightarrow> bool \<times> io_domain" where
  "acc_rc f st = (let (ret, d) = f (snd st) in (fst st \<or> ret \<noteq> None, d))"

record e820entry =
  e820_addr :: u64
  e820_size :: u64
  e820_type :: u32

record dom0_config =
  pmtmr_ioport :: u32
  opt_dom0_ioports_disable :: string
  mp_lapic_addr :: ulong
  mp_ioapics :: "ulong list"
  smp_found_config :: bool
  e820_map :: "e820entry list"

definition paddr_to_pfn :: "u64 \<Rightarrow> ulong" where
  "paddr_to_pfn pa = drop_bit 12 pa"

definition E820_UNUSABLE :: u32 where
  "E820_UNUSABLE = 5"

definition deny_e820_entry :: "io_env \<Rightarrow> e820entry \<Rightarrow> bool \<times> io_domain \<Rightarrow> bool \<times> io_domain" where
  "deny_e820_entry env m st =
     (let sfn = max (paddr_to_pfn (e820_addr m)) 0x100;
          efn = paddr_to_pfn (e820_addr m + e820_size m - 1)
      in if e820_type m = E820_UNUSABLE \<and> e820_size m \<noteq> 0 \<and> sfn \<le> efn
         then acc_rc (\<lambda>d. iomem_deny_access env d sfn efn) st else st)"

definition dom0_ioport_caps :: "io_env \<Rightarrow> dom0_config \<Rightarrow> bool \<times> io_domain \<Rightarrow> bool \<times> io_domain" where
  "dom0_ioport_caps env cfg st =
     (let deny = (\<lambda>s e. acc_rc (\<lambda>d. ioports_deny_access env d s e));
          st = deny 0x20 0x21 st;
          st = deny 0xA0 0xA1 st;
          st = deny 0x40 0x43 st;
          st = deny 0x61 0x61 st;
          st = (if pmtmr_ioport cfg \<noteq> 0
                then deny (ucast (pmtmr_ioport cfg)) (ucast (pmtmr_ioport cfg + 3)) st else st)
      in deny 0xcfc 0xcff st)"

definition dom0_iomem_caps :: "io_env \<Rightarrow> dom0_config \<Rightarrow> bool \<times> io_domain \<Rightarrow> bool \<times> io_domain" where
  "dom0_iomem_caps env cfg st =
     (let deny = (\<lambda>mfn. acc_rc (\<lambda>d. iomem_deny_access env d mfn mfn));
          st = (if mp_lapic_addr cfg \<noteq> 0 then deny (paddr_to_pfn (mp_lapic_addr cfg)) st else st);
          st = fold (\<lambda>a st. if smp_found_config cfg then deny (paddr_to_pfn a) st else st)
                 (mp_ioapics cfg) st
      in fold (deny_e820_entry env) (e820_map cfg) st)"

definition construct_dom0_caps :: "io_env \<Rightarrow> dom0_config \<Rightarrow> io_domain \<Rightarrow> io_domain option" where
  "construct_dom0_caps env cfg d =
     (let st = (False, d);
          st = acc_rc (\<lambda>d. ioports_permit_access env d 0 0xFFFF) st;
          st = acc_rc (\<lambda>d. iomem_permit_access env d 0 (- 1)) st;
          st = acc_rc (\<lambda>d. irqs_permit_access env d 0 (ucast (nr_pirqs d - 1))) st;
          (failed, d) = dom0_ioport_caps env cfg st
      in case process_dom0_ioports_disable env (opt_dom0_ioports_disable cfg) d of
           None \<Rightarrow> None
         | Some d \<Rightarrow>
             let (failed, d) = dom0_iomem_caps env cfg (failed, d)
             in if failed then None else Some d)"

section \<open>Correctness of the capability operations\<close>

definition io_wf :: "io_domain \<Rightarrow> bool" where
  "io_wf d \<longleftrightarrow> rangeset_wf (iomem_caps d) \<and> rangeset_wf (irq_caps d) \<and> rangeset_wf (ioport_caps d)"

abbreviation iomem_set :: "io_domain \<Rightarrow> ulong set" where
  "iomem_set d \<equiv> rangeset_abs (iomem_caps d)"

abbreviation irq_set :: "io_domain \<Rightarrow> ulong set" where
  "irq_set d \<equiv> rangeset_abs (irq_caps d)"

abbreviation ioport_set :: "io_domain \<Rightarrow> ulong set" where
  "ioport_set d \<equiv> rangeset_abs (ioport_caps d)"

text \<open>An environment that never refuses: the hooks permit and memory is available.\<close>

definition env_permits :: "io_env \<Rightarrow> bool" where
  "env_permits env \<longleftrightarrow> mem_ok env \<and>
     (\<forall>i n s e. xsm_add_range env i n s e = None \<and> xsm_remove_range env i n s e = None)"

lemma env_permitsD [simp]:
  assumes "env_permits env"
  shows "mem_ok env" "xsm_add_range env i n s e = None" "xsm_remove_range env i n s e = None"
  using assms by (simp_all add: env_permits_def)

text \<open>
  How one step of \<^const>\<open>construct_dom0_caps\<close> moves the three sets when nothing refuses: it
  never fails, keeps the invariant and changes one set.
\<close>

definition caps_are :: "bool \<times> io_domain \<Rightarrow> ulong set \<Rightarrow> ulong set \<Rightarrow> ulong set \<Rightarrow> bool" where
  "caps_are st mem irq port \<longleftrightarrow> \<not> fst st \<and> io_wf (snd st) \<and>
     iomem_set (snd st) = mem \<and> irq_set (snd st) = irq \<and> ioport_set (snd st) = port"

lemma add_range_permits:
  assumes "env_permits env" "rangeset_wf r" "s \<le> e"
  obtains r' where "rangeset_add_range (xsm_add_range env) True r s e = (None, r')"
    "rangeset_wf r'" "rangeset_abs r' = rangeset_abs r \<union> {s..e}"
  using add_range_exact [where h = "xsm_add_range env", OF assms(2,3) env_permitsD(2) [OF assms(1)]]
  by blast

lemma acc_ioports_permit:
  assumes "env_permits env" "caps_are st m i p" "s \<le> e"
  shows "caps_are (acc_rc (\<lambda>d. ioports_permit_access env d s e) st) m i (p \<union> {s..e})"
  by (rule add_range_permits [OF assms(1) _ assms(3), of "ioport_caps (snd st)"])
     (use assms(1,2) in \<open>simp_all add: caps_are_def io_wf_def acc_rc_def ioports_permit_access_def\<close>)

lemma acc_iomem_permit:
  assumes "env_permits env" "caps_are st m i p" "s \<le> e"
  shows "caps_are (acc_rc (\<lambda>d. iomem_permit_access env d s e) st) (m \<union> {s..e}) i p"
  by (rule add_range_permits [OF assms(1) _ assms(3), of "iomem_caps (snd st)"])
     (use assms(1,2) in \<open>simp_all add: caps_are_def io_wf_def acc_rc_def iomem_permit_access_def\<close>)

lemma acc_irqs_permit:
  assumes "env_permits env" "caps_are st m i p" "s \<le> e (snd st)"
  shows "caps_are (acc_rc (\<lambda>d. irqs_permit_access env d s (e d)) st) m (i \<union> {s..e (snd st)}) p"
  by (rule add_range_permits [OF assms(1) _ assms(3), of "irq_caps (snd st)"])
     (use assms(1,2) in \<open>simp_all add: caps_are_def io_wf_def acc_rc_def irqs_permit_access_def\<close>)

lemma ioports_deny_exact:
  assumes "env_permits env" "io_wf d" "s \<le> e" "e \<noteq> - 1" "s \<in> ioport_set d"
  obtains d' where "ioports_deny_access env d s e = (None, d')" "io_wf d'"
    "iomem_caps d' = iomem_caps d" "irq_caps d' = irq_caps d" "ioport_set d' = ioport_set d - {s..e}"
proof -
  have "rangeset_wf (ioport_caps d)" using assms(2) by (simp add: io_wf_def)
  from remove_range_exact [where h = "xsm_remove_range env", OF this assms(3-5)
      env_permitsD(3) [OF assms(1)]]
  obtain r' where "rangeset_remove_range (xsm_remove_range env) True (ioport_caps d) s e = (None, r')"
    "rangeset_wf r'" "rangeset_abs r' = ioport_set d - {s..e}" by blast
  then show ?thesis
    using assms(1,2) by (intro that [of "d\<lparr>ioport_caps := r'\<rparr>"]) (simp_all add: io_wf_def ioports_deny_access_def)
qed

lemma ioports_deny_sound:
  assumes "env_permits env" "io_wf d" "s \<le> e" "e \<noteq> - 1"
  obtains d' where "ioports_deny_access env d s e = (None, d')" "io_wf d'"
    "iomem_caps d' = iomem_caps d" "irq_caps d' = irq_caps d"
    "ioport_set d - {s..e} \<subseteq> ioport_set d'" "ioport_set d' \<inter> {s..e} = {}"
proof -
  have "rangeset_wf (ioport_caps d)" using assms(2) by (simp add: io_wf_def)
  from remove_range_sound [where h = "xsm_remove_range env", OF this assms(3,4)
      env_permitsD(3) [OF assms(1)]]
  obtain r' where "rangeset_remove_range (xsm_remove_range env) True (ioport_caps d) s e = (None, r')"
    "rangeset_wf r'" "ioport_set d - {s..e} \<subseteq> rangeset_abs r'" "rangeset_abs r' \<inter> {s..e} = {}"
    by blast
  then show ?thesis
    using assms(1,2) by (intro that [of "d\<lparr>ioport_caps := r'\<rparr>"]) (simp_all add: io_wf_def ioports_deny_access_def)
qed

lemma acc_ioports_deny:
  assumes "env_permits env" "caps_are st m i p" "s \<le> e" "e \<noteq> - 1" "s \<in> p"
  shows "caps_are (acc_rc (\<lambda>d. ioports_deny_access env d s e) st) m i (p - {s..e})"
  by (rule ioports_deny_exact [OF assms(1) _ assms(3,4), of "snd st"])
     (use assms(2,5) in \<open>simp_all add: caps_are_def acc_rc_def\<close>)

lemma acc_iomem_deny_point:
  assumes "env_permits env" "caps_are st m i p"
  shows "caps_are (acc_rc (\<lambda>d. iomem_deny_access env d s s) st) (m - {s}) i p"
proof -
  have "rangeset_wf (iomem_caps (snd st))" using assms(2) by (simp add: caps_are_def io_wf_def)
  from remove_point_exact [where h = "xsm_remove_range env", OF this env_permitsD(3) [OF assms(1)]]
  obtain r' where "rangeset_remove_range (xsm_remove_range env) True (iomem_caps (snd st)) s s = (None, r')"
    "rangeset_wf r'" "rangeset_abs r' = iomem_set (snd st) - {s}" by blast
  then show ?thesis
    using assms(1,2) by (simp add: caps_are_def io_wf_def acc_rc_def iomem_deny_access_def)
qed

lemma acc_iomem_deny:
  assumes "env_permits env" "caps_are st m i p" "s \<le> e" "e \<noteq> - 1"
  shows "\<exists>m'. caps_are (acc_rc (\<lambda>d. iomem_deny_access env d s e) st) m' i p \<and>
    m - {s..e} \<subseteq> m' \<and> m' \<inter> {s..e} = {}"
proof -
  have "rangeset_wf (iomem_caps (snd st))" using assms(2) by (simp add: caps_are_def io_wf_def)
  from remove_range_sound [where h = "xsm_remove_range env", OF this assms(3,4)
      env_permitsD(3) [OF assms(1)]]
  obtain r' where "rangeset_remove_range (xsm_remove_range env) True (iomem_caps (snd st)) s e = (None, r')"
    "rangeset_wf r'" "iomem_set (snd st) - {s..e} \<subseteq> rangeset_abs r'" "rangeset_abs r' \<inter> {s..e} = {}"
    by blast
  then show ?thesis
    using assms(1,2)
    by (intro exI [of _ "rangeset_abs r'"])
       (simp add: caps_are_def io_wf_def acc_rc_def iomem_deny_access_def)
qed

definition legacy_ports :: "ulong set" where
  "legacy_ports = {0x20..0x21} \<union> {0xA0..0xA1} \<union> {0x40..0x43} \<union> {0x61..0x61} \<union> {0xcfc..0xcff}"

text \<open>The ports of the ACPI PM timer that \<^const>\<open>dom0_ioport_caps\<close> denies.\<close>

definition pmtmr_ports :: "dom0_config \<Rightarrow> ulong set" where
  "pmtmr_ports cfg =
     (if pmtmr_ioport cfg = 0 then {} else {ucast (pmtmr_ioport cfg)..ucast (pmtmr_ioport cfg + 3)})"

definition pmtmr_ok :: "dom0_config \<Rightarrow> bool" where
  "pmtmr_ok cfg \<longleftrightarrow> pmtmr_ioport cfg = 0 \<or>
     (0xA1 < pmtmr_ioport cfg \<and> pmtmr_ioport cfg < 0xcf9) \<or>
     (0xcff < pmtmr_ioport cfg \<and> pmtmr_ioport cfg < 0xfffd)"

lemma pmtmr_bounds:
  assumes "pmtmr_ok cfg" "pmtmr_ioport cfg \<noteq> 0"
  defines "q \<equiv> ucast (pmtmr_ioport cfg) :: ulong" and "q' \<equiv> ucast (pmtmr_ioport cfg + 3) :: ulong"
  shows "q \<le> q'" "q' < 0x10000" "0xA1 < q" "q' < 0xcfc \<or> 0xcff < q"
  using assms
  by (auto simp: pmtmr_ok_def word_less_nat_alt word_le_nat_alt unat_word_ariths unat_ucast_up)

lemma dom0_ioport_caps_exact:
  assumes env: "env_permits env" and st: "caps_are st m i {0..0xFFFF}" and ok: "pmtmr_ok cfg"
  shows "caps_are (dom0_ioport_caps env cfg st) m i ({0..0xFFFF} - legacy_ports - pmtmr_ports cfg)"
proof -
  note deny = acc_ioports_deny [OF env]
  let ?deny = "\<lambda>s e. acc_rc (\<lambda>d. ioports_deny_access env d s e)"
  define st1 where "st1 = ?deny 0x61 0x61 (?deny 0x40 0x43 (?deny 0xA0 0xA1 (?deny 0x20 0x21 st)))"
  define p1 where "p1 = {0..0xFFFF :: ulong} - {0x20..0x21} - {0xA0..0xA1} - {0x40..0x43} - {0x61..0x61}"
  have st1: "caps_are st1 m i p1"
    unfolding st1_def p1_def by (intro deny st) simp_all
  define st2 where "st2 = (if pmtmr_ioport cfg \<noteq> 0
    then ?deny (ucast (pmtmr_ioport cfg)) (ucast (pmtmr_ioport cfg + 3)) st1 else st1)"
  have "caps_are st2 m i (p1 - pmtmr_ports cfg) \<and> 0xcfc \<in> p1 - pmtmr_ports cfg"
  proof (cases "pmtmr_ioport cfg = 0")
    case True
    then show ?thesis using st1 by (simp add: st2_def pmtmr_ports_def p1_def)
  next
    case False
    note b = pmtmr_bounds [OF ok False]
    have "ucast (pmtmr_ioport cfg) \<in> p1"
      using b(1-3) by (auto simp: p1_def word_less_nat_alt word_le_nat_alt)
    moreover have "ucast (pmtmr_ioport cfg + 3) \<noteq> (- 1 :: ulong)" using b(2) by auto
    ultimately have "caps_are st2 m i (p1 - pmtmr_ports cfg)"
      using False deny [OF st1 b(1)] by (simp add: st2_def pmtmr_ports_def)
    moreover have "0xcfc \<in> p1 - pmtmr_ports cfg" 
      using b False by (auto simp: p1_def pmtmr_ports_def word_less_nat_alt word_le_nat_alt)
    ultimately show ?thesis by simp
  qed
  then have "caps_are (?deny 0xcfc 0xcff st2) m i (p1 - pmtmr_ports cfg - {0xcfc..0xcff})"
    by (intro deny) simp_all
  moreover have "dom0_ioport_caps env cfg st = ?deny 0xcfc 0xcff st2"
    by (simp add: dom0_ioport_caps_def Let_def st1_def st2_def)
  moreover have "p1 - pmtmr_ports cfg - {0xcfc..0xcff} = {0..0xFFFF} - legacy_ports - pmtmr_ports cfg"
    unfolding p1_def legacy_ports_def by blast
  ultimately show ?thesis by simp
qed

lemma caps_are_dom0_start:
  assumes env: "env_permits env" and "io_wf d" "iomem_set d = {}" "irq_set d = {}" "ioport_set d = {}"
  shows "caps_are (acc_rc (\<lambda>d. irqs_permit_access env d 0 (ucast (nr_pirqs d - 1)))
    (acc_rc (\<lambda>d. iomem_permit_access env d 0 (- 1))
      (acc_rc (\<lambda>d. ioports_permit_access env d 0 0xFFFF) (False, d))))
    UNIV {0..ucast (nr_pirqs d - 1)} {0..0xFFFF}"
proof -
  have "caps_are (False, d) {} {} {}" using assms by (simp add: caps_are_def)
  from acc_ioports_permit [OF env this, of 0 "0xFFFF"]
  have "caps_are (acc_rc (\<lambda>d. ioports_permit_access env d 0 0xFFFF) (False, d)) {} {} {0..0xFFFF}"
    by simp
  from acc_iomem_permit [OF env this, of 0 "- 1"]
  have "caps_are (acc_rc (\<lambda>d. iomem_permit_access env d 0 (- 1))
      (acc_rc (\<lambda>d. ioports_permit_access env d 0 0xFFFF) (False, d))) UNIV {} {0..0xFFFF}"
    by (simp add: word_ivl_UNIV)
  from acc_irqs_permit [OF env this, of 0 "\<lambda>d. ucast (nr_pirqs d - 1)"]
  show ?thesis
    by (simp add: acc_rc_def iomem_permit_access_def ioports_permit_access_def Let_def case_prod_beta)
qed

lemma parse_ioport_range_bounds:
  assumes "parse_ioport_range t = Some (s, e)"
  shows "s \<le> e" "e < 65536"
  using assms
  by (auto simp: parse_ioport_range_def Let_def not_less not_le split: prod.splits option.splits if_splits)

lemma disable_ioports_ok:
  assumes "env_permits env"
  shows "io_wf d \<Longrightarrow> \<exists>d'. disable_ioports env d ts = Some d' \<and> io_wf d' \<and>
    iomem_caps d' = iomem_caps d \<and> irq_caps d' = irq_caps d"
proof (induction ts arbitrary: d)
  case (Cons t ts)
  show ?case
  proof (cases "parse_ioport_range t")
    case None
    with Cons show ?thesis by simp
  next
    case (Some se)
    obtain s e where se: "se = (s, e)" by fastforce
    then have b: "s \<le> e" "e < 65536" using parse_ioport_range_bounds Some by blast+
    then have "e \<noteq> - 1" by auto
    from ioports_deny_sound [OF assms Cons.prems b(1) this] obtain d1 where
      "ioports_deny_access env d s e = (None, d1)" "io_wf d1" "iomem_caps d1 = iomem_caps d"
      "irq_caps d1 = irq_caps d" by metis
    with Cons.IH [of d1] Some se show ?thesis by simp
  qed
qed simp

lemma paddr_to_pfn_not_max: "paddr_to_pfn a \<noteq> - 1"
proof
  assume *: "paddr_to_pfn a = - 1"
  have "\<not> bit (paddr_to_pfn a) 63" 
    using bit_imp_le_length [of a 75] by (auto simp: paddr_to_pfn_def bit_simps)
  then show False unfolding * by simp
qed

lemma deny_e820_ok:
  assumes "env_permits env" "caps_are st m i p"
  shows "\<exists>m'. caps_are (deny_e820_entry env x st) m' i p"
proof -
  let ?s = "max (paddr_to_pfn (e820_addr x)) 0x100"
    and ?e = "paddr_to_pfn (e820_addr x + e820_size x - 1)"
  have "?s \<le> ?e \<Longrightarrow> \<exists>m'. caps_are (acc_rc (\<lambda>d. iomem_deny_access env d ?s ?e) st) m' i p"
    using acc_iomem_deny [OF assms _ paddr_to_pfn_not_max] by blast
  then show ?thesis using assms(2) by (simp only: deny_e820_entry_def Let_def) auto
qed

lemma deny_e820s_ok:
  assumes "env_permits env"
  shows "caps_are st m i p \<Longrightarrow> \<exists>m'. caps_are (fold (deny_e820_entry env) l st) m' i p"
proof (induction l arbitrary: st m)
  case (Cons x l)
  from deny_e820_ok [OF assms Cons.prems, of x] obtain m1
    where "caps_are (deny_e820_entry env x st) m1 i p" ..
  from Cons.IH [OF this] show ?case by simp
qed auto

lemma deny_e820s_none:
  "E820_UNUSABLE \<notin> e820_type ` set l \<Longrightarrow> fold (deny_e820_entry env) l st = st"
  by (induction l) (auto simp: deny_e820_entry_def Let_def)

lemma deny_ioapics:
  assumes "env_permits env"
  shows "caps_are st m i p \<Longrightarrow>
    caps_are (fold (\<lambda>a st. if smp then acc_rc (\<lambda>d. iomem_deny_access env d (paddr_to_pfn a) (paddr_to_pfn a)) st
       else st) l st) (m - (if smp then paddr_to_pfn ` set l else {})) i p"
proof (induction l arbitrary: st m)
  case (Cons x l)
  show ?case
    using Cons.prems Cons.IH [OF acc_iomem_deny_point [OF assms Cons.prems, of "paddr_to_pfn x"]] Cons.IH
    by (cases smp) (simp_all add: Diff_insert2 [symmetric])
qed simp

definition apic_frames :: "dom0_config \<Rightarrow> ulong set" where
  "apic_frames cfg = (if mp_lapic_addr cfg = 0 then {} else {paddr_to_pfn (mp_lapic_addr cfg)}) \<union>
     (if smp_found_config cfg then paddr_to_pfn ` set (mp_ioapics cfg) else {})"

lemma deny_apics:
  assumes env: "env_permits env" and st: "caps_are st m i p"
  obtains st' where "caps_are st' (m - apic_frames cfg) i p"
    "dom0_iomem_caps env cfg st = fold (deny_e820_entry env) (e820_map cfg) st'"
proof -
  define st1 where "st1 = (if mp_lapic_addr cfg \<noteq> 0 then acc_rc (\<lambda>d. iomem_deny_access env d
    (paddr_to_pfn (mp_lapic_addr cfg)) (paddr_to_pfn (mp_lapic_addr cfg))) st else st)"
  have "caps_are st1 (m - (if mp_lapic_addr cfg = 0 then {} else {paddr_to_pfn (mp_lapic_addr cfg)})) i p"
    using st acc_iomem_deny_point [OF env st] by (simp add: st1_def)
  from deny_ioapics [OF env this, of "smp_found_config cfg" "mp_ioapics cfg"] show ?thesis
    by (intro that) (simp_all add: apic_frames_def Diff_eq Int_assoc dom0_iomem_caps_def Let_def st1_def)
qed

lemma process_disable_ok:
  assumes "env_permits env" "io_wf d"
  obtains d' where "process_dom0_ioports_disable env opt d = Some d'" "io_wf d'"
    "iomem_caps d' = iomem_caps d" "irq_caps d' = irq_caps d" "opt = [] \<Longrightarrow> d' = d"
proof (cases "opt = []")
  case True
  then show ?thesis using assms that [of d] by (simp add: process_dom0_ioports_disable_def)
next
  case False
  from disable_ioports_ok [OF assms, of "strsep_all CHR '','' opt"] obtain d' where
    "disable_ioports env d (strsep_all CHR '','' opt) = Some d'" "io_wf d'"
    "iomem_caps d' = iomem_caps d" "irq_caps d' = irq_caps d" by blast
  then show ?thesis using False that [of d'] by (simp add: process_dom0_ioports_disable_def)
qed

lemma construct_dom0_ok:
  assumes env: "env_permits env" and d: "io_wf d" "iomem_set d = {}" "irq_set d = {}" "ioport_set d = {}"
    and ok: "pmtmr_ok cfg"
  obtains d' where "construct_dom0_caps env cfg d = Some d'" "io_wf d'"
    "irq_set d' = {0..ucast (nr_pirqs d - 1)}"
    "opt_dom0_ioports_disable cfg = [] \<Longrightarrow> ioport_set d' = {0..0xFFFF} - legacy_ports - pmtmr_ports cfg"
    "E820_UNUSABLE \<notin> e820_type ` set (e820_map cfg) \<Longrightarrow> iomem_set d' = UNIV - apic_frames cfg"
proof -
  define st where "st = acc_rc (\<lambda>d. irqs_permit_access env d 0 (ucast (nr_pirqs d - 1)))
    (acc_rc (\<lambda>d. iomem_permit_access env d 0 (- 1))
      (acc_rc (\<lambda>d. ioports_permit_access env d 0 0xFFFF) (False, d)))"
  let ?irq = "{0..ucast (nr_pirqs d - 1)}" and ?ports = "{0..0xFFFF} - legacy_ports - pmtmr_ports cfg"
  obtain f d1 where fd: "dom0_ioport_caps env cfg st = (f, d1)" by fastforce
  with dom0_ioport_caps_exact [OF env caps_are_dom0_start [OF env d] ok]
  have 1: "caps_are (f, d1) UNIV ?irq ?ports" by (simp add: st_def)
  then have "io_wf d1" by (simp add: caps_are_def)
  from process_disable_ok [OF env this] obtain d2 where 2:
    "process_dom0_ioports_disable env (opt_dom0_ioports_disable cfg) d1 = Some d2" "io_wf d2"
    "iomem_caps d2 = iomem_caps d1" "irq_caps d2 = irq_caps d1"
    "opt_dom0_ioports_disable cfg = [] \<Longrightarrow> d2 = d1" by metis
  with 1 have "caps_are (f, d2) UNIV ?irq (ioport_set d2)" by (simp add: caps_are_def)
  from deny_apics [OF env this] obtain st' where 3:
    "caps_are st' (UNIV - apic_frames cfg) ?irq (ioport_set d2)"
    "dom0_iomem_caps env cfg (f, d2) = fold (deny_e820_entry env) (e820_map cfg) st'" by metis
  obtain f3 d3 where fd3: "dom0_iomem_caps env cfg (f, d2) = (f3, d3)" by fastforce
  with deny_e820s_ok [OF env 3(1)] 3(2) obtain m where
    4: "caps_are (f3, d3) m ?irq (ioport_set d2)" by metis
  have c: "construct_dom0_caps env cfg d = Some d3"
    using fd 2(1) fd3 4 by (simp add: construct_dom0_caps_def Let_def st_def caps_are_def)
  have "iomem_set d3 = UNIV - apic_frames cfg" if "E820_UNUSABLE \<notin> e820_type ` set (e820_map cfg)"
    using 3 fd3 deny_e820s_none [OF that] by (auto simp: caps_are_def)
  with c 1 2(5) 4 show ?thesis by (intro that [of d3]) (simp_all add: caps_are_def)
qed

section \<open>Properties\<close>

lemma iomem_permission_effect:
  assumes wf: "io_wf d" and w: "io_domains w i = Some d"
    and op: "domctl_iomem_permission env w i mfn nr allow = (None, w')" and top: "mfn + nr - 1 \<noteq> - 1"
  obtains d' where "io_domains w' = (io_domains w)(i \<mapsto> d')" "io_wf d'"
    "irq_caps d' = irq_caps d" "ioport_caps d' = ioport_caps d"
    "allow \<Longrightarrow> iomem_set d' = iomem_set d \<union> {mfn..mfn + nr - 1}"
    "\<not> allow \<Longrightarrow> iomem_set d' \<inter> {mfn..mfn + nr - 1} = {} \<and> iomem_set d - {mfn..mfn + nr - 1} \<subseteq> iomem_set d'"
proof -
  let ?e = "mfn + nr - 1"
  have le: "mfn \<le> ?e" using op by (auto simp: domctl_iomem_permission_def not_less split: if_splits)
  have r: "rangeset_wf (iomem_caps d)" using wf by (simp add: io_wf_def)
  show ?thesis
  proof (cases allow)
    case True
    obtain ret r' where a: "rangeset_add_range (xsm_add_range env) (mem_ok env) (iomem_caps d) mfn ?e = (ret, r')"
      by fastforce
    with op w le True have "ret = None" "w' = w\<lparr>io_domains := (io_domains w)(i \<mapsto> d\<lparr>iomem_caps := r'\<rparr>)\<rparr>"
      by (auto simp: domctl_iomem_permission_def put_domain_def iomem_permit_access_def not_less split: if_splits)
    with a caps.grant_ok [OF r le] True wf show ?thesis
      by (intro that [of "d\<lparr>iomem_caps := r'\<rparr>"]) (simp_all add: io_wf_def)
  next
    case False
    obtain ret r' where a: "rangeset_remove_range (xsm_remove_range env) (mem_ok env) (iomem_caps d) mfn ?e = (ret, r')"
      by fastforce
    with op w le False have "ret = None" "w' = w\<lparr>io_domains := (io_domains w)(i \<mapsto> d\<lparr>iomem_caps := r'\<rparr>)\<rparr>"
      by (auto simp: domctl_iomem_permission_def put_domain_def iomem_deny_access_def not_less split: if_splits)
    with a caps.revoke_ok [OF r le top] False wf show ?thesis
      by (intro that [of "d\<lparr>iomem_caps := r'\<rparr>"]) (simp_all add: io_wf_def)
  qed
qed

text \<open>An environment that permits everything, and a domain with no capabilities.\<close>

definition example_env :: io_env where
  "example_env = \<lparr>xsm_add_range = (\<lambda>_ _ _ _. None), xsm_remove_range = (\<lambda>_ _ _ _. None), mem_ok = True\<rparr>"

definition example_domain :: io_domain where
  "example_domain =
     (let none = \<lparr>rs_domain = Some 0, range_list = [], rs_name = [], rs_flags = 0\<rparr>
      in \<lparr>iomem_caps = none, irq_caps = none, ioport_caps = none, nr_pirqs = 16, is_privileged = True,
          g2m_ioport_list = []\<rparr>)"

definition example_config :: dom0_config where
  "example_config = \<lparr>pmtmr_ioport = 0x408, opt_dom0_ioports_disable = [], mp_lapic_addr = 0xfee00000,
     mp_ioapics = [0xfec00000], smp_found_config = True, e820_map = []\<rparr>"

lemma example_env_permits: "env_permits example_env"
  by (simp add: example_env_def env_permits_def)

lemma example_domain_simps:
  "io_wf example_domain" "iomem_set example_domain = {}" "irq_set example_domain = {}"
  "ioport_set example_domain = {}" "pmtmr_ok example_config"
  by (simp_all add: example_domain_def Let_def io_wf_def rangeset_wf_def rangeset_abs_def example_config_def
        pmtmr_ok_def)



text \<open>C37: A successful \<^verbatim>\<open>XEN_DOMCTL_iomem_permission\<close> on frames below the top of the address space
  changes only the I/O memory of the one domain. Allowing adds exactly the frames; denying leaves none of
  them and takes no other frame away.\<close>

theorem domctl_iomem_permission_sound:
  assumes "io_wf d" "io_domains w i = Some d"
    "domctl_iomem_permission env w i mfn nr allow = (None, w')" "mfn + nr - 1 \<noteq> - 1"
  shows "\<exists>d'. io_domains w' = (io_domains w)(i \<mapsto> d') \<and> io_wf d' \<and>
    irq_caps d' = irq_caps d \<and> ioport_caps d' = ioport_caps d \<and>
    (if allow then iomem_set d' = iomem_set d \<union> {mfn..mfn + nr - 1}
     else iomem_set d' \<inter> {mfn..mfn + nr - 1} = {} \<and> iomem_set d - {mfn..mfn + nr - 1} \<subseteq> iomem_set d')"
  by (rule iomem_permission_effect [OF assms]) auto

theorem domctl_iomem_permission_sound_witness:
  "let w = \<lparr>io_domains = [5 \<mapsto> example_domain], p2m_log = []\<rparr>;
       w' = snd (domctl_iomem_permission example_env w 5 0xe0000 0x100 True)
   in \<exists>d'. io_domains w' 5 = Some d' \<and> iomem_set d' = {0xe0000..0xe00ff}"
proof -
  define w where "w = \<lparr>io_domains = [5 \<mapsto> example_domain], p2m_log = []\<rparr>"
  have op: "domctl_iomem_permission example_env w 5 0xe0000 0x100 True =
      (None, snd (domctl_iomem_permission example_env w 5 0xe0000 0x100 True))"
    unfolding w_def by (simp add: domctl_iomem_permission_def put_domain_def iomem_permit_access_def
        example_env_def example_domain_def rangeset_add_range_def Let_def find_range_def insert_range_def)
  have "io_domains w 5 = Some example_domain" by (simp add: w_def)
  from domctl_iomem_permission_sound [OF example_domain_simps(1) this op]
  show ?thesis by (auto simp: example_domain_simps w_def [symmetric])
qed



end
