(* ===== verification/Evtchn.thy ===== *)
theory Evtchn
  imports Iocap "HOL-Library.Monad_Syntax"
begin

text \<open>
  Model of \<^verbatim>\<open>xen/common/event_channel.c\<close>: event channels between domains, and from virtual
  and physical interrupts to domains.

  The hypervisor state is the map from domain ids to domains. A port is a number; a channel is
  reached through the bucket table of its domain. The two locks that an operation takes make it
  one step, except for \<^verbatim>\<open>__evtchn_close\<close>, which may drop its lock in the middle: its body is a
  step of its own. A \<^verbatim>\<open>BUG()\<close>, a \<^verbatim>\<open>BUG_ON\<close> that fires and a null dereference are the result
  \<open>None\<close>. Calls into other subsystems that only act on them (waking a vcpu, unbinding a physical
  interrupt) are recorded in the trace of the domain; calls whose result matters (security hooks,
  allocation, \<^verbatim>\<open>pirq_guest_bind\<close>) are fields of the environment. Numbers the guest passes in
  32-bit fields are naturals: those that C reads as negative take the same branch as those that
  are too large.
\<close>

section \<open>Data\<close>

datatype ecs = ECS_FREE | ECS_RESERVED | ECS_UNBOUND (remote_domid: domid)
  | ECS_INTERDOMAIN (remote_dom: domid) (remote_port: nat)
  | ECS_PIRQ (pirq_irq: nat) (next_port: nat) (prev_port: nat)
  | ECS_VIRQ (virq: nat) | ECS_IPI

record evtchn =
  ec_state :: ecs
  consumer_is_xen :: bool
  notify_vcpu_id :: nat

datatype ev_effect = Assert_evtchn_irq nat | Vcpu_kick nat | Vcpu_unblock nat | Vcpu_wake nat
  | Pirq_guest_unbind nat | Pirq_set_affinity nat nat | Map_emuirq nat | Unmap_emuirq nat

record ev_vcpu =
  virq_to_evtchn :: "nat \<Rightarrow> nat"
  pirq_evtchn_head :: nat
  poll_evtchn :: int
  evtchn_pending_sel :: "nat \<Rightarrow> bool"
  evtchn_upcall_pending :: bool
  blocked_in_xen :: bool
  processor :: nat

record ev_domain =
  is_dying :: bool
  is_hvm_domain :: bool
  has_32bit_shinfo :: bool
  buckets :: "nat \<Rightarrow> (nat \<Rightarrow> evtchn) option"
  evtchn_pending :: "nat \<Rightarrow> bool"
  evtchn_mask :: "nat \<Rightarrow> bool"
  poll_mask :: "nat \<Rightarrow> bool"
  max_vcpus :: nat
  vcpu :: "nat \<Rightarrow> ev_vcpu option"
  pirq_to_evtchn :: "nat \<Rightarrow> nat"
  io_caps :: io_domain
  trace :: "ev_effect list"

type_synonym ev_world = "domid \<Rightarrow> ev_domain option"

text \<open>
  The environment: allocation of a bucket, the content of a freed bucket, the security hooks, the
  results of the interrupt code, and the order of the addresses of domain structures.
\<close>

record ev_env =
  xmalloc_ok :: bool
  poll_mask_xmalloc_ok :: bool
  xsm_alloc_security_evtchn :: "nat \<Rightarrow> bool"
  freed_bucket :: "nat \<Rightarrow> evtchn"
  xsm_evtchn_unbound :: "domid \<Rightarrow> nat \<Rightarrow> domid \<Rightarrow> rc"
  xsm_evtchn_interdomain :: "domid \<Rightarrow> nat \<Rightarrow> domid \<Rightarrow> nat \<Rightarrow> rc"
  xsm_evtchn_send :: "domid \<Rightarrow> nat \<Rightarrow> rc"
  xsm_evtchn_status :: "domid \<Rightarrow> nat \<Rightarrow> rc"
  xsm_evtchn_reset :: "domid \<Rightarrow> domid \<Rightarrow> rc"
  is_priv_for :: "domid \<Rightarrow> domid \<Rightarrow> bool"
  pirq_guest_bind :: "domid \<Rightarrow> nat \<Rightarrow> bool \<Rightarrow> rc"
  domain_pirq_to_irq :: "domid \<Rightarrow> nat \<Rightarrow> int"
  dom_before :: "domid \<Rightarrow> domid \<Rightarrow> bool"

type_synonym 'a ev_result = "((errno + 'a) \<times> ev_world) option"

definition DOMID_SELF :: domid where
  "DOMID_SELF = 0x7FF0"

definition NR_VIRQS :: nat where
  "NR_VIRQS = 24"

definition EVTCHNS_PER_BUCKET :: nat where
  "EVTCHNS_PER_BUCKET = 128"

definition NR_EVTCHN_BUCKETS :: nat where
  "NR_EVTCHN_BUCKETS = 4096 div EVTCHNS_PER_BUCKET"

definition BITS_PER_EVTCHN_WORD :: "ev_domain \<Rightarrow> nat" where
  "BITS_PER_EVTCHN_WORD d = (if has_32bit_shinfo d then 32 else 64)"

definition MAX_EVTCHNS :: "ev_domain \<Rightarrow> nat" where
  "MAX_EVTCHNS d = BITS_PER_EVTCHN_WORD d * BITS_PER_EVTCHN_WORD d"

definition bucket_from_port :: "ev_domain \<Rightarrow> nat \<Rightarrow> (nat \<Rightarrow> evtchn) option" where
  "bucket_from_port d p = buckets d (p div EVTCHNS_PER_BUCKET)"

definition port_is_valid :: "ev_domain \<Rightarrow> nat \<Rightarrow> bool" where
  "port_is_valid d p \<longleftrightarrow> p < MAX_EVTCHNS d \<and> bucket_from_port d p \<noteq> None"

text \<open>Reading and writing the channel of a port; \<open>None\<close> when the bucket pointer is null.\<close>

definition evtchn_from_port :: "ev_domain \<Rightarrow> nat \<Rightarrow> evtchn option" where
  "evtchn_from_port d p =
     map_option (\<lambda>b. b (p mod EVTCHNS_PER_BUCKET)) (bucket_from_port d p)"

definition upd_evtchn :: "ev_domain \<Rightarrow> nat \<Rightarrow> (evtchn \<Rightarrow> evtchn) \<Rightarrow> ev_domain option" where
  "upd_evtchn d p f =
     (case bucket_from_port d p of
        None \<Rightarrow> None
      | Some b \<Rightarrow>
          Some (d\<lparr>buckets := (buckets d)(p div EVTCHNS_PER_BUCKET \<mapsto>
            b(p mod EVTCHNS_PER_BUCKET := f (b (p mod EVTCHNS_PER_BUCKET))))\<rparr>))"

definition upd_vcpu :: "ev_domain \<Rightarrow> nat \<Rightarrow> (ev_vcpu \<Rightarrow> ev_vcpu) \<Rightarrow> ev_domain option" where
  "upd_vcpu d v f =
     (case vcpu d v of None \<Rightarrow> None | Some x \<Rightarrow> Some (d\<lparr>vcpu := (vcpu d)(v \<mapsto> f x)\<rparr>))"

text \<open>An operation on one domain of the world, which must exist.\<close>

definition on_domain :: "ev_world \<Rightarrow> domid \<Rightarrow> (ev_domain \<Rightarrow> ev_domain option) \<Rightarrow> ev_world option" where
  "on_domain w i f = do { d \<leftarrow> w i; d' \<leftarrow> f d; Some (w(i \<mapsto> d')) }"

definition emit :: "ev_effect \<Rightarrow> ev_domain \<Rightarrow> ev_domain" where
  "emit x d = d\<lparr>trace := trace d @ [x]\<rparr>"

section \<open>Ports\<close>

definition virq_is_global :: "nat \<Rightarrow> bool" where
  "virq_is_global v \<longleftrightarrow> v \<noteq> 0 \<and> v \<noteq> 1 \<and> v \<noteq> 7"

text \<open>
  The search of \<^verbatim>\<open>get_free_port\<close>: \<open>Inl\<close> the first free port, or \<open>Inr\<close> the port at which the
  loop ended because it is not valid.
\<close>

function find_free_port :: "ev_domain \<Rightarrow> nat \<Rightarrow> nat + nat" where
  "find_free_port d port =
     (if port_is_valid d port then
        (if map_option ec_state (evtchn_from_port d port) = Some ECS_FREE then Inl port
         else find_free_port d (Suc port))
      else Inr port)"
  by pat_completeness auto
termination
  by (relation "measure (\<lambda>(d, p). MAX_EVTCHNS d - p)") (auto simp: port_is_valid_def)

declare find_free_port.simps [simp del]

definition zero_evtchn :: evtchn where
  "zero_evtchn = \<lparr>ec_state = ECS_FREE, consumer_is_xen = False, notify_vcpu_id = 0\<rparr>"

definition get_free_port :: "ev_env \<Rightarrow> ev_domain \<Rightarrow> (errno + nat) \<times> ev_domain" where
  "get_free_port env d =
     (if is_dying d then (Inl EINVAL, d)
      else
        case find_free_port d 0 of
          Inl port \<Rightarrow> (Inr port, d)
        | Inr port \<Rightarrow>
            if port = MAX_EVTCHNS d then (Inl ENOSPC, d)
            else if \<not> xmalloc_ok env then (Inl ENOMEM, d)
            else if \<exists>i < EVTCHNS_PER_BUCKET. xsm_alloc_security_evtchn env i then
              (Inl ENOMEM, d\<lparr>buckets := (buckets d)(port div EVTCHNS_PER_BUCKET \<mapsto> freed_bucket env)\<rparr>)
            else
              (Inr port, d\<lparr>buckets := (buckets d)(port div EVTCHNS_PER_BUCKET \<mapsto> (\<lambda>_. zero_evtchn))\<rparr>))"

definition rcu_lock_target_domain_by_id ::
    "ev_env \<Rightarrow> domid \<Rightarrow> ev_world \<Rightarrow> domid \<Rightarrow> errno + domid" where
  "rcu_lock_target_domain_by_id env cur w i =
     (if i = DOMID_SELF then Inr cur
      else if w i = None then Inl ESRCH
      else if \<not> is_priv_for env cur i then Inl EPERM
      else Inr i)"

section \<open>Pending events\<close>

definition vcpu_mark_events_pending :: "ev_domain \<Rightarrow> nat \<Rightarrow> ev_domain option" where
  "vcpu_mark_events_pending d v = do {
     x \<leftarrow> vcpu d v;
     if evtchn_upcall_pending x then Some d
     else do {
       d \<leftarrow> upd_vcpu d v (\<lambda>x. x\<lparr>evtchn_upcall_pending := True\<rparr>);
       Some (emit (if is_hvm_domain d then Assert_evtchn_irq v else Vcpu_kick v) d)
     }
   }"

text \<open>The loop of \<^verbatim>\<open>evtchn_set_pending\<close> over the vcpus that poll, in ascending order.\<close>

fun wake_pollers :: "ev_domain \<Rightarrow> nat \<Rightarrow> nat list \<Rightarrow> ev_domain option" where
  "wake_pollers d port [] = Some d"
| "wake_pollers d port (i # is) =
     (if \<not> poll_mask d i then wake_pollers d port is
      else
        case vcpu d i of
          None \<Rightarrow> None
        | Some v \<Rightarrow>
            if poll_evtchn v \<le> 0 \<or> poll_evtchn v = int port then
              wake_pollers
                (emit (Vcpu_unblock i)
                  (d\<lparr>poll_mask := (poll_mask d)(i := False),
                     vcpu := (vcpu d)(i \<mapsto> v\<lparr>poll_evtchn := 0\<rparr>)\<rparr>)) port is
            else wake_pollers d port is)"

text \<open>The tail shared by \<^verbatim>\<open>evtchn_set_pending\<close> and \<^verbatim>\<open>evtchn_unmask\<close>: select the word of the port.\<close>

definition select_word :: "ev_domain \<Rightarrow> nat \<Rightarrow> nat \<Rightarrow> ev_domain option" where
  "select_word d v port = do {
     x \<leftarrow> vcpu d v;
     let i = port div BITS_PER_EVTCHN_WORD d;
     if evtchn_pending_sel x i then Some d
     else do {
       d \<leftarrow> upd_vcpu d v (\<lambda>x. x\<lparr>evtchn_pending_sel := (evtchn_pending_sel x)(i := True)\<rparr>);
       vcpu_mark_events_pending d v
     }
   }"

definition evtchn_set_pending :: "ev_domain \<Rightarrow> nat \<Rightarrow> nat \<Rightarrow> (bool \<times> ev_domain) option" where
  "evtchn_set_pending d v port = do {
     _ \<leftarrow> vcpu d v;
     if evtchn_pending d port then Some (True, d)
     else do {
       let d = d\<lparr>evtchn_pending := (evtchn_pending d)(port := True)\<rparr>;
       d \<leftarrow> (if \<not> evtchn_mask d port then select_word d v port else Some d);
       if \<forall>i < max_vcpus d. \<not> poll_mask d i then Some (False, d)
       else map_option (Pair False) (wake_pollers d port [0..<max_vcpus d])
     }
   }"

definition set_pending_at :: "ev_world \<Rightarrow> domid \<Rightarrow> nat \<Rightarrow> nat \<Rightarrow> ev_world option" where
  "set_pending_at w i v port = on_domain w i (\<lambda>d. map_option snd (evtchn_set_pending d v port))"

section \<open>Binding\<close>

definition evtchn_alloc_unbound ::
    "ev_env \<Rightarrow> domid \<Rightarrow> domid \<Rightarrow> domid \<Rightarrow> ev_world \<Rightarrow> nat ev_result" where
  "evtchn_alloc_unbound env cur dom_id remote w =
     (case rcu_lock_target_domain_by_id env cur w dom_id of
        Inl err \<Rightarrow> Some (Inl err, w)
      | Inr i \<Rightarrow> do {
          d \<leftarrow> w i;
          case get_free_port env d of
            (Inl err, d) \<Rightarrow> Some (Inl err, w(i \<mapsto> d))
          | (Inr port, d) \<Rightarrow>
              (case xsm_evtchn_unbound env i port remote of
                 Some err \<Rightarrow> Some (Inl err, w(i \<mapsto> d))
               | None \<Rightarrow> do {
                   d \<leftarrow> upd_evtchn d port (\<lambda>c. c\<lparr>ec_state :=
                          ECS_UNBOUND (if remote = DOMID_SELF then cur else remote)\<rparr>);
                   Some (Inr port, w(i \<mapsto> d))
                 })
        })"

definition evtchn_bind_interdomain ::
    "ev_env \<Rightarrow> domid \<Rightarrow> domid \<Rightarrow> nat \<Rightarrow> ev_world \<Rightarrow> nat ev_result" where
  "evtchn_bind_interdomain env cur remote_id rport w =
     (let rdom = (if remote_id = DOMID_SELF then cur else remote_id) in
      if w rdom = None then Some (Inl ESRCH, w)
      else do {
        ld \<leftarrow> w cur;
        case get_free_port env ld of
          (Inl err, ld) \<Rightarrow> Some (Inl err, w(cur \<mapsto> ld))
        | (Inr lport, ld) \<Rightarrow> do {
            let w = w(cur \<mapsto> ld);
            rd \<leftarrow> w rdom;
            if \<not> port_is_valid rd rport then Some (Inl EINVAL, w)
            else do {
              rchn \<leftarrow> evtchn_from_port rd rport;
              if ec_state rchn \<noteq> ECS_UNBOUND cur then Some (Inl EINVAL, w)
              else
                case xsm_evtchn_interdomain env cur lport rdom rport of
                  Some err \<Rightarrow> Some (Inl err, w)
                | None \<Rightarrow> do {
                    w \<leftarrow> on_domain w cur (\<lambda>d. upd_evtchn d lport (\<lambda>c. c\<lparr>ec_state :=
                           ECS_INTERDOMAIN rdom (rport mod 65536)\<rparr>));
                    w \<leftarrow> on_domain w rdom (\<lambda>d. upd_evtchn d rport (\<lambda>c. c\<lparr>ec_state :=
                           ECS_INTERDOMAIN cur (lport mod 65536)\<rparr>));
                    ld \<leftarrow> w cur;
                    lchn \<leftarrow> evtchn_from_port ld lport;
                    w \<leftarrow> set_pending_at w cur (notify_vcpu_id lchn) lport;
                    Some (Inr lport, w)
                  }
            }
          }
      })"

definition evtchn_bind_virq ::
    "ev_env \<Rightarrow> domid \<Rightarrow> nat \<Rightarrow> nat \<Rightarrow> ev_world \<Rightarrow> nat ev_result" where
  "evtchn_bind_virq env cur vi vc w = do {
     d \<leftarrow> w cur;
     if vi \<ge> NR_VIRQS then Some (Inl EINVAL, w)
     else if virq_is_global vi \<and> vc \<noteq> 0 then Some (Inl EINVAL, w)
     else if vc \<ge> max_vcpus d then Some (Inl ENOENT, w)
     else
       case vcpu d vc of
         None \<Rightarrow> Some (Inl ENOENT, w)
       | Some v \<Rightarrow>
           if virq_to_evtchn v vi \<noteq> 0 then Some (Inl EEXIST, w)
           else
             case get_free_port env d of
               (Inl err, d) \<Rightarrow> Some (Inl err, w(cur \<mapsto> d))
             | (Inr port, d) \<Rightarrow> do {
                 d \<leftarrow> upd_evtchn d port (\<lambda>c. c\<lparr>ec_state := ECS_VIRQ vi, notify_vcpu_id := vc\<rparr>);
                 d \<leftarrow> upd_vcpu d vc (\<lambda>v. v\<lparr>virq_to_evtchn := (virq_to_evtchn v)(vi := port)\<rparr>);
                 Some (Inr port, w(cur \<mapsto> d))
               }
   }"

definition evtchn_bind_ipi :: "ev_env \<Rightarrow> domid \<Rightarrow> nat \<Rightarrow> ev_world \<Rightarrow> nat ev_result" where
  "evtchn_bind_ipi env cur vc w = do {
     d \<leftarrow> w cur;
     if vc \<ge> max_vcpus d \<or> vcpu d vc = None then Some (Inl ENOENT, w)
     else
       case get_free_port env d of
         (Inl err, d) \<Rightarrow> Some (Inl err, w(cur \<mapsto> d))
       | (Inr port, d) \<Rightarrow> do {
           d \<leftarrow> upd_evtchn d port (\<lambda>c. c\<lparr>ec_state := ECS_IPI, notify_vcpu_id := vc\<rparr>);
           Some (Inr port, w(cur \<mapsto> d))
         }
   }"

text \<open>
  The list of the physical-interrupt ports of a vcpu is threaded through the channels. A field
  update of the union is meaningful for a channel in state \<^verbatim>\<open>ECS_PIRQ\<close>.
\<close>

definition set_next_port :: "nat \<Rightarrow> evtchn \<Rightarrow> evtchn" where
  "set_next_port n c =
     (case ec_state c of ECS_PIRQ irq _ p \<Rightarrow> c\<lparr>ec_state := ECS_PIRQ irq n p\<rparr> | _ \<Rightarrow> c)"

definition set_prev_port :: "nat \<Rightarrow> evtchn \<Rightarrow> evtchn" where
  "set_prev_port p c =
     (case ec_state c of ECS_PIRQ irq n _ \<Rightarrow> c\<lparr>ec_state := ECS_PIRQ irq n p\<rparr> | _ \<Rightarrow> c)"

definition link_pirq_port :: "ev_domain \<Rightarrow> nat \<Rightarrow> nat \<Rightarrow> ev_domain option" where
  "link_pirq_port d port vc = do {
     v \<leftarrow> vcpu d vc;
     d \<leftarrow> upd_evtchn d port (\<lambda>c. set_next_port (pirq_evtchn_head v) (set_prev_port 0 c));
     d \<leftarrow> (if pirq_evtchn_head v \<noteq> 0
          then upd_evtchn d (pirq_evtchn_head v) (set_prev_port port) else Some d);
     upd_vcpu d vc (\<lambda>v. v\<lparr>pirq_evtchn_head := port\<rparr>)
   }"

definition unlink_pirq_port :: "ev_domain \<Rightarrow> evtchn \<Rightarrow> nat \<Rightarrow> ev_domain option" where
  "unlink_pirq_port d chn vc = do {
     _ \<leftarrow> vcpu d vc;
     let n = next_port (ec_state chn);
     let p = prev_port (ec_state chn);
     d \<leftarrow> (if p \<noteq> 0 then upd_evtchn d p (set_next_port n)
          else upd_vcpu d vc (\<lambda>v. v\<lparr>pirq_evtchn_head := n\<rparr>));
     if n \<noteq> 0 then upd_evtchn d n (set_prev_port p) else Some d
   }"

definition evtchn_bind_pirq ::
    "ev_env \<Rightarrow> domid \<Rightarrow> nat \<Rightarrow> bool \<Rightarrow> ev_world \<Rightarrow> nat ev_result" where
  "evtchn_bind_pirq env cur pirq will_share w = do {
     d \<leftarrow> w cur;
     if pirq \<ge> unat (nr_pirqs (io_caps d)) then Some (Inl EINVAL, w)
     else if \<not> is_hvm_domain d \<and> \<not> irq_access_permitted (io_caps d) (of_nat pirq)
     then Some (Inl EPERM, w)
     else if pirq_to_evtchn d pirq \<noteq> 0 then Some (Inl EEXIST, w)
     else
       case get_free_port env d of
         (Inl err, d) \<Rightarrow> Some (Inl err, w(cur \<mapsto> d))
       | (Inr port, d) \<Rightarrow>
           (case (if \<not> is_hvm_domain d then pirq_guest_bind env cur pirq will_share else None) of
              Some err \<Rightarrow> Some (Inl err, w(cur \<mapsto> d\<lparr>pirq_to_evtchn := (pirq_to_evtchn d)(pirq := 0)\<rparr>))
            | None \<Rightarrow> do {
                let d = d\<lparr>pirq_to_evtchn := (pirq_to_evtchn d)(pirq := port)\<rparr>;
                d \<leftarrow> upd_evtchn d port (\<lambda>c. c\<lparr>ec_state := ECS_PIRQ pirq 0 0\<rparr>);
                d \<leftarrow> link_pirq_port d port 0;
                let d = (if is_hvm_domain d \<and> domain_pirq_to_irq env cur pirq > 0
                         then emit (Map_emuirq pirq) d else d);
                Some (Inr port, w(cur \<mapsto> d))
              })
   }"

section \<open>Closing\<close>

text \<open>
  The body of \<^verbatim>\<open>__evtchn_close\<close> from the label \<^verbatim>\<open>again\<close>, with the peer remembered in \<^verbatim>\<open>d2\<close>. It
  ends the call, or gives up the lock to take the locks in order and asks to be run again.
\<close>

datatype close_result = Closed rc ev_world | Again domid

fun clear_virq :: "nat \<Rightarrow> nat \<Rightarrow> ev_vcpu option \<Rightarrow> ev_vcpu option" where
  "clear_virq vi port None = None"
| "clear_virq vi port (Some v) =
     Some (if virq_to_evtchn v vi = port then v\<lparr>virq_to_evtchn := (virq_to_evtchn v)(vi := 0)\<rparr> else v)"

definition close_finish :: "ev_world \<Rightarrow> domid \<Rightarrow> nat \<Rightarrow> close_result option" where
  "close_finish w d1 port1 = do {
     w \<leftarrow> on_domain w d1 (\<lambda>d. upd_evtchn (d\<lparr>evtchn_pending := (evtchn_pending d)(port1 := False)\<rparr>) port1
            (\<lambda>c. c\<lparr>ec_state := ECS_FREE, notify_vcpu_id := 0\<rparr>));
     Some (Closed None w)
   }"

definition evtchn_close_body ::
    "ev_env \<Rightarrow> domid \<Rightarrow> nat \<Rightarrow> domid option \<Rightarrow> ev_world \<Rightarrow> close_result option" where
  "evtchn_close_body env d1 port1 d2 w = do {
     d \<leftarrow> w d1;
     if \<not> port_is_valid d port1 then Some (Closed (Some EINVAL) w)
     else do {
       chn1 \<leftarrow> evtchn_from_port d port1;
       if consumer_is_xen chn1 then Some (Closed (Some EINVAL) w)
       else
         case ec_state chn1 of
           ECS_FREE \<Rightarrow> Some (Closed (Some EINVAL) w)
         | ECS_RESERVED \<Rightarrow> Some (Closed (Some EINVAL) w)
         | ECS_UNBOUND _ \<Rightarrow> close_finish w d1 port1
         | ECS_IPI \<Rightarrow> close_finish w d1 port1
         | ECS_PIRQ irq _ _ \<Rightarrow> do {
             let d = (if \<not> is_hvm_domain d then emit (Pirq_guest_unbind irq) d else d);
             let d = d\<lparr>pirq_to_evtchn := (pirq_to_evtchn d)(irq := 0)\<rparr>;
             d \<leftarrow> unlink_pirq_port d chn1 (notify_vcpu_id chn1);
             let d = (if is_hvm_domain d \<and> domain_pirq_to_irq env d1 irq > 0
                      then emit (Unmap_emuirq irq) d else d);
             close_finish (w(d1 \<mapsto> d)) d1 port1
           }
         | ECS_VIRQ vi \<Rightarrow>
             close_finish (w(d1 \<mapsto> d\<lparr>vcpu := (\<lambda>i. clear_virq vi port1 (vcpu d i))\<rparr>)) d1 port1
         | ECS_INTERDOMAIN rdom port2 \<Rightarrow>
             if d2 = None \<and> w rdom = None then None
             else if d2 = None \<and> \<not> dom_before env d1 rdom \<and> d1 \<noteq> rdom then Some (Again rdom)
             else if d2 \<noteq> None \<and> d2 \<noteq> Some rdom then Some (Closed (Some EINVAL) w)
             else do {
               rd \<leftarrow> w rdom;
               if \<not> port_is_valid rd port2 then None
               else do {
                 chn2 \<leftarrow> evtchn_from_port rd port2;
                 case ec_state chn2 of
                   ECS_INTERDOMAIN peer _ \<Rightarrow>
                     if peer \<noteq> d1 then None
                     else do {
                       w \<leftarrow> on_domain w rdom (\<lambda>d. upd_evtchn d port2 (\<lambda>c. c\<lparr>ec_state := ECS_UNBOUND d1\<rparr>));
                       close_finish w d1 port1
                     }
                 | _ \<Rightarrow> None
               }
             }
     }
   }"

text \<open>The call with no other operation between the two passes.\<close>

definition evtchn_close_at :: "ev_env \<Rightarrow> domid \<Rightarrow> nat \<Rightarrow> ev_world \<Rightarrow> (rc \<times> ev_world) option" where
  "evtchn_close_at env d1 port1 w =
     (case evtchn_close_body env d1 port1 None w of
        None \<Rightarrow> None
      | Some (Closed ret w') \<Rightarrow> Some (ret, w')
      | Some (Again d2) \<Rightarrow>
          (case evtchn_close_body env d1 port1 (Some d2) w of
             Some (Closed ret w') \<Rightarrow> Some (ret, w')
           | _ \<Rightarrow> None))"

section \<open>Sending\<close>

definition evtchn_send :: "ev_env \<Rightarrow> domid \<Rightarrow> nat \<Rightarrow> ev_world \<Rightarrow> (rc \<times> ev_world) option" where
  "evtchn_send env ld lport w = do {
     d \<leftarrow> w ld;
     if \<not> port_is_valid d lport then Some (Some EINVAL, w)
     else do {
       lchn \<leftarrow> evtchn_from_port d lport;
       if consumer_is_xen lchn then Some (Some EINVAL, w)
       else
         case xsm_evtchn_send env ld lport of
           Some err \<Rightarrow> Some (Some err, w)
         | None \<Rightarrow>
             (case ec_state lchn of
                ECS_INTERDOMAIN rd rport \<Rightarrow> do {
                  r \<leftarrow> w rd;
                  rchn \<leftarrow> evtchn_from_port r rport;
                  if consumer_is_xen rchn then do {
                    rvcpu \<leftarrow> vcpu r (notify_vcpu_id rchn);
                    if blocked_in_xen rvcpu then do {
                      w \<leftarrow> on_domain w rd (\<lambda>r. map_option (emit (Vcpu_wake (notify_vcpu_id rchn)))
                             (upd_vcpu r (notify_vcpu_id rchn) (\<lambda>v. v\<lparr>blocked_in_xen := False\<rparr>)));
                      Some (None, w)
                    } else Some (None, w)
                  }
                  else map_option (Pair None) (set_pending_at w rd (notify_vcpu_id rchn) rport)
                }
              | ECS_IPI \<Rightarrow> map_option (Pair None) (set_pending_at w ld (notify_vcpu_id lchn) lport)
              | ECS_UNBOUND _ \<Rightarrow> Some (None, w)
              | _ \<Rightarrow> Some (Some EINVAL, w))
     }
   }"

definition guest_enabled_event :: "ev_vcpu option \<Rightarrow> nat \<Rightarrow> bool" where
  "guest_enabled_event v vi = (case v of None \<Rightarrow> False | Some v \<Rightarrow> virq_to_evtchn v vi \<noteq> 0)"

definition send_guest_vcpu_virq :: "ev_domain \<Rightarrow> nat \<Rightarrow> nat \<Rightarrow> ev_domain option" where
  "send_guest_vcpu_virq d vc vi = do {
     v \<leftarrow> vcpu d vc;
     let port = virq_to_evtchn v vi;
     if port = 0 then Some d else map_option snd (evtchn_set_pending d vc port)
   }"

definition send_guest_global_virq :: "ev_domain option \<Rightarrow> nat \<Rightarrow> ev_domain option option" where
  "send_guest_global_virq dp vi =
     (case dp of
        None \<Rightarrow> Some None
      | Some d \<Rightarrow>
          (case vcpu d 0 of
             None \<Rightarrow> Some (Some d)
           | Some v \<Rightarrow>
               let port = virq_to_evtchn v vi in
               if port = 0 then Some (Some d)
               else do {
                 chn \<leftarrow> evtchn_from_port d port;
                 r \<leftarrow> evtchn_set_pending d (notify_vcpu_id chn) port;
                 Some (Some (snd r))
               }))"

definition send_guest_pirq :: "ev_domain \<Rightarrow> nat \<Rightarrow> (bool \<times> ev_domain) option" where
  "send_guest_pirq d pirq =
     (let port = pirq_to_evtchn d pirq in
      if port = 0 then (if \<not> is_hvm_domain d then None else Some (False, d))
      else do {
        chn \<leftarrow> evtchn_from_port d port;
        evtchn_set_pending d (notify_vcpu_id chn) port
      })"

section \<open>Status, affinity, masking\<close>

datatype evtchn_stat = EVTCHNSTAT_closed | EVTCHNSTAT_unbound domid | EVTCHNSTAT_interdomain domid nat
  | EVTCHNSTAT_pirq nat | EVTCHNSTAT_virq nat | EVTCHNSTAT_ipi

fun stat_of_state :: "ecs \<Rightarrow> evtchn_stat" where
  "stat_of_state ECS_FREE = EVTCHNSTAT_closed"
| "stat_of_state ECS_RESERVED = EVTCHNSTAT_closed"
| "stat_of_state (ECS_UNBOUND r) = EVTCHNSTAT_unbound r"
| "stat_of_state (ECS_INTERDOMAIN r p) = EVTCHNSTAT_interdomain r p"
| "stat_of_state (ECS_PIRQ irq _ _) = EVTCHNSTAT_pirq irq"
| "stat_of_state (ECS_VIRQ vi) = EVTCHNSTAT_virq vi"
| "stat_of_state ECS_IPI = EVTCHNSTAT_ipi"

definition evtchn_status ::
    "ev_env \<Rightarrow> domid \<Rightarrow> domid \<Rightarrow> nat \<Rightarrow> ev_world \<Rightarrow> (evtchn_stat \<times> nat) ev_result" where
  "evtchn_status env cur dom_id port w =
     (case rcu_lock_target_domain_by_id env cur w dom_id of
        Inl err \<Rightarrow> Some (Inl err, w)
      | Inr i \<Rightarrow> do {
          d \<leftarrow> w i;
          if \<not> port_is_valid d port then Some (Inl EINVAL, w)
          else do {
            chn \<leftarrow> evtchn_from_port d port;
            case xsm_evtchn_status env i port of
              Some err \<Rightarrow> Some (Inl err, w)
            | None \<Rightarrow> Some (Inr (stat_of_state (ec_state chn), notify_vcpu_id chn), w)
          }
        })"

definition evtchn_bind_vcpu :: "domid \<Rightarrow> nat \<Rightarrow> nat \<Rightarrow> ev_world \<Rightarrow> (rc \<times> ev_world) option" where
  "evtchn_bind_vcpu cur port vc w = do {
     d \<leftarrow> w cur;
     if vc \<ge> max_vcpus d \<or> vcpu d vc = None then Some (Some ENOENT, w)
     else if \<not> port_is_valid d port then Some (Some EINVAL, w)
     else do {
       chn \<leftarrow> evtchn_from_port d port;
       if consumer_is_xen chn then Some (Some EINVAL, w)
       else
         let rebind = do {
               d \<leftarrow> upd_evtchn d port (\<lambda>c. c\<lparr>notify_vcpu_id := vc\<rparr>);
               Some (None, w(cur \<mapsto> d))
             }
         in case ec_state chn of
              ECS_VIRQ vi \<Rightarrow> if virq_is_global vi then rebind else Some (Some EINVAL, w)
            | ECS_UNBOUND _ \<Rightarrow> rebind
            | ECS_INTERDOMAIN _ _ \<Rightarrow> rebind
            | ECS_PIRQ irq _ _ \<Rightarrow>
                if notify_vcpu_id chn = vc then Some (None, w)
                else do {
                  d \<leftarrow> unlink_pirq_port d chn (notify_vcpu_id chn);
                  d \<leftarrow> upd_evtchn d port (\<lambda>c. c\<lparr>notify_vcpu_id := vc\<rparr>);
                  v \<leftarrow> vcpu d vc;
                  d \<leftarrow> link_pirq_port (emit (Pirq_set_affinity irq (processor v)) d) port vc;
                  Some (None, w(cur \<mapsto> d))
                }
            | _ \<Rightarrow> Some (Some EINVAL, w)
     }
   }"

definition evtchn_unmask :: "domid \<Rightarrow> nat \<Rightarrow> ev_world \<Rightarrow> (rc \<times> ev_world) option" where
  "evtchn_unmask cur port w = do {
     d \<leftarrow> w cur;
     if \<not> port_is_valid d port then Some (Some EINVAL, w)
     else do {
       chn \<leftarrow> evtchn_from_port d port;
       _ \<leftarrow> vcpu d (notify_vcpu_id chn);
       let masked = evtchn_mask d port;
       let d = d\<lparr>evtchn_mask := (evtchn_mask d)(port := False)\<rparr>;
       d \<leftarrow> (if masked \<and> evtchn_pending d port then select_word d (notify_vcpu_id chn) port else Some d);
       Some (None, w(cur \<mapsto> d))
     }
   }"

text \<open>The loops that close every port from \<open>port\<close> up to the first one that is not valid.\<close>

function close_all :: "ev_env \<Rightarrow> domid \<Rightarrow> nat \<Rightarrow> ev_world \<Rightarrow> nat \<Rightarrow> ev_world option" where
  "close_all env i n w port =
     (if port < n then do {
        d \<leftarrow> w i;
        if port_is_valid d port then do {
          r \<leftarrow> evtchn_close_at env i port w;
          close_all env i n (snd r) (Suc port)
        } else Some w
      } else Some w)"
  by pat_completeness auto
termination
  by (relation "measure (\<lambda>(env, i, n, w, port). n - port)") auto

declare close_all.simps [simp del]

definition evtchn_reset :: "ev_env \<Rightarrow> domid \<Rightarrow> domid \<Rightarrow> ev_world \<Rightarrow> (rc \<times> ev_world) option" where
  "evtchn_reset env cur dom_id w =
     (case rcu_lock_target_domain_by_id env cur w dom_id of
        Inl err \<Rightarrow> Some (Some err, w)
      | Inr i \<Rightarrow>
          (case xsm_evtchn_reset env cur i of
             Some err \<Rightarrow> Some (Some err, w)
           | None \<Rightarrow> do {
               d \<leftarrow> w i;
               w \<leftarrow> close_all env i (MAX_EVTCHNS d) w 0;
               Some (None, w)
             }))"

section \<open>The hypercall\<close>

datatype evtchn_op = EVTCHNOP_alloc_unbound domid domid | EVTCHNOP_bind_interdomain domid nat
  | EVTCHNOP_bind_virq nat nat | EVTCHNOP_bind_ipi nat | EVTCHNOP_bind_pirq nat bool
  | EVTCHNOP_close nat | EVTCHNOP_send nat | EVTCHNOP_status domid nat
  | EVTCHNOP_bind_vcpu nat nat | EVTCHNOP_unmask nat | EVTCHNOP_reset domid | EVTCHNOP_other

datatype evtchn_out = Out_none | Out_port nat | Out_status evtchn_stat nat

text \<open>Copying the result to the guest: a failed copy makes the call fail after its effect.\<close>

definition copy_out :: "bool \<Rightarrow> ('a \<Rightarrow> evtchn_out) \<Rightarrow> 'a ev_result \<Rightarrow> evtchn_out ev_result" where
  "copy_out copy_ok f r =
     map_option (\<lambda>(x, w). (case x of Inl err \<Rightarrow> Inl err
       | Inr y \<Rightarrow> if copy_ok then Inr (f y) else Inl EFAULT, w)) r"

definition no_out :: "(rc \<times> ev_world) option \<Rightarrow> evtchn_out ev_result" where
  "no_out r = map_option (\<lambda>(x, w). (case x of Some err \<Rightarrow> Inl err | None \<Rightarrow> Inr Out_none, w)) r"

definition do_event_channel_op ::
    "ev_env \<Rightarrow> domid \<Rightarrow> evtchn_op \<Rightarrow> bool \<Rightarrow> bool \<Rightarrow> ev_world \<Rightarrow> evtchn_out ev_result" where
  "do_event_channel_op env cur cmd copy_from_ok copy_to_ok w =
     (if cmd = EVTCHNOP_other then Some (Inl ENOSYS, w)
      else if \<not> copy_from_ok then Some (Inl EFAULT, w)
      else
        case cmd of
          EVTCHNOP_alloc_unbound i r \<Rightarrow>
            copy_out copy_to_ok Out_port (evtchn_alloc_unbound env cur i r w)
        | EVTCHNOP_bind_interdomain i p \<Rightarrow>
            copy_out copy_to_ok Out_port (evtchn_bind_interdomain env cur i p w)
        | EVTCHNOP_bind_virq vi vc \<Rightarrow> copy_out copy_to_ok Out_port (evtchn_bind_virq env cur vi vc w)
        | EVTCHNOP_bind_ipi vc \<Rightarrow> copy_out copy_to_ok Out_port (evtchn_bind_ipi env cur vc w)
        | EVTCHNOP_bind_pirq p s \<Rightarrow> copy_out copy_to_ok Out_port (evtchn_bind_pirq env cur p s w)
        | EVTCHNOP_close p \<Rightarrow> no_out (evtchn_close_at env cur p w)
        | EVTCHNOP_send p \<Rightarrow> no_out (evtchn_send env cur p w)
        | EVTCHNOP_status i p \<Rightarrow>
            copy_out copy_to_ok (\<lambda>(s, v). Out_status s v) (evtchn_status env cur i p w)
        | EVTCHNOP_bind_vcpu p vc \<Rightarrow> no_out (evtchn_bind_vcpu cur p vc w)
        | EVTCHNOP_unmask p \<Rightarrow> no_out (evtchn_unmask cur p w)
        | EVTCHNOP_reset i \<Rightarrow> no_out (evtchn_reset env cur i w)
        | EVTCHNOP_other \<Rightarrow> Some (Inl ENOSYS, w))"

section \<open>Channels whose consumer is Xen\<close>

definition alloc_unbound_xen_event_channel ::
    "ev_env \<Rightarrow> ev_domain \<Rightarrow> nat \<Rightarrow> domid \<Rightarrow> ((errno + nat) \<times> ev_domain) option" where
  "alloc_unbound_xen_event_channel env d local_vcpu remote =
     (case get_free_port env d of
        (Inl err, d) \<Rightarrow> Some (Inl err, d)
      | (Inr port, d) \<Rightarrow> do {
          d \<leftarrow> upd_evtchn d port (\<lambda>c. c\<lparr>ec_state := ECS_UNBOUND remote, consumer_is_xen := True,
                 notify_vcpu_id := local_vcpu\<rparr>);
          Some (Inr port, d)
        })"

definition free_xen_event_channel :: "ev_env \<Rightarrow> domid \<Rightarrow> nat \<Rightarrow> ev_world \<Rightarrow> ev_world option" where
  "free_xen_event_channel env i port w = do {
     d \<leftarrow> w i;
     if is_dying d then Some w
     else if \<not> port_is_valid d port then None
     else do {
       chn \<leftarrow> evtchn_from_port d port;
       if \<not> consumer_is_xen chn then None
       else do {
         w \<leftarrow> on_domain w i (\<lambda>d. upd_evtchn d port (\<lambda>c. c\<lparr>consumer_is_xen := False\<rparr>));
         r \<leftarrow> evtchn_close_at env i port w;
         Some (snd r)
       }
     }
   }"

definition notify_via_xen_event_channel :: "domid \<Rightarrow> nat \<Rightarrow> ev_world \<Rightarrow> ev_world option" where
  "notify_via_xen_event_channel i lport w = do {
     d \<leftarrow> w i;
     if is_dying d then Some w
     else do {
       lchn \<leftarrow> evtchn_from_port d lport;
       case ec_state lchn of
         ECS_INTERDOMAIN rd rport \<Rightarrow> do {
           r \<leftarrow> w rd;
           rchn \<leftarrow> evtchn_from_port r rport;
           set_pending_at w rd (notify_vcpu_id rchn) rport
         }
       | _ \<Rightarrow> Some w
     }
   }"

section \<open>Life cycle of a domain\<close>

definition evtchn_init :: "ev_env \<Rightarrow> ev_domain \<Rightarrow> (rc \<times> ev_domain) option" where
  "evtchn_init env d =
     (case get_free_port env d of
        (Inr port, d) \<Rightarrow>
          if port \<noteq> 0 then Some (Some EINVAL, d)
          else do {
            d \<leftarrow> upd_evtchn d 0 (\<lambda>c. c\<lparr>ec_state := ECS_RESERVED\<rparr>);
            if \<not> poll_mask_xmalloc_ok env then Some (Some ENOMEM, d)
            else Some (None, d\<lparr>poll_mask := (\<lambda>_. False)\<rparr>)
          }
      | (Inl _, d) \<Rightarrow> Some (Some EINVAL, d))"

function destroy_all :: "ev_env \<Rightarrow> domid \<Rightarrow> nat \<Rightarrow> ev_world \<Rightarrow> nat \<Rightarrow> ev_world option" where
  "destroy_all env i n w port =
     (if port < n then do {
        d \<leftarrow> w i;
        if port_is_valid d port then do {
          w \<leftarrow> on_domain w i (\<lambda>d. upd_evtchn d port (\<lambda>c. c\<lparr>consumer_is_xen := False\<rparr>));
          r \<leftarrow> evtchn_close_at env i port w;
          destroy_all env i n (snd r) (Suc port)
        } else Some w
      } else Some w)"
  by pat_completeness auto
termination
  by (relation "measure (\<lambda>(env, i, n, w, port). n - port)") auto

declare destroy_all.simps [simp del]

definition evtchn_destroy :: "ev_env \<Rightarrow> domid \<Rightarrow> ev_world \<Rightarrow> ev_world option" where
  "evtchn_destroy env i w = do {
     d \<leftarrow> w i;
     if \<not> is_dying d then None
     else do {
       w \<leftarrow> destroy_all env i (MAX_EVTCHNS d) w 0;
       on_domain w i (\<lambda>d. Some (d\<lparr>buckets := (\<lambda>b. if b < NR_EVTCHN_BUCKETS then None else buckets d b)\<rparr>))
     }
   }"

text \<open>
  The walk over the physical-interrupt ports of a vcpu. The list is a list only by the invariant
  of the component, so the loop is partial: not ending is \<open>None\<close>.
\<close>

partial_function (option) move_pirqs_loop :: "ev_domain \<Rightarrow> nat \<Rightarrow> nat \<Rightarrow> ev_domain option" where
  "move_pirqs_loop d cpu port =
     (if port = 0 then Some d
      else do {
        chn \<leftarrow> evtchn_from_port d port;
        move_pirqs_loop (emit (Pirq_set_affinity (pirq_irq (ec_state chn)) cpu) d) cpu
          (next_port (ec_state chn))
      })"

definition evtchn_move_pirqs :: "ev_domain \<Rightarrow> nat \<Rightarrow> ev_domain option" where
  "evtchn_move_pirqs d vc = do {
     v \<leftarrow> vcpu d vc;
     move_pirqs_loop d (processor v) (pirq_evtchn_head v)
   }"

end
