(* ===== verification/Evtchn_Inv.thy ===== *)
theory Evtchn_Inv
  imports Evtchn
begin

text \<open>
  The invariant of event channels. A domain is seen through its view: its channels, the interrupt
  tables of its vcpus and the heads of their lists of physical-interrupt ports. The invariant says
  that port 0 is reserved, that free channels are clean, that channels and interrupt tables agree,
  and that the physical-interrupt ports of each vcpu form a doubly linked list.
\<close>

section \<open>Channels and the view of a domain\<close>

definition chan :: "ev_domain \<Rightarrow> nat \<Rightarrow> evtchn option" where
  "chan d p = (if port_is_valid d p then evtchn_from_port d p else None)"

lemma port_split: "p = q \<longleftrightarrow> p div EVTCHNS_PER_BUCKET = q div EVTCHNS_PER_BUCKET \<and>
    p mod EVTCHNS_PER_BUCKET = q mod EVTCHNS_PER_BUCKET"
  by (metis div_mult_mod_eq)

lemma port_is_valid_iff: "port_is_valid d p \<longleftrightarrow> (\<exists>c. chan d p = Some c)"
  by (auto simp: chan_def port_is_valid_def evtchn_from_port_def)

lemma chan_from_port: "chan d p = Some c \<Longrightarrow> evtchn_from_port d p = Some c"
  by (simp add: chan_def split: if_splits)

lemma chan_valid: "chan d p = Some c \<Longrightarrow> port_is_valid d p"
  by (auto simp: port_is_valid_iff)

text \<open>
  What the invariant is about: the channels, and of each vcpu its interrupt table and the head of
  its list of physical-interrupt ports.
\<close>

record ev_view =
  vw_chan :: "nat \<Rightarrow> evtchn option"
  vw_vcpu :: "nat \<Rightarrow> ((nat \<Rightarrow> nat) \<times> nat) option"
  vw_pirq :: "nat \<Rightarrow> nat"
  vw_poll :: "nat \<Rightarrow> bool"
  vw_dying :: bool
  vw_max :: nat
  vw_ports :: nat

definition view :: "ev_domain \<Rightarrow> ev_view" where
  "view d = \<lparr>vw_chan = chan d,
     vw_vcpu = (\<lambda>v. map_option (\<lambda>x. (virq_to_evtchn x, pirq_evtchn_head x)) (vcpu d v)),
     vw_pirq = pirq_to_evtchn d, vw_poll = poll_mask d, vw_dying = is_dying d, vw_max = max_vcpus d,
     vw_ports = MAX_EVTCHNS d\<rparr>"

lemma view_simps [simp]:
  "vw_chan (view d) = chan d" "vw_pirq (view d) = pirq_to_evtchn d" "vw_poll (view d) = poll_mask d"
  "vw_dying (view d) = is_dying d" "vw_max (view d) = max_vcpus d" "vw_ports (view d) = MAX_EVTCHNS d"
  "vw_vcpu (view d) v = map_option (\<lambda>x. (virq_to_evtchn x, pirq_evtchn_head x)) (vcpu d v)"
  by (simp_all add: view_def)

lemma upd_evtchn_view:
  assumes "chan d p = Some c"
  obtains d' where "upd_evtchn d p f = Some d'" "view d' = (view d)\<lparr>vw_chan := (chan d)(p \<mapsto> f c)\<rparr>"
    "vcpu d' = vcpu d" "evtchn_mask d' = evtchn_mask d" "evtchn_pending d' = evtchn_pending d"
    "is_hvm_domain d' = is_hvm_domain d" "io_caps d' = io_caps d" "trace d' = trace d"
proof -
  obtain b where b: "bucket_from_port d p = Some b" "c = b (p mod EVTCHNS_PER_BUCKET)" "p < MAX_EVTCHNS d"
    using assms by (auto simp: chan_def port_is_valid_def evtchn_from_port_def split: if_splits)
  let ?d = "d\<lparr>buckets := (buckets d)(p div EVTCHNS_PER_BUCKET \<mapsto> b(p mod EVTCHNS_PER_BUCKET := f c))\<rparr>"
  have "chan ?d q = ((chan d)(p \<mapsto> f c)) q" for q
    using b port_split [of p q]
    by (auto simp: chan_def port_is_valid_def evtchn_from_port_def bucket_from_port_def MAX_EVTCHNS_def
        BITS_PER_EVTCHN_WORD_def)
  then have "view ?d = (view d)\<lparr>vw_chan := (chan d)(p \<mapsto> f c)\<rparr>"
    by (auto simp: view_def MAX_EVTCHNS_def BITS_PER_EVTCHN_WORD_def)
  then show ?thesis
    by (intro that [of ?d]) (simp_all add: upd_evtchn_def b)
qed

lemma view_cong:
  assumes "buckets d' = buckets d" "has_32bit_shinfo d' = has_32bit_shinfo d"
  shows "chan d' = chan d" "MAX_EVTCHNS d' = MAX_EVTCHNS d"
  using assms
  by (auto simp: chan_def port_is_valid_def evtchn_from_port_def bucket_from_port_def MAX_EVTCHNS_def
      BITS_PER_EVTCHN_WORD_def fun_eq_iff)

section \<open>Allocation of a port\<close>

lemma find_free_port_cases:
  "case find_free_port d port of
     Inl p \<Rightarrow> \<exists>c. chan d p = Some c \<and> ec_state c = ECS_FREE
   | Inr p \<Rightarrow> \<not> port_is_valid d p \<and> port \<le> p \<and>
       (\<forall>q. port \<le> q \<and> q < p \<longrightarrow> (\<exists>c. chan d q = Some c \<and> ec_state c \<noteq> ECS_FREE))"
proof (induction d port rule: find_free_port.induct)
  case (1 d port)
  show ?case
  proof (cases "port_is_valid d port")
    case True
    then obtain c where c: "chan d port = Some c" "evtchn_from_port d port = Some c"
      using port_is_valid_iff chan_from_port by blast
    show ?thesis
    proof (cases "ec_state c = ECS_FREE")
      case True
      with c chan_valid [OF c(1)] show ?thesis by (subst find_free_port.simps) simp
    next
      case False
      have *: "find_free_port d port = find_free_port d (Suc port)"
        using c True False by (subst find_free_port.simps) simp
      have IH: "case find_free_port d (Suc port) of
          Inl p \<Rightarrow> \<exists>c. chan d p = Some c \<and> ec_state c = ECS_FREE
        | Inr p \<Rightarrow> \<not> port_is_valid d p \<and> Suc port \<le> p \<and>
            (\<forall>q. Suc port \<le> q \<and> q < p \<longrightarrow> (\<exists>c. chan d q = Some c \<and> ec_state c \<noteq> ECS_FREE))"
        by (rule "1.IH") (use True c False in auto)
      show ?thesis
      proof (cases "find_free_port d (Suc port)")
        case (Inr p)
        have "\<exists>c. chan d q = Some c \<and> ec_state c \<noteq> ECS_FREE" if "port \<le> q" "q < p" for q
          using IH Inr c(1) False that by (cases "q = port") auto
        with IH Inr show ?thesis unfolding * by auto
      qed (use IH * in auto)
    qed
  next
    case False
    then show ?thesis by (subst find_free_port.simps) auto
  qed
qed

text \<open>The ports in use by buckets are those below some bound.\<close>

definition contiguous :: "(nat \<Rightarrow> evtchn option) \<Rightarrow> bool" where
  "contiguous C \<longleftrightarrow> (\<forall>q p. C q \<noteq> None \<longrightarrow> p < q \<longrightarrow> C p \<noteq> None)"

lemma contiguousD: "contiguous C \<Longrightarrow> C q \<noteq> None \<Longrightarrow> p < q \<Longrightarrow> C p \<noteq> None"
  unfolding contiguous_def by blast

lemma contiguous_cong: "(\<And>q. C' q = None \<longleftrightarrow> C q = None) \<Longrightarrow> contiguous C' \<longleftrightarrow> contiguous C"
  by (simp add: contiguous_def)

lemma contiguous_upd: "C p = Some c \<Longrightarrow> contiguous (C(p \<mapsto> c')) \<longleftrightarrow> contiguous C"
  by (rule contiguous_cong) simp

text \<open>The security hook of the default build: no failure.\<close>

definition xsm_alloc_ok :: "ev_env \<Rightarrow> bool" where
  "xsm_alloc_ok env \<longleftrightarrow> (\<forall>i. \<not> xsm_alloc_security_evtchn env i)"

text \<open>The port that \<^const>\<open>get_free_port\<close> returns is valid and free, and no channel in use is touched.\<close>

definition grown :: "ev_view \<Rightarrow> ev_view \<Rightarrow> bool" where
  "grown V V' \<longleftrightarrow> (\<exists>C. V' = V\<lparr>vw_chan := C\<rparr> \<and>
     (\<forall>q. C q = vw_chan V q \<or> (vw_chan V q = None \<and> C q = Some zero_evtchn)))"

lemma grown_refl [simp]: "grown V V"
  by (auto simp: grown_def intro!: exI [of _ "vw_chan V"])

definition same_rest :: "ev_domain \<Rightarrow> ev_domain \<Rightarrow> bool" where
  "same_rest d d' \<longleftrightarrow> vcpu d' = vcpu d \<and> evtchn_mask d' = evtchn_mask d \<and>
     evtchn_pending d' = evtchn_pending d \<and> is_hvm_domain d' = is_hvm_domain d \<and>
     io_caps d' = io_caps d \<and> trace d' = trace d"

lemma contiguous_bucket:
  assumes "contiguous (chan d)" "\<forall>q<p. chan d q \<noteq> None" "buckets d (p div EVTCHNS_PER_BUCKET) = None"
    and d': "d' = d\<lparr>buckets := (buckets d)(p div EVTCHNS_PER_BUCKET \<mapsto> (\<lambda>_. zero_evtchn))\<rparr>"
  shows "contiguous (chan d')"
  unfolding contiguous_def
proof (intro allI impI)
  have some: "chan x q \<noteq> None \<longleftrightarrow> q < MAX_EVTCHNS x \<and> buckets x (q div EVTCHNS_PER_BUCKET) \<noteq> None" for x q
    by (auto simp: chan_def port_is_valid_def evtchn_from_port_def bucket_from_port_def)
  have max: "MAX_EVTCHNS d' = MAX_EVTCHNS d" by (simp add: d' MAX_EVTCHNS_def BITS_PER_EVTCHN_WORD_def)
  fix q r assume q: "chan d' q \<noteq> None" and r: "r < q"
  show "chan d' r \<noteq> None"
  proof (cases "r < p")
    case True
    then have "chan d r \<noteq> None" using assms(2) by blast
    then show ?thesis unfolding some max by (simp add: d')
  next
    case False
    have "q div EVTCHNS_PER_BUCKET = p div EVTCHNS_PER_BUCKET"
    proof (rule ccontr)
      assume "\<not> ?thesis"
      with q have "chan d q \<noteq> None" unfolding some max by (simp add: d')
      then have "chan d p \<noteq> None" using contiguousD [OF assms(1), of q p] False r by simp
      then show False unfolding some using assms(3) by simp
    qed
    then have "r div EVTCHNS_PER_BUCKET = p div EVTCHNS_PER_BUCKET"
      using div_le_mono [of p r EVTCHNS_PER_BUCKET] div_le_mono [of r q EVTCHNS_PER_BUCKET] False r by simp
    then show ?thesis using q r unfolding some max by (simp add: d')
  qed
qed

lemma get_free_port_grown:
  assumes "xsm_alloc_ok env" "get_free_port env d = (r, d')"
  shows "grown (view d) (view d') \<and> same_rest d d' \<and>
    (case r of
       Inl err \<Rightarrow> d' = d
     | Inr port \<Rightarrow> \<not> is_dying d \<and> (\<exists>c. chan d' port = Some c \<and> ec_state c = ECS_FREE)) \<and>
    (contiguous (chan d) \<longrightarrow> contiguous (chan d'))"
proof (cases "is_dying d")
  case False
  show ?thesis
  proof (cases "find_free_port d 0")
    case (Inl p)
    with False assms find_free_port_cases [of d 0] show ?thesis
      by (auto simp: get_free_port_def same_rest_def)
  next
    case (Inr p)
    with find_free_port_cases [of d 0] have p: "\<not> port_is_valid d p" "\<forall>q<p. port_is_valid d q"
      by (auto simp: port_is_valid_iff)
    show ?thesis
    proof (cases "p = MAX_EVTCHNS d \<or> \<not> xmalloc_ok env")
      case True
      with Inr False assms have "d' = d" "\<exists>e. r = Inl e"
        by (auto simp: get_free_port_def split: if_splits)
      then show ?thesis by (auto simp: same_rest_def)
    next
      case ok: False
      let ?d = "d\<lparr>buckets := (buckets d)(p div EVTCHNS_PER_BUCKET \<mapsto> (\<lambda>_. zero_evtchn))\<rparr>"
      have res: "r = Inr p" "d' = ?d"
        using Inr False ok assms by (auto simp: get_free_port_def xsm_alloc_ok_def)
      have lt: "p < MAX_EVTCHNS d"
      proof (rule ccontr)
        assume "\<not> ?thesis"
        then have "MAX_EVTCHNS d < p" using ok by simp
        then have "port_is_valid d (MAX_EVTCHNS d)" using p(2) by simp
        then show False by (simp add: port_is_valid_def)
      qed
      then have none: "buckets d (p div EVTCHNS_PER_BUCKET) = None"
        using p(1) by (auto simp: port_is_valid_def bucket_from_port_def)
      have max: "MAX_EVTCHNS ?d = MAX_EVTCHNS d" by (simp add: MAX_EVTCHNS_def BITS_PER_EVTCHN_WORD_def)
      have "chan ?d q = chan d q \<or> chan d q = None \<and> chan ?d q = Some zero_evtchn" for q
        using none
        by (auto simp: chan_def port_is_valid_def evtchn_from_port_def bucket_from_port_def max)
      then have "grown (view d) (view ?d)"
        by (auto simp: grown_def view_def max intro!: exI [of _ "chan ?d"])
      moreover have "chan ?d p = Some zero_evtchn"
        using lt by (simp add: chan_def port_is_valid_def evtchn_from_port_def bucket_from_port_def max)
      moreover have "contiguous (chan ?d)" if "contiguous (chan d)"
      proof (rule contiguous_bucket [OF that _ none])
        show "\<forall>q<p. chan d q \<noteq> None" using p(2) by (auto simp: port_is_valid_iff)
      qed (rule refl)
      ultimately show ?thesis using res False by (simp add: same_rest_def zero_evtchn_def)
    qed
  qed
qed (use assms in \<open>auto simp: get_free_port_def same_rest_def\<close>)

section \<open>The invariant of a domain\<close>

text \<open>
  A segment of a list of physical-interrupt ports: from predecessor \<open>a\<close> and port \<open>h\<close>, through the
  ports of the list, to predecessor \<open>a'\<close> and port \<open>h'\<close>.
\<close>

fun pirq_seg :: "(nat \<Rightarrow> evtchn option) \<Rightarrow> nat \<Rightarrow> nat \<Rightarrow> nat list \<Rightarrow> nat \<Rightarrow> nat \<Rightarrow> bool" where
  "pirq_seg C a h [] a' h' \<longleftrightarrow> a' = a \<and> h' = h"
| "pirq_seg C a h (q # qs) a' h' \<longleftrightarrow> h = q \<and> q \<noteq> 0 \<and>
     (\<exists>c irq n. C q = Some c \<and> ec_state c = ECS_PIRQ irq n a \<and> pirq_seg C q n qs a' h')"

definition pirq_list :: "(nat \<Rightarrow> evtchn option) \<Rightarrow> nat \<Rightarrow> nat list \<Rightarrow> bool" where
  "pirq_list C h ps \<longleftrightarrow> distinct ps \<and> (\<exists>a. pirq_seg C 0 h ps a 0)"

definition pirq_ports :: "(nat \<Rightarrow> evtchn option) \<Rightarrow> nat \<Rightarrow> nat set" where
  "pirq_ports C v = {p. \<exists>c. C p = Some c \<and> is_ECS_PIRQ (ec_state c) \<and> notify_vcpu_id c = v}"

definition inv_port0 :: "ev_view \<Rightarrow> bool" where
  "inv_port0 V \<longleftrightarrow> (\<forall>c. vw_chan V 0 = Some c \<longrightarrow> ec_state c = ECS_RESERVED) \<and>
     (\<not> vw_dying V \<longrightarrow> vw_chan V 0 \<noteq> None) \<and> vw_ports V \<le> 4096 \<and>
     (\<forall>p. vw_chan V p \<noteq> None \<longrightarrow> p < vw_ports V) \<and> contiguous (vw_chan V)"

definition inv_free :: "ev_view \<Rightarrow> bool" where
  "inv_free V \<longleftrightarrow> (\<forall>p c. vw_chan V p = Some c \<and> ec_state c = ECS_FREE \<longrightarrow>
     \<not> consumer_is_xen c \<and> notify_vcpu_id c = 0)"

definition inv_notify :: "ev_view \<Rightarrow> bool" where
  "inv_notify V \<longleftrightarrow> (\<forall>p c. vw_chan V p = Some c \<longrightarrow>
     (notify_vcpu_id c = 0 \<and> \<not> is_ECS_PIRQ (ec_state c)) \<or> vw_vcpu V (notify_vcpu_id c) \<noteq> None)"

definition inv_virq :: "ev_view \<Rightarrow> bool" where
  "inv_virq V \<longleftrightarrow>
     (\<forall>v t h vi. vw_vcpu V v = Some (t, h) \<and> t vi \<noteq> 0 \<longrightarrow>
        (\<exists>c. vw_chan V (t vi) = Some c \<and> ec_state c = ECS_VIRQ vi)) \<and>
     (\<forall>p c vi. vw_chan V p = Some c \<and> ec_state c = ECS_VIRQ vi \<longrightarrow>
        (\<exists>v t h. vw_vcpu V v = Some (t, h) \<and> t vi = p))"

definition inv_pirq :: "ev_view \<Rightarrow> bool" where
  "inv_pirq V \<longleftrightarrow>
     (\<forall>irq. vw_pirq V irq \<noteq> 0 \<longrightarrow>
        (\<exists>c n a. vw_chan V (vw_pirq V irq) = Some c \<and> ec_state c = ECS_PIRQ irq n a)) \<and>
     (\<forall>p c irq n a. vw_chan V p = Some c \<and> ec_state c = ECS_PIRQ irq n a \<longrightarrow> vw_pirq V irq = p)"

definition inv_lists :: "ev_view \<Rightarrow> bool" where
  "inv_lists V \<longleftrightarrow> (\<forall>v t h. vw_vcpu V v = Some (t, h) \<longrightarrow>
     (\<exists>ps. pirq_list (vw_chan V) h ps \<and> set ps = pirq_ports (vw_chan V) v))"

definition inv_vcpus :: "ev_view \<Rightarrow> bool" where
  "inv_vcpus V \<longleftrightarrow> (\<forall>i. vw_poll V i \<and> i < vw_max V \<longrightarrow> vw_vcpu V i \<noteq> None) \<and>
     (\<forall>i. vw_vcpu V i \<noteq> None \<longrightarrow> i < vw_max V)"

definition view_inv :: "ev_view \<Rightarrow> bool" where
  "view_inv V \<longleftrightarrow> inv_port0 V \<and> inv_free V \<and> inv_notify V \<and> inv_virq V \<and> inv_pirq V \<and> inv_lists V \<and>
     inv_vcpus V"

lemmas view_inv_defs = inv_port0_def inv_free_def inv_notify_def inv_virq_def inv_pirq_def inv_vcpus_def

subsection \<open>Lists of ports\<close>

lemma pirq_seg_cong:
  "(\<And>q. q \<in> set qs \<Longrightarrow> C' q = C q) \<Longrightarrow> pirq_seg C' a h qs a' h' = pirq_seg C a h qs a' h'"
  by (induction qs arbitrary: a h) auto

lemma pirq_list_cong:
  "(\<And>q. q \<in> set qs \<Longrightarrow> C' q = C q) \<Longrightarrow> pirq_list C' h qs = pirq_list C h qs"
  using pirq_seg_cong [of qs C' C] by (simp add: pirq_list_def)

lemma pirq_seg_append:
  "pirq_seg C a h (xs @ ys) a' h' \<longleftrightarrow> (\<exists>m k. pirq_seg C a h xs m k \<and> pirq_seg C m k ys a' h')"
  by (induction xs arbitrary: a h) (auto, blast+)

lemma pirq_seg_mem:
  "pirq_seg C a h qs a' h' \<Longrightarrow> q \<in> set qs \<Longrightarrow> \<exists>c. C q = Some c \<and> is_ECS_PIRQ (ec_state c) \<and> q \<noteq> 0"
  by (induction qs arbitrary: a h) auto

lemma pirq_seg_last:
  "pirq_seg C a h qs a' h' \<Longrightarrow> a' = (if qs = [] then a else last qs)"
  by (induction qs arbitrary: a h) auto

lemma pirq_seg_head:
  "pirq_seg C a h qs a' h' \<Longrightarrow> h = (if qs = [] then h' else hd qs)"
  by (cases qs) auto

lemma set_next_simps [simp]:
  "ec_state c = ECS_PIRQ irq n a \<Longrightarrow> ec_state (set_next_port m c) = ECS_PIRQ irq m a"
  "notify_vcpu_id (set_next_port m c) = notify_vcpu_id c"
  "consumer_is_xen (set_next_port m c) = consumer_is_xen c"
  "is_ECS_PIRQ (ec_state (set_next_port m c)) = is_ECS_PIRQ (ec_state c)"
  by (auto simp: set_next_port_def split: ecs.splits)

lemma set_prev_simps [simp]:
  "ec_state c = ECS_PIRQ irq n a \<Longrightarrow> ec_state (set_prev_port m c) = ECS_PIRQ irq n m"
  "notify_vcpu_id (set_prev_port m c) = notify_vcpu_id c"
  "consumer_is_xen (set_prev_port m c) = consumer_is_xen c"
  "is_ECS_PIRQ (ec_state (set_prev_port m c)) = is_ECS_PIRQ (ec_state c)"
  by (auto simp: set_prev_port_def split: ecs.splits)

text \<open>Changing the end of a segment, and its start.\<close>

lemma pirq_seg_set_next:
  assumes "pirq_seg C a h (xs @ [m]) m k" "distinct (xs @ [m])"
  shows "pirq_seg (C(m := map_option (set_next_port n) (C m))) a h (xs @ [m]) m n"
proof -
  have "pirq_seg (C(m := map_option (set_next_port n) (C m))) a h xs b j = pirq_seg C a h xs b j" for b j
    by (rule pirq_seg_cong) (use assms(2) in auto)
  then show ?thesis using assms(1) by (auto simp: pirq_seg_append)
qed

lemma pirq_seg_set_prev:
  assumes "pirq_seg C a k (k # ys) a' h'" "k \<notin> set ys"
  shows "pirq_seg (C(k := map_option (set_prev_port b) (C k))) b k (k # ys) a' h'"
proof -
  have "pirq_seg (C(k := map_option (set_prev_port b) (C k))) k n ys a' h' = pirq_seg C k n ys a' h'" for n
    by (rule pirq_seg_cong) (use assms(2) in auto)
  then show ?thesis using assms(1) by auto
qed

subsection \<open>Changes that keep the invariant\<close>

text \<open>States that take no part in the interrupt tables.\<close>

fun plain :: "ecs \<Rightarrow> bool" where
  "plain ECS_FREE = True"
| "plain (ECS_UNBOUND _) = True"
| "plain (ECS_INTERDOMAIN _ _) = True"
| "plain ECS_IPI = True"
| "plain _ = False"

lemma plainD: "plain s \<Longrightarrow> s \<noteq> ECS_RESERVED \<and> \<not> is_ECS_PIRQ s \<and> s \<noteq> ECS_VIRQ vi \<and> s \<noteq> ECS_PIRQ irq n a"
  by (cases s) auto

lemma is_PIRQ_iff: "is_ECS_PIRQ s \<longleftrightarrow> (\<exists>irq n a. s = ECS_PIRQ irq n a)"
  by (cases s) auto

lemma pirq_ports_upd:
  "C p = Some c \<Longrightarrow> (is_ECS_PIRQ (ec_state c') \<and> notify_vcpu_id c' = v \<longleftrightarrow>
      is_ECS_PIRQ (ec_state c) \<and> notify_vcpu_id c = v) \<Longrightarrow>
   pirq_ports (C(p \<mapsto> c')) v = pirq_ports C v"
  by (auto simp: pirq_ports_def)

lemma inv_listsD:
  assumes "inv_lists V" "vw_vcpu V v = Some (t, h)"
  obtains ps where "pirq_list (vw_chan V) h ps" "set ps = pirq_ports (vw_chan V) v"
  using assms unfolding inv_lists_def by blast

lemma inv_lists_upd:
  assumes "inv_lists V" "vw_chan V p = Some c" "\<not> is_ECS_PIRQ (ec_state c)" "\<not> is_ECS_PIRQ (ec_state c')"
  shows "inv_lists (V\<lparr>vw_chan := (vw_chan V)(p \<mapsto> c')\<rparr>)"
  unfolding inv_lists_def
proof (intro allI impI)
  let ?C = "(vw_chan V)(p \<mapsto> c')"
  fix v t h assume "vw_vcpu (V\<lparr>vw_chan := ?C\<rparr>) v = Some (t, h)"
  then have "vw_vcpu V v = Some (t, h)" by simp
  with assms(1) obtain ps where ps: "pirq_list (vw_chan V) h ps" "set ps = pirq_ports (vw_chan V) v"
    by (rule inv_listsD)
  have "p \<notin> set ps" using ps(2) assms(2,3) by (auto simp: pirq_ports_def)
  then have "pirq_list ?C h ps = pirq_list (vw_chan V) h ps" by (intro pirq_list_cong) auto
  then have "pirq_list ?C h ps" using ps(1) by simp
  moreover have "pirq_ports ?C v = pirq_ports (vw_chan V) v"
    by (rule pirq_ports_upd [where c = c]) (use assms(2-4) in simp_all)
  ultimately show "\<exists>ps. pirq_list (vw_chan (V\<lparr>vw_chan := ?C\<rparr>)) h ps \<and>
      set ps = pirq_ports (vw_chan (V\<lparr>vw_chan := ?C\<rparr>)) v"
    using ps(2) by auto
qed

lemma inv_virqD:
  assumes "inv_virq V"
  shows "vw_vcpu V v = Some (t, h) \<Longrightarrow> t vi \<noteq> 0 \<Longrightarrow> \<exists>c. vw_chan V (t vi) = Some c \<and> ec_state c = ECS_VIRQ vi"
    and "vw_chan V p = Some c \<Longrightarrow> ec_state c = ECS_VIRQ vi \<Longrightarrow> \<exists>v t h. vw_vcpu V v = Some (t, h) \<and> t vi = p"
  using assms unfolding inv_virq_def by blast+

lemma inv_virqI:
  assumes "\<And>v t h vi. vw_vcpu V v = Some (t, h) \<Longrightarrow> t vi \<noteq> 0 \<Longrightarrow>
      \<exists>c. vw_chan V (t vi) = Some c \<and> ec_state c = ECS_VIRQ vi"
    and "\<And>p c vi. vw_chan V p = Some c \<Longrightarrow> ec_state c = ECS_VIRQ vi \<Longrightarrow>
      \<exists>v t h. vw_vcpu V v = Some (t, h) \<and> t vi = p"
  shows "inv_virq V"
  using assms unfolding inv_virq_def by blast

lemma inv_virq_upd:
  assumes "inv_virq V" "vw_chan V p = Some c" "\<And>vi. ec_state c = ECS_VIRQ vi \<longleftrightarrow> ec_state c' = ECS_VIRQ vi"
  shows "inv_virq (V\<lparr>vw_chan := (vw_chan V)(p \<mapsto> c')\<rparr>)"
proof (rule inv_virqI, goal_cases)
  case (1 v t h vi)
  then obtain c0 where "vw_chan V (t vi) = Some c0" "ec_state c0 = ECS_VIRQ vi"
    using inv_virqD(1) [OF assms(1), of v t h vi] by auto
  with assms(2) assms(3) [of vi] show ?case by (cases "t vi = p") simp_all
next
  case (2 q c0 vi)
  then have "\<exists>c1. vw_chan V q = Some c1 \<and> ec_state c1 = ECS_VIRQ vi"
    using assms(2) assms(3) [of vi] by (cases "q = p") simp_all
  with inv_virqD(2) [OF assms(1), of q _ vi] show ?case by auto
qed

lemma inv_pirqD:
  assumes "inv_pirq V"
  shows "vw_pirq V irq \<noteq> 0 \<Longrightarrow> \<exists>c n a. vw_chan V (vw_pirq V irq) = Some c \<and> ec_state c = ECS_PIRQ irq n a"
    and "vw_chan V p = Some c \<Longrightarrow> ec_state c = ECS_PIRQ irq n a \<Longrightarrow> vw_pirq V irq = p"
  using assms unfolding inv_pirq_def by blast+

lemma inv_pirqI:
  assumes "\<And>irq. vw_pirq V irq \<noteq> 0 \<Longrightarrow>
      \<exists>c n a. vw_chan V (vw_pirq V irq) = Some c \<and> ec_state c = ECS_PIRQ irq n a"
    and "\<And>p c irq n a. vw_chan V p = Some c \<Longrightarrow> ec_state c = ECS_PIRQ irq n a \<Longrightarrow> vw_pirq V irq = p"
  shows "inv_pirq V"
  using assms unfolding inv_pirq_def by blast

lemma inv_pirq_upd:
  assumes "inv_pirq V" "vw_chan V p = Some c" "\<not> is_ECS_PIRQ (ec_state c)" "\<not> is_ECS_PIRQ (ec_state c')"
  shows "inv_pirq (V\<lparr>vw_chan := (vw_chan V)(p \<mapsto> c')\<rparr>)"
proof (rule inv_pirqI, goal_cases)
  case (1 irq)
  then obtain c0 n a where "vw_chan V (vw_pirq V irq) = Some c0" "ec_state c0 = ECS_PIRQ irq n a"
    using inv_pirqD(1) [OF assms(1), of irq] by auto
  with assms(2,3) show ?case by (cases "vw_pirq V irq = p") simp_all
next
  case (2 q c0 irq n a)
  with assms(4) have "vw_chan V q = Some c0" by (cases "q = p") auto
  with 2 inv_pirqD(2) [OF assms(1), of q c0 irq n a] show ?case by simp
qed

lemma inv_port0_upd:
  assumes "inv_port0 V" "vw_chan V p = Some c" "ec_state c \<noteq> ECS_RESERVED"
  shows "inv_port0 (V\<lparr>vw_chan := (vw_chan V)(p \<mapsto> c')\<rparr>)" "p \<noteq> 0"
proof -
  show "p \<noteq> 0"
  proof
    assume "p = 0"
    with assms show False by (simp add: inv_port0_def)
  qed
  then show "inv_port0 (V\<lparr>vw_chan := (vw_chan V)(p \<mapsto> c')\<rparr>)" using assms by (auto simp: inv_port0_def contiguous_upd)
qed

text \<open>A channel changes between states that take no part in the interrupt tables.\<close>

lemma inv_plain:
  assumes inv: "view_inv V" and c: "vw_chan V p = Some c" "plain (ec_state c)" "plain (ec_state c')"
    and free: "ec_state c' = ECS_FREE \<Longrightarrow> \<not> consumer_is_xen c' \<and> notify_vcpu_id c' = 0"
    and notify: "notify_vcpu_id c' = 0 \<or> vw_vcpu V (notify_vcpu_id c') \<noteq> None"
  shows "view_inv (V\<lparr>vw_chan := (vw_chan V)(p \<mapsto> c')\<rparr>)"
  unfolding view_inv_def
proof (intro conjI)
  note i = inv [unfolded view_inv_def]
  have pl: "ec_state c \<noteq> ECS_RESERVED" "\<not> is_ECS_PIRQ (ec_state c)" "\<not> is_ECS_PIRQ (ec_state c')"
    "\<And>vi. ec_state c = ECS_VIRQ vi \<longleftrightarrow> ec_state c' = ECS_VIRQ vi"
    using plainD [OF c(2)] plainD [OF c(3)] by blast+
  let ?V = "V\<lparr>vw_chan := (vw_chan V)(p \<mapsto> c')\<rparr>"
  show "inv_port0 ?V" using inv_port0_upd(1) [OF _ c(1) pl(1)] i by blast
  show "inv_free ?V" using i free by (auto simp: inv_free_def)
  show "inv_notify ?V" using i notify pl(3) by (auto simp: inv_notify_def)
  show "inv_virq ?V" using inv_virq_upd [OF _ c(1) pl(4)] i by blast
  show "inv_pirq ?V" using inv_pirq_upd [OF _ c(1) pl(2,3)] i by blast
  show "inv_lists ?V" using inv_lists_upd [OF _ c(1) pl(2,3)] i by blast
  show "inv_vcpus ?V" using i by (simp add: inv_vcpus_def)
qed

text \<open>New buckets hold free channels.\<close>

lemma grown_lists:
  assumes old: "\<And>q c. vw_chan V q = Some c \<Longrightarrow> C q = Some c" and l: "pirq_list (vw_chan V) h ps"
  shows "pirq_list C h ps"
proof -
  obtain a where a: "pirq_seg (vw_chan V) 0 h ps a 0" using l by (auto simp: pirq_list_def)
  have "C q = vw_chan V q" if "q \<in> set ps" for q using pirq_seg_mem [OF a that] old by auto
  then have "pirq_list C h ps = pirq_list (vw_chan V) h ps" by (rule pirq_list_cong)
  with l show ?thesis by simp
qed

lemma grown_irqs:
  assumes old: "\<And>q c. vw_chan V q = Some c \<Longrightarrow> C q = Some c" and new: "\<And>q c. C q = Some c \<Longrightarrow> vw_chan V q = Some c \<or> c = zero_evtchn"
  shows "inv_virq V \<Longrightarrow> inv_virq (V\<lparr>vw_chan := C\<rparr>)" "inv_pirq V \<Longrightarrow> inv_pirq (V\<lparr>vw_chan := C\<rparr>)"
proof -
  assume i: "inv_virq V"
  show "inv_virq (V\<lparr>vw_chan := C\<rparr>)"
  proof (rule inv_virqI, goal_cases)
    case (1 v t h vi)
    with inv_virqD(1) [OF i, of v t h vi] old show ?case by auto
  next
    case (2 p c vi)
    with inv_virqD(2) [OF i, of p c vi] new [of p c] show ?case by (auto simp: zero_evtchn_def)
  qed
next
  assume i: "inv_pirq V"
  show "inv_pirq (V\<lparr>vw_chan := C\<rparr>)"
  proof (rule inv_pirqI, goal_cases)
    case (1 irq)
    with inv_pirqD(1) [OF i, of irq] old show ?case by auto
  next
    case (2 p c irq n a)
    with inv_pirqD(2) [OF i, of p c irq n a] new [of p c] show ?case by (auto simp: zero_evtchn_def)
  qed
qed

lemma inv_grown:
  assumes inv: "view_inv V" and g: "grown V V'" and "\<not> vw_dying V" "\<forall>p. vw_chan V' p \<noteq> None \<longrightarrow> p < vw_ports V"
    "contiguous (vw_chan V')"
  shows "view_inv V'"
proof -
  obtain C where C: "V' = V\<lparr>vw_chan := C\<rparr>"
    "\<And>q. C q = vw_chan V q \<or> (vw_chan V q = None \<and> C q = Some zero_evtchn)"
    using g by (auto simp: grown_def)
  have old: "\<And>q c. vw_chan V q = Some c \<Longrightarrow> C q = Some c" using C(2) by (metis option.distinct(1))
  have new: "\<And>q c. C q = Some c \<Longrightarrow> vw_chan V q = Some c \<or> c = zero_evtchn" using C(2) by (metis option.inject)
  have "vw_chan V 0 \<noteq> None" using inv assms(3) by (auto simp: view_inv_def inv_port0_def)
  then have "C 0 = vw_chan V 0" using C(2) [of 0] by auto
  note i = inv [unfolded view_inv_def]
  have ports: "pirq_ports C v = pirq_ports (vw_chan V) v" for v
    using old new unfolding pirq_ports_def by (force simp: zero_evtchn_def)
  have lists: "pirq_list C h ps" if "pirq_list (vw_chan V) h ps" for h ps by (rule grown_lists [OF _ that]) (rule old)
  have irqs: "inv_virq (V\<lparr>vw_chan := C\<rparr>)" "inv_pirq (V\<lparr>vw_chan := C\<rparr>)"
    using grown_irqs [of V C] old new i by blast+
  show ?thesis
    unfolding view_inv_def C(1)
  proof (intro conjI)
    show "inv_port0 (V\<lparr>vw_chan := C\<rparr>)"
      using i assms(4,5) \<open>C 0 = vw_chan V 0\<close> by (simp add: inv_port0_def C(1))
    show "inv_free (V\<lparr>vw_chan := C\<rparr>)"
      using i new unfolding inv_free_def by (fastforce simp: zero_evtchn_def)
    show "inv_notify (V\<lparr>vw_chan := C\<rparr>)"
      unfolding inv_notify_def
    proof (intro allI impI)
      fix p c assume "vw_chan (V\<lparr>vw_chan := C\<rparr>) p = Some c"
      then have "vw_chan V p = Some c \<or> c = zero_evtchn" using new by simp
      then show "(notify_vcpu_id c = 0 \<and> \<not> is_ECS_PIRQ (ec_state c)) \<or>
          vw_vcpu (V\<lparr>vw_chan := C\<rparr>) (notify_vcpu_id c) \<noteq> None"
        using i unfolding inv_notify_def by (auto simp: zero_evtchn_def)
    qed
    show "inv_lists (V\<lparr>vw_chan := C\<rparr>)"
      using i lists unfolding inv_lists_def by (simp add: ports) blast
    show "inv_vcpus (V\<lparr>vw_chan := C\<rparr>)" using i by (simp add: inv_vcpus_def)
  qed (rule irqs)+
qed

lemma inv_poll:
  "view_inv V \<Longrightarrow> (\<And>i. P i \<Longrightarrow> vw_poll V i) \<Longrightarrow> view_inv (V\<lparr>vw_poll := P\<rparr>)"
  by (auto simp: view_inv_def view_inv_defs inv_lists_def)

subsection \<open>Virtual interrupts\<close>

lemma inv_virq_bind:
  assumes inv: "view_inv V" and c: "vw_chan V p = Some c" "ec_state c = ECS_FREE"
    and v: "vw_vcpu V vc = Some (t, h)" "t vi = 0"
  shows "view_inv (V\<lparr>vw_chan := (vw_chan V)(p \<mapsto> c\<lparr>ec_state := ECS_VIRQ vi, notify_vcpu_id := vc\<rparr>),
    vw_vcpu := (vw_vcpu V)(vc \<mapsto> (t(vi := p), h))\<rparr>)" (is "view_inv ?V")
  unfolding view_inv_def
proof (intro conjI)
  note i = inv [unfolded view_inv_def]
  let ?c = "c\<lparr>ec_state := ECS_VIRQ vi, notify_vcpu_id := vc\<rparr>"
  let ?U = "V\<lparr>vw_chan := (vw_chan V)(p \<mapsto> ?c)\<rparr>"
  have p0: "p \<noteq> 0" and port0: "inv_port0 ?U" using inv_port0_upd(1) [of V p c ?c] inv_port0_upd(2) [of V p c] i c by auto
  then show "inv_port0 ?V" by (simp add: inv_port0_def)
  show "inv_free ?V" using i by (auto simp: inv_free_def)
  show "inv_notify ?V" using i by (auto simp: inv_notify_def)
  show "inv_virq ?V"
  proof (rule inv_virqI, goal_cases)
    case (1 v t' h' vj)
    show ?case
    proof (cases "v = vc \<and> vj = vi")
      case False
      with 1 v obtain t0 where t0: "vw_vcpu V v = Some (t0, h')" "t0 vj = t' vj"
        by (cases "v = vc") auto
      with 1 i obtain c0 where "vw_chan V (t' vj) = Some c0" "ec_state c0 = ECS_VIRQ vj"
        using inv_virqD(1) [of V v t0 h' vj] by auto
      with c show ?thesis by (cases "t' vj = p") auto
    qed (use 1 in auto)
  next
    case (2 q c0 vj)
    show ?case
    proof (cases "q = p")
      case True
      with 2 show ?thesis by auto
    next
      case False
      with 2 i obtain v t' h' where v': "vw_vcpu V v = Some (t', h')" "t' vj = q"
        using inv_virqD(2) [of V q c0 vj] by auto
      have "q \<noteq> 0" using inv_port0_upd(2) [of V q c0] 2 False i by auto
      then have "\<not> (v = vc \<and> vj = vi)" using v v' by auto
      with v v' show ?thesis
        by (cases "v = vc") (auto intro!: exI [of _ v] split: if_splits)
    qed
  qed
  have "inv_pirq ?U" "inv_lists ?U"
    using inv_pirq_upd [of V p c ?c] inv_lists_upd [of V p c ?c] i c by auto
  then show "inv_pirq ?V" "inv_lists ?V"
    using v by (auto simp: inv_pirq_def inv_lists_def)
  show "inv_vcpus ?V" using i v by (auto simp: inv_vcpus_def)
qed

lemma inv_virq_close:
  assumes inv: "view_inv V" and c: "vw_chan V p = Some c" "ec_state c = ECS_VIRQ vi"
    and c': "ec_state c' = ECS_FREE" "\<not> consumer_is_xen c'" "notify_vcpu_id c' = 0"
  shows "view_inv (V\<lparr>vw_chan := (vw_chan V)(p \<mapsto> c'),
    vw_vcpu := (\<lambda>v. map_option (\<lambda>(t, h). (if t vi = p then t(vi := 0) else t, h)) (vw_vcpu V v))\<rparr>)"
    (is "view_inv ?V")
  unfolding view_inv_def
proof (intro conjI)
  note i = inv [unfolded view_inv_def]
  let ?U = "V\<lparr>vw_chan := (vw_chan V)(p \<mapsto> c')\<rparr>"
  have p0: "p \<noteq> 0" and "inv_port0 ?U"
    using inv_port0_upd(1) [of V p c c'] inv_port0_upd(2) [of V p c] i c by auto
  then show "inv_port0 ?V" by (simp add: inv_port0_def)
  show "inv_free ?V" using i c' by (auto simp: inv_free_def)
  show "inv_notify ?V" using i c' by (auto simp: inv_notify_def)
  show "inv_virq ?V"
  proof (rule inv_virqI, goal_cases)
    case (1 v t' h' vj)
    then obtain t where t: "vw_vcpu V v = Some (t, h')" "t' = (if t vi = p then t(vi := 0) else t)" by auto
    with 1 have eq: "t' vj = t vj" "t vj \<noteq> 0" by (auto split: if_splits)
    with t i obtain c0 where c0: "vw_chan V (t vj) = Some c0" "ec_state c0 = ECS_VIRQ vj"
      using inv_virqD(1) [of V v t h' vj] by auto
    have "t vj \<noteq> p" using c0 c eq(1) t(2) p0 by (auto split: if_splits)
    with c0 eq show ?case by auto
  next
    case (2 q c0 vj)
    with c' have q: "q \<noteq> p" "vw_chan V q = Some c0" by (auto split: if_splits)
    with 2 i obtain v t h where v: "vw_vcpu V v = Some (t, h)" "t vj = q"
      using inv_virqD(2) [of V q c0 vj] by auto
    with q(1) show ?case by (intro exI [of _ v] exI [of _ "if t vi = p then t(vi := 0) else t"] exI [of _ h]) auto
  qed
  have "inv_pirq ?U" "inv_lists ?U"
    using inv_pirq_upd [of V p c c'] inv_lists_upd [of V p c c'] i c c' by auto
  then show "inv_pirq ?V" "inv_lists ?V"
    by (auto simp: inv_pirq_def inv_lists_def)
  show "inv_vcpus ?V" using i by (auto simp: inv_vcpus_def)
qed

text \<open>Binding a virtual interrupt to another vcpu changes only where it is delivered.\<close>

lemma inv_virq_rebind:
  assumes inv: "view_inv V" and c: "vw_chan V p = Some c" "ec_state c = ECS_VIRQ vi"
    and v: "vw_vcpu V vc \<noteq> None"
  shows "view_inv (V\<lparr>vw_chan := (vw_chan V)(p \<mapsto> c\<lparr>notify_vcpu_id := vc\<rparr>)\<rparr>)" (is "view_inv ?V")
  unfolding view_inv_def
proof (intro conjI)
  note i = inv [unfolded view_inv_def]
  show "inv_port0 ?V" using inv_port0_upd(1) [of V p c] i c by auto
  show "inv_free ?V" using i c by (auto simp: inv_free_def)
  show "inv_notify ?V" using i v by (auto simp: inv_notify_def)
  show "inv_virq ?V" using inv_virq_upd [of V p c] i c by auto
  show "inv_pirq ?V" using inv_pirq_upd [of V p c] i c by auto
  show "inv_lists ?V" using inv_lists_upd [of V p c] i c by auto
  show "inv_vcpus ?V" using i by (simp add: inv_vcpus_def)
qed

subsection \<open>Physical interrupts\<close>

lemma pirq_seg_0: "pirq_seg C a 0 qs a' h' \<Longrightarrow> qs = []"
  by (cases qs) auto

lemma pirq_list_link:
  assumes l: "pirq_list C h ps" and p: "p \<noteq> 0" "p \<notin> set ps"
    and c: "ec_state c = ECS_PIRQ irq h 0"
  defines "C' \<equiv> C(p \<mapsto> c)"
  shows "pirq_list (if h = 0 then C' else C'(h := map_option (set_prev_port p) (C' h))) p (p # ps)"
proof (cases ps)
  case Nil
  with l have "h = 0" by (simp add: pirq_list_def)
  with Nil p c show ?thesis by (simp add: pirq_list_def C'_def)
next
  case (Cons q qs)
  obtain a where a: "pirq_seg C 0 h ps a 0" and d: "distinct ps" using l by (auto simp: pirq_list_def)
  then have h: "h = q" "h \<noteq> 0" using Cons by auto
  have "pirq_seg C' 0 h ps a 0 = pirq_seg C 0 h ps a 0"
    by (rule pirq_seg_cong) (use p in \<open>auto simp: C'_def\<close>)
  then have "pirq_seg (C'(h := map_option (set_prev_port p) (C' h))) p h ps a 0"
    using pirq_seg_set_prev [of C' 0 h qs a 0 p] a Cons h d by simp
  moreover have "h \<noteq> p" using p(2) Cons h by auto
  ultimately show ?thesis using p c h d by (auto simp: pirq_list_def C'_def)
qed

lemma pirq_list_unlink:
  assumes l: "pirq_list C h (xs @ p # ys)" and c: "C p = Some c" "ec_state c = ECS_PIRQ irq n a"
  defines "C1 \<equiv> (if a = 0 then C else C(a := map_option (set_next_port n) (C a)))"
  defines "C2 \<equiv> (if n = 0 then C1 else C1(n := map_option (set_prev_port a) (C1 n)))"
  shows "pirq_list (C2(p \<mapsto> c')) (if a = 0 then n else h) (xs @ ys)"
proof -
  let ?C = "C2(p \<mapsto> c')"
  obtain e where e: "pirq_seg C 0 h (xs @ p # ys) e 0" and d: "distinct (xs @ p # ys)"
    using l by (auto simp: pirq_list_def)
  then have x: "pirq_seg C 0 h xs a p" and y: "pirq_seg C p n ys e 0"
    using c by (auto simp: pirq_seg_append)
  have a: "a = (if xs = [] then 0 else last xs)" by (rule pirq_seg_last [OF x])
  have n: "n = (if ys = [] then 0 else hd ys)" by (rule pirq_seg_head [OF y])
  have a0: "a = 0 \<longleftrightarrow> xs = []" using a pirq_seg_mem [OF x, of "last xs"] by auto
  have n0: "n = 0 \<longleftrightarrow> ys = []" using n pirq_seg_mem [OF y, of "hd ys"] by auto
  have nx: "n \<notin> set xs" if "ys \<noteq> []" using n d that by (cases ys) auto
  have ay: "a \<notin> set ys" if "xs \<noteq> []" using a d that by (cases xs rule: rev_cases) auto
  have left: "pirq_seg ?C 0 (if a = 0 then n else h) xs a n"
  proof (cases xs rule: rev_cases)
    case Nil
    then show ?thesis using a by simp
  next
    case (snoc xs0 m)
    then have m: "m = a" "a \<noteq> 0" using a a0 by auto
    then have "pirq_seg (C(a := map_option (set_next_port n) (C a))) 0 h xs a n"
      using pirq_seg_set_next [of C 0 h xs0 a p n] x d snoc by simp
    moreover have "pirq_seg ?C 0 h xs a n = pirq_seg (C(a := map_option (set_next_port n) (C a))) 0 h xs a n"
      by (rule pirq_seg_cong) (use d nx n0 m in \<open>auto simp: C2_def C1_def\<close>)
    ultimately show ?thesis using m by simp
  qed
  have right: "pirq_seg ?C a n ys (if ys = [] then a else e) 0"
  proof (cases ys)
    case Nil
    then show ?thesis using n by simp
  next
    case (Cons m ys0)
    then have m: "m = n" "n \<noteq> 0" using n n0 by auto
    then have "pirq_seg (C(n := map_option (set_prev_port a) (C n))) a n ys e 0"
      using pirq_seg_set_prev [of C p n ys0 e 0 a] y d Cons by simp
    moreover have "pirq_seg ?C a n ys e 0 = pirq_seg (C(n := map_option (set_prev_port a) (C n))) a n ys e 0"
      by (rule pirq_seg_cong) (use d ay a0 m Cons in \<open>auto simp: C2_def C1_def\<close>)
    moreover have "ys \<noteq> []" using Cons by simp
    ultimately show ?thesis by simp
  qed
  from left right d show ?thesis by (auto simp: pirq_list_def pirq_seg_append)
qed

text \<open>Channels of a set of physical-interrupt ports may change their links, and nothing else.\<close>

definition relinked :: "(nat \<Rightarrow> evtchn option) \<Rightarrow> (nat \<Rightarrow> evtchn option) \<Rightarrow> nat set \<Rightarrow> bool" where
  "relinked C C' S \<longleftrightarrow> (\<forall>q. q \<notin> S \<longrightarrow> C' q = C q) \<and>
     (\<forall>q\<in>S. \<exists>c c' i n a n' a'. C q = Some c \<and> C' q = Some c' \<and> ec_state c = ECS_PIRQ i n a \<and>
        ec_state c' = ECS_PIRQ i n' a' \<and> consumer_is_xen c' = consumer_is_xen c \<and>
        notify_vcpu_id c' = notify_vcpu_id c)"

definition all_pirq :: "(nat \<Rightarrow> evtchn option) \<Rightarrow> nat set \<Rightarrow> bool" where
  "all_pirq C S \<longleftrightarrow> (\<forall>q\<in>S. \<exists>c i n a. C q = Some c \<and> ec_state c = ECS_PIRQ i n a)"

lemma relinked_refl: "all_pirq C S \<Longrightarrow> relinked C C S"
  unfolding relinked_def all_pirq_def by blast

lemma relinked_all_pirq: "relinked C C' S \<Longrightarrow> all_pirq C' S"
  unfolding relinked_def all_pirq_def by blast

lemma relinked_trans:
  assumes "relinked C C1 S" "relinked C1 C2 S"
  shows "relinked C C2 S"
  unfolding relinked_def
proof (intro conjI allI impI ballI)
  fix q assume "q \<in> S"
  then obtain c c1 i n a n1 a1 where 1: "C q = Some c" "C1 q = Some c1" "ec_state c = ECS_PIRQ i n a"
    "ec_state c1 = ECS_PIRQ i n1 a1" "consumer_is_xen c1 = consumer_is_xen c"
    "notify_vcpu_id c1 = notify_vcpu_id c"
    using assms(1) unfolding relinked_def by blast
  from \<open>q \<in> S\<close> obtain d c2 i2 n' a' n2 a2 where 2: "C1 q = Some d" "C2 q = Some c2"
    "ec_state d = ECS_PIRQ i2 n' a'" "ec_state c2 = ECS_PIRQ i2 n2 a2"
    "consumer_is_xen c2 = consumer_is_xen d" "notify_vcpu_id c2 = notify_vcpu_id d"
    using assms(2) unfolding relinked_def by blast
  from 1(2) 2(1) have "d = c1" by simp
  with 1 2 show "\<exists>c c' i n a n' a'. C q = Some c \<and> C2 q = Some c' \<and> ec_state c = ECS_PIRQ i n a \<and>
        ec_state c' = ECS_PIRQ i n' a' \<and> consumer_is_xen c' = consumer_is_xen c \<and>
        notify_vcpu_id c' = notify_vcpu_id c" by auto
qed (use assms in \<open>auto simp: relinked_def\<close>)

lemma relinked_upd:
  assumes "all_pirq C S" "q \<in> S"
  shows "relinked C (C(q := map_option (set_next_port n) (C q))) S"
    and "relinked C (C(q := map_option (set_prev_port n) (C q))) S"
  using assms unfolding relinked_def all_pirq_def by fastforce+

lemma relinked_mem:
  assumes "relinked C C' S" "C' q = Some c'"
  obtains c where "C q = Some c" "consumer_is_xen c' = consumer_is_xen c"
    "notify_vcpu_id c' = notify_vcpu_id c" "is_ECS_PIRQ (ec_state c') = is_ECS_PIRQ (ec_state c)"
    "\<not> is_ECS_PIRQ (ec_state c) \<Longrightarrow> c' = c"
    "\<And>i n a. ec_state c' = ECS_PIRQ i n a \<Longrightarrow> \<exists>n' a'. ec_state c = ECS_PIRQ i n' a'"
proof (cases "q \<in> S")
  case True
  then obtain c c1 i n a n1 a1 where "C q = Some c" "C' q = Some c1" "ec_state c = ECS_PIRQ i n a"
    "ec_state c1 = ECS_PIRQ i n1 a1" "consumer_is_xen c1 = consumer_is_xen c"
    "notify_vcpu_id c1 = notify_vcpu_id c"
    using assms(1) unfolding relinked_def by blast
  with assms(2) show ?thesis by (intro that [of c]) auto
next
  case False
  with assms show ?thesis by (intro that [of c']) (auto simp: relinked_def)
qed

lemma relinked_sym: "relinked C C' S \<Longrightarrow> relinked C' C S"
  unfolding relinked_def by (auto; metis)

lemma relinked_ports_subset:
  assumes "relinked C C' S"
  shows "pirq_ports C' v \<subseteq> pirq_ports C v"
proof
  fix q assume "q \<in> pirq_ports C' v"
  then obtain c' where c': "C' q = Some c'" "is_ECS_PIRQ (ec_state c')" "notify_vcpu_id c' = v"
    by (auto simp: pirq_ports_def)
  from assms c'(1) show "q \<in> pirq_ports C v"
    by (rule relinked_mem) (use c' in \<open>auto simp: pirq_ports_def\<close>)
qed

lemma relinked_ports: "relinked C C' S \<Longrightarrow> pirq_ports C' v = pirq_ports C v"
  using relinked_ports_subset [of C C' S v] relinked_ports_subset [OF relinked_sym, of C C' S v] by blast

lemma relinked_None: "relinked C C' S \<Longrightarrow> C' q = None \<longleftrightarrow> C q = None"
  by (metis option.exhaust option.distinct(1) relinked_mem relinked_sym)

lemma inv_relinked_virq:
  assumes "view_inv V" "relinked (vw_chan V) C S" "U = V\<lparr>vw_chan := C\<rparr>"
  shows "inv_virq U"
proof (rule inv_virqI, goal_cases)
  case (1 v t h vi)
  then obtain c where c: "vw_chan V (t vi) = Some c" "ec_state c = ECS_VIRQ vi"
    using assms(1) [unfolded view_inv_def] inv_virqD(1) [of V v t h vi] assms(3) by auto
  show ?case
    by (rule relinked_mem [OF relinked_sym [OF assms(2)] c(1)]) (use c assms(3) in auto)
next
  case (2 p c vi)
  then have c: "C p = Some c" using assms(3) by simp
  show ?case
    by (rule relinked_mem [OF assms(2) c]) (use 2 assms(1) [unfolded view_inv_def] inv_virqD(2) [of V p c vi] assms(3) in auto)
qed

lemma inv_relinked_pirq:
  assumes "view_inv V" "relinked (vw_chan V) C S" "U = V\<lparr>vw_chan := C\<rparr>"
  shows "inv_pirq U"
proof (rule inv_pirqI, goal_cases)
  case (1 irq)
  then obtain c n a where c: "vw_chan V (vw_pirq V irq) = Some c" "ec_state c = ECS_PIRQ irq n a"
    using assms(1) [unfolded view_inv_def] inv_pirqD(1) [of V irq] assms(3) by auto
  show ?case
  proof (cases "vw_pirq V irq \<in> S")
    case True
    then show ?thesis using assms(2,3) c unfolding relinked_def by fastforce
  next
    case False
    then show ?thesis using assms(2,3) c by (auto simp: relinked_def)
  qed
next
  case (2 p c irq n a)
  then have c: "C p = Some c" using assms(3) by simp
  show ?case
  proof (rule relinked_mem [OF assms(2) c])
    fix c0 assume c0: "vw_chan V p = Some c0"
      and "\<And>i n a. ec_state c = ECS_PIRQ i n a \<Longrightarrow> \<exists>n' a'. ec_state c0 = ECS_PIRQ i n' a'"
    then obtain n' a' where "ec_state c0 = ECS_PIRQ irq n' a'" using 2 by blast
    with c0 show ?thesis using assms(1) [unfolded view_inv_def] inv_pirqD(2) [of V p c0 irq n' a'] assms(3) by simp
  qed
qed

lemma inv_relinked:
  assumes "view_inv V" "relinked (vw_chan V) C S" "U = V\<lparr>vw_chan := C\<rparr>"
  shows "inv_port0 U" "inv_free U" "inv_notify U" "inv_virq U" "inv_pirq U" "inv_vcpus U"
proof -
  note i = assms(1) [unfolded view_inv_def]
  note mem = relinked_mem [OF assms(2)]
  show "inv_port0 U"
    unfolding inv_port0_def
  proof (intro conjI allI impI)
    fix c assume "vw_chan U 0 = Some c"
    then have c: "C 0 = Some c" using assms(3) by simp
    show "ec_state c = ECS_RESERVED"
      by (rule mem [OF c]) (use i in \<open>auto simp: inv_port0_def\<close>)
  next
    show "contiguous (vw_chan U)"
      using i contiguous_cong [of C "vw_chan V"] relinked_None [OF assms(2)] assms(3) by (simp add: inv_port0_def)
  qed (use i relinked_None [OF assms(2)] assms(3) in \<open>auto simp: inv_port0_def\<close>)
  show "inv_free U"
    unfolding inv_free_def
  proof (intro allI impI, elim conjE)
    fix p c assume "vw_chan U p = Some c" and f: "ec_state c = ECS_FREE"
    then have c: "C p = Some c" using assms(3) by simp
    show "\<not> consumer_is_xen c \<and> notify_vcpu_id c = 0"
      by (rule mem [OF c]) (use i f in \<open>auto simp: inv_free_def\<close>)
  qed
  show "inv_notify U"
    unfolding inv_notify_def
  proof (intro allI impI)
    fix p c assume "vw_chan U p = Some c"
    then have c: "C p = Some c" using assms(3) by simp
    show "(notify_vcpu_id c = 0 \<and> \<not> is_ECS_PIRQ (ec_state c)) \<or> vw_vcpu U (notify_vcpu_id c) \<noteq> None"
      by (rule mem [OF c]) (use i assms(3) in \<open>auto simp: inv_notify_def\<close>)
  qed
  show "inv_vcpus U" using i assms(3) by (simp add: inv_vcpus_def)
qed (rule inv_relinked_virq [OF assms] inv_relinked_pirq [OF assms])+

lemma pirq_list_neighbours:
  assumes "pirq_list C h (xs @ p # ys)" "C p = Some c" "ec_state c = ECS_PIRQ irq n a"
  shows "a \<noteq> 0 \<Longrightarrow> a \<in> set xs" "n \<noteq> 0 \<Longrightarrow> n \<in> set ys"
proof -
  obtain e where "pirq_seg C 0 h (xs @ p # ys) e 0" using assms(1) by (auto simp: pirq_list_def)
  then have x: "pirq_seg C 0 h xs a p" and y: "pirq_seg C p n ys e 0"
    using assms(2,3) by (auto simp: pirq_seg_append)
  show "a \<noteq> 0 \<Longrightarrow> a \<in> set xs" "n \<noteq> 0 \<Longrightarrow> n \<in> set ys"
    using pirq_seg_last [OF x] pirq_seg_head [OF y] by (auto split: if_splits)
qed

lemma inv_virq_cong:
  "vw_chan V = vw_chan V' \<Longrightarrow> vw_vcpu V = vw_vcpu V' \<Longrightarrow> inv_virq V = inv_virq V'"
  by (simp add: inv_virq_def)

lemma inv_virq_head:
  assumes "inv_virq V" "vw_vcpu V v = Some (t, h)"
  shows "inv_virq (V\<lparr>vw_vcpu := (vw_vcpu V)(v \<mapsto> (t, h'))\<rparr>)"
proof (rule inv_virqI, goal_cases)
  case (1 v' t' k vi)
  then obtain k' where "vw_vcpu V v' = Some (t', k')" using assms(2) by (cases "v' = v") auto
  with 1 inv_virqD(1) [OF assms(1), of v' t' k' vi] show ?case by simp
next
  case (2 p c vi)
  then obtain v' t' k where "vw_vcpu V v' = Some (t', k)" "t' vi = p"
    using inv_virqD(2) [OF assms(1), of p c vi] by auto
  with assms(2) show ?case by (cases "v' = v") auto
qed

text \<open>The lists after a change confined to the ports \<open>S\<close> of one vcpu and a port \<open>p\<close> that joins or leaves.\<close>

lemma inv_lists_one:
  assumes lists: "inv_lists V" and rel: "relinked (vw_chan V) C (set ps)"
    and v: "vw_vcpu V v = Some (t, h)" "set ps = pirq_ports (vw_chan V) v"
    and p: "\<And>w. w \<noteq> v \<Longrightarrow> p \<notin> pirq_ports (vw_chan V) w"
      "is_ECS_PIRQ (ec_state c') \<Longrightarrow> notify_vcpu_id c' = v"
    and new: "pirq_list (C(p \<mapsto> c')) h' ps'" "set ps' = pirq_ports (C(p \<mapsto> c')) v"
  shows "inv_lists (V\<lparr>vw_chan := C(p \<mapsto> c'), vw_vcpu := (vw_vcpu V)(v \<mapsto> (t, h')), vw_pirq := P\<rparr>)"
  unfolding inv_lists_def
proof (intro allI impI)
  let ?V = "V\<lparr>vw_chan := C(p \<mapsto> c'), vw_vcpu := (vw_vcpu V)(v \<mapsto> (t, h')), vw_pirq := P\<rparr>"
  fix w t' k assume w: "vw_vcpu ?V w = Some (t', k)"
  show "\<exists>qs. pirq_list (vw_chan ?V) k qs \<and> set qs = pirq_ports (vw_chan ?V) w"
  proof (cases "w = v")
    case True
    with w new show ?thesis by auto
  next
    case False
    with w lists obtain qs where qs: "pirq_list (vw_chan V) k qs" "set qs = pirq_ports (vw_chan V) w"
      using inv_listsD [of V w t' k] by auto
    have "set qs \<inter> set ps = {}" using qs(2) v(2) False by (auto simp: pirq_ports_def)
    moreover have "p \<notin> set qs" using p(1) [OF False] qs(2) by simp
    ultimately have "pirq_list (C(p \<mapsto> c')) k qs = pirq_list (vw_chan V) k qs"
      by (intro pirq_list_cong) (use rel in \<open>auto simp: relinked_def\<close>)
    moreover have "pirq_ports (C(p \<mapsto> c')) w = pirq_ports (vw_chan V) w"
    proof -
      have "pirq_ports (C(p \<mapsto> c')) w = pirq_ports C w - {p}"
        using p(2) False by (auto simp: pirq_ports_def)
      with relinked_ports [OF rel, of w] p(1) [OF False] show ?thesis by simp
    qed
    ultimately show ?thesis using qs by auto
  qed
qed

text \<open>A port leaves or joins the list of a vcpu: everything but the interrupt table.\<close>

lemma view_inv_replaced:
  assumes inv: "view_inv V" and rel: "relinked (vw_chan V) C (set ps)" and p: "vw_chan V p = Some c" "C p = Some c"
    and st: "ec_state c \<noteq> ECS_RESERVED" "\<And>vi. ec_state c \<noteq> ECS_VIRQ vi" "\<And>vi. ec_state c' \<noteq> ECS_VIRQ vi"
    and free: "ec_state c' = ECS_FREE \<Longrightarrow> \<not> consumer_is_xen c' \<and> notify_vcpu_id c' = 0"
    and notify: "is_ECS_PIRQ (ec_state c') \<Longrightarrow> notify_vcpu_id c' = vc" "\<not> is_ECS_PIRQ (ec_state c') \<Longrightarrow> notify_vcpu_id c' = 0"
      "is_ECS_PIRQ (ec_state c) \<Longrightarrow> notify_vcpu_id c = vc"
    and v: "vw_vcpu V vc = Some (t, h)" "set ps = pirq_ports (vw_chan V) vc"
    and new: "pirq_list (C(p \<mapsto> c')) h' ps'" "set ps' = pirq_ports (C(p \<mapsto> c')) vc"
    and tab: "inv_pirq (V\<lparr>vw_chan := C(p \<mapsto> c'), vw_vcpu := (vw_vcpu V)(vc \<mapsto> (t, h')), vw_pirq := P\<rparr>)"
  shows "view_inv (V\<lparr>vw_chan := C(p \<mapsto> c'), vw_vcpu := (vw_vcpu V)(vc \<mapsto> (t, h')), vw_pirq := P\<rparr>)" (is "view_inv ?V")
  unfolding view_inv_def
proof (intro conjI)
  note u = inv_relinked [OF inv rel refl]
  show "inv_port0 ?V" using inv_port0_upd(1) [OF u(1), of p c c'] p st(1) by (simp add: inv_port0_def)
  show "inv_free ?V" using u(2) free by (auto simp: inv_free_def)
  show "inv_notify ?V" using u(3) notify v(1) by (auto simp: inv_notify_def)
  have "inv_virq (V\<lparr>vw_chan := C(p \<mapsto> c')\<rparr>)" using inv_virq_upd [OF u(4), of p c c'] p st by simp
  then have "inv_virq (V\<lparr>vw_chan := C(p \<mapsto> c'), vw_vcpu := (vw_vcpu V)(vc \<mapsto> (t, h'))\<rparr>)"
    using inv_virq_head [of "V\<lparr>vw_chan := C(p \<mapsto> c')\<rparr>" vc t h] v(1) by simp
  then show "inv_virq ?V" by (rule inv_virq_cong [THEN iffD1, rotated -1]) simp_all
  have "inv_lists V" using inv by (simp add: view_inv_def)
  moreover have "p \<notin> pirq_ports (vw_chan V) w" if "w \<noteq> vc" for w using that p(1) notify(3) by (auto simp: pirq_ports_def)
  ultimately show "inv_lists ?V" using inv_lists_one [OF _ rel v _ notify(1) new] by blast
  show "inv_vcpus ?V" using u(6) v(1) by (auto simp: inv_vcpus_def)
qed (rule tab)

lemma inv_pirq_removed:
  assumes "inv_pirq U" "vw_chan U p = Some c" "ec_state c = ECS_PIRQ irq n a" "ec_state c' = ECS_FREE" "vw_pirq U irq = p"
  shows "inv_pirq (U\<lparr>vw_chan := (vw_chan U)(p \<mapsto> c'), vw_vcpu := X, vw_pirq := (vw_pirq U)(irq := 0)\<rparr>)"
proof (rule inv_pirqI, goal_cases)
  case (1 j)
  then have j: "j \<noteq> irq" "vw_pirq U j \<noteq> 0" by (auto split: if_splits)
  with inv_pirqD(1) [OF assms(1) j(2)] assms(2,3) show ?case by auto
next
  case (2 q c0 j m b)
  then have q: "q \<noteq> p" "vw_chan U q = Some c0" using assms(4) by (auto split: if_splits)
  with assms(5) inv_pirqD(2) [OF assms(1) q(2) 2(2)] show ?case by auto
qed

lemma inv_pirq_added:
  assumes "inv_pirq U" "inv_port0 U" "vw_chan U p = Some c" "ec_state c = ECS_FREE" "ec_state c' = ECS_PIRQ irq n a" "vw_pirq U irq = 0"
  shows "inv_pirq (U\<lparr>vw_chan := (vw_chan U)(p \<mapsto> c'), vw_vcpu := X, vw_pirq := (vw_pirq U)(irq := p)\<rparr>)"
proof (rule inv_pirqI, goal_cases)
  case (1 j)
  show ?case
  proof (cases "j = irq")
    case False
    with 1 inv_pirqD(1) [OF assms(1), of j] assms(3,4) show ?thesis by auto
  qed (use assms(5) in auto)
next
  case (2 q c0 j m b)
  show ?case
  proof (cases "q = p")
    case True
    with 2 assms(5) show ?thesis by auto
  next
    case False
    with 2 have q: "vw_chan U q = Some c0" by simp
    have "q \<noteq> 0" using inv_port0_upd(2) [OF assms(2) q] 2(2) by simp
    with inv_pirqD(2) [OF assms(1) q 2(2)] assms(6) show ?thesis by auto
  qed
qed

lemma inv_pirq_unlink:
  assumes inv: "view_inv V" and c: "vw_chan V p = Some c" "ec_state c = ECS_PIRQ irq n a"
    and c': "ec_state c' = ECS_FREE" "\<not> consumer_is_xen c'" "notify_vcpu_id c' = 0"
    and v: "vw_vcpu V (notify_vcpu_id c) = Some (t, h)"
  defines "C1 \<equiv> (if a = 0 then vw_chan V else (vw_chan V)(a := map_option (set_next_port n) (vw_chan V a)))"
  defines "C2 \<equiv> (if n = 0 then C1 else C1(n := map_option (set_prev_port a) (C1 n)))"
  shows "view_inv (V\<lparr>vw_chan := C2(p \<mapsto> c'),
    vw_vcpu := (vw_vcpu V)(notify_vcpu_id c \<mapsto> (t, if a = 0 then n else h)),
    vw_pirq := (vw_pirq V)(irq := 0)\<rparr>)" (is "view_inv ?V")
proof -
  note i = inv [unfolded view_inv_def]
  let ?v = "notify_vcpu_id c" and ?U = "V\<lparr>vw_chan := C2\<rparr>"
  obtain ps where ps: "pirq_list (vw_chan V) h ps" "set ps = pirq_ports (vw_chan V) ?v"
    using inv_listsD [OF _ v] i by blast
  have "p \<in> set ps" using ps(2) c by (auto simp: pirq_ports_def)
  then obtain xs ys where xy: "ps = xs @ p # ys" by (meson split_list)
  have d: "distinct (xs @ p # ys)" using ps(1) xy by (simp add: pirq_list_def)
  note nb = pirq_list_neighbours [OF ps(1) [unfolded xy] c]
  have "all_pirq (vw_chan V) (set ps)"
    unfolding ps(2) all_pirq_def pirq_ports_def is_PIRQ_iff by auto
  then have 1: "relinked (vw_chan V) C1 (set ps)"
    using nb(1) xy relinked_refl relinked_upd(1) by (auto simp: C1_def)
  then have "relinked C1 C2 (set ps)"
    using nb(2) xy relinked_refl relinked_upd(2) relinked_all_pirq [OF 1] by (auto simp: C2_def)
  with 1 have rel: "relinked (vw_chan V) C2 (set ps)" by (rule relinked_trans)
  note u = inv_relinked [OF inv rel refl]
  have p2: "C2 p = Some c" using c nb d by (auto simp: C2_def C1_def)
  have l: "pirq_list (C2(p \<mapsto> c')) (if a = 0 then n else h) (xs @ ys)"
    unfolding C2_def C1_def by (rule pirq_list_unlink [OF ps(1) [unfolded xy] c])
  have "pirq_ports (C2(p \<mapsto> c')) ?v = pirq_ports C2 ?v - {p}" using c' by (auto simp: pirq_ports_def)
  then have set: "set (xs @ ys) = pirq_ports (C2(p \<mapsto> c')) ?v"
    using relinked_ports [OF rel, of ?v] ps(2) xy d by auto
  have "inv_pirq (?U\<lparr>vw_chan := (vw_chan ?U)(p \<mapsto> c'), vw_vcpu := (vw_vcpu V)(?v \<mapsto> (t, if a = 0 then n else h)), vw_pirq := (vw_pirq ?U)(irq := 0)\<rparr>)"
    by (rule inv_pirq_removed [OF u(5) _ c(2) c'(1)]) (use p2 c i inv_pirqD(2) [of V p c irq n a] in auto)
  then show ?thesis
    by (intro view_inv_replaced [OF inv rel c(1) p2 _ _ _ _ _ _ _ v ps(2) l set]) (use c c' in simp_all)
qed

lemma inv_pirq_link:
  assumes inv: "view_inv V" and c: "vw_chan V p = Some c" "ec_state c = ECS_FREE"
    and v: "vw_vcpu V vc = Some (t, h)" and irq: "vw_pirq V irq = 0"
    and c': "ec_state c' = ECS_PIRQ irq h 0" "notify_vcpu_id c' = vc"
  defines "C \<equiv> (if h = 0 then vw_chan V else (vw_chan V)(h := map_option (set_prev_port p) (vw_chan V h)))"
  shows "view_inv (V\<lparr>vw_chan := C(p \<mapsto> c'), vw_vcpu := (vw_vcpu V)(vc \<mapsto> (t, p)),
    vw_pirq := (vw_pirq V)(irq := p)\<rparr>)" (is "view_inv ?V")
    and "h \<noteq> p" and "h \<noteq> 0 \<Longrightarrow> vw_chan V h \<noteq> None"
proof -
  note i = inv [unfolded view_inv_def]
  let ?U = "V\<lparr>vw_chan := C\<rparr>"
  obtain ps where ps: "pirq_list (vw_chan V) h ps" "set ps = pirq_ports (vw_chan V) vc"
    using inv_listsD [OF _ v] i by blast
  have pps: "p \<notin> set ps" using ps(2) c by (auto simp: pirq_ports_def)
  have p0: "p \<noteq> 0" using inv_port0_upd(2) [of V p c] i c by simp
  obtain e where e: "pirq_seg (vw_chan V) 0 h ps e 0" using ps(1) by (auto simp: pirq_list_def)
  have h: "h \<noteq> 0 \<Longrightarrow> h \<in> set ps" using pirq_seg_head [OF e] by (auto split: if_splits)
  then show hp: "h \<noteq> p" and "h \<noteq> 0 \<Longrightarrow> vw_chan V h \<noteq> None"
    using pps p0 ps(2) by (auto simp: pirq_ports_def)
  have "all_pirq (vw_chan V) (set ps)"
    unfolding ps(2) all_pirq_def pirq_ports_def is_PIRQ_iff by auto
  then have rel: "relinked (vw_chan V) C (set ps)"
    using h relinked_refl relinked_upd(2) by (auto simp: C_def)
  note u = inv_relinked [OF inv rel refl]
  have cp: "C p = Some c" using c hp by (simp add: C_def)
  have "(if h = 0 then (vw_chan V)(p \<mapsto> c') else ((vw_chan V)(p \<mapsto> c'))(h := map_option (set_prev_port p)
      (((vw_chan V)(p \<mapsto> c')) h))) = C(p \<mapsto> c')"
    using hp by (auto simp: C_def)
  then have l: "pirq_list (C(p \<mapsto> c')) p (p # ps)"
    using pirq_list_link [OF ps(1) p0 pps c'(1)] by simp
  have "pirq_ports (C(p \<mapsto> c')) vc = insert p (pirq_ports C vc)" using c' by (auto simp: pirq_ports_def)
  then have set: "set (p # ps) = pirq_ports (C(p \<mapsto> c')) vc"
    using relinked_ports [OF rel, of vc] ps(2) by simp
  have "inv_pirq (?U\<lparr>vw_chan := (vw_chan ?U)(p \<mapsto> c'), vw_vcpu := (vw_vcpu V)(vc \<mapsto> (t, p)), vw_pirq := (vw_pirq ?U)(irq := p)\<rparr>)"
    by (rule inv_pirq_added [OF u(5,1) _ c(2) c'(1)]) (use cp irq in simp_all)
  then show "view_inv ?V"
    by (intro view_inv_replaced [OF inv rel c(1) cp _ _ _ _ _ _ _ v ps(2) l set]) (use c c' in simp_all)
qed

end
