(* ===== verification/Evtchn_Ops.thy ===== *)
theory Evtchn_Ops
  imports Evtchn_Inv
begin

text \<open>
  Every operation of the event-channel component returns (no \<^verbatim>\<open>BUG\<close>, no null pointer) and keeps
  the invariant of the hypervisor, and what it does when it succeeds.
\<close>

section \<open>Raising events\<close>

text \<open>A change that the invariant does not see, except that fewer vcpus may poll.\<close>

definition quiet :: "ev_domain \<Rightarrow> ev_domain \<Rightarrow> bool" where
  "quiet d d' \<longleftrightarrow> (\<exists>P. view d' = (view d)\<lparr>vw_poll := P\<rparr> \<and> (\<forall>i. P i \<longrightarrow> poll_mask d i))"

lemma quiet_refl [simp]: "quiet d d"
  by (auto simp: quiet_def intro!: exI [of _ "poll_mask d"] simp: view_def)

lemma quiet_trans: "quiet d d1 \<Longrightarrow> quiet d1 d2 \<Longrightarrow> quiet d d2"
  by (fastforce simp: quiet_def view_def)

lemma quiet_inv: "quiet d d' \<Longrightarrow> view_inv (view d) \<Longrightarrow> view_inv (view d')"
  by (auto simp: quiet_def intro!: inv_poll)

lemma quiet_chan: "quiet d d' \<Longrightarrow> chan d' = chan d"
  by (auto simp: quiet_def view_def)

lemma quiet_vcpu:
  assumes "quiet d d'"
  shows "vcpu d' v = None \<longleftrightarrow> vcpu d v = None"
proof -
  obtain P where "view d' = (view d)\<lparr>vw_poll := P\<rparr>" using assms by (auto simp: quiet_def)
  then have "vw_vcpu (view d') v = vw_vcpu (view d) v" by simp
  then show ?thesis by (cases "vcpu d v"; cases "vcpu d' v") auto
qed

text \<open>Changes of fields the view does not contain.\<close>

lemma quiet_fields:
  "quiet d (emit x d)" "quiet d (d\<lparr>evtchn_pending := P\<rparr>)" "quiet d (d\<lparr>evtchn_mask := P\<rparr>)"
  by (auto simp: quiet_def view_def emit_def chan_def port_is_valid_def evtchn_from_port_def
      bucket_from_port_def MAX_EVTCHNS_def BITS_PER_EVTCHN_WORD_def fun_eq_iff intro!: exI [of _ "poll_mask d"])

lemma upd_vcpu_quiet:
  assumes "vcpu d v = Some x" "\<And>x. virq_to_evtchn (f x) = virq_to_evtchn x" "\<And>x. pirq_evtchn_head (f x) = pirq_evtchn_head x"
  obtains d' where "upd_vcpu d v f = Some d'" "quiet d d'" "vcpu d' v = Some (f x)"
    "evtchn_pending d' = evtchn_pending d" "evtchn_mask d' = evtchn_mask d" "is_hvm_domain d' = is_hvm_domain d"
    "poll_mask d' = poll_mask d" "max_vcpus d' = max_vcpus d"
proof -
  let ?d = "d\<lparr>vcpu := (vcpu d)(v \<mapsto> f x)\<rparr>"
  have "quiet d ?d"
    using assms
    by (auto simp: quiet_def view_def chan_def port_is_valid_def evtchn_from_port_def
      bucket_from_port_def MAX_EVTCHNS_def BITS_PER_EVTCHN_WORD_def fun_eq_iff intro!: exI [of _ "poll_mask d"])
  then show ?thesis by (intro that [of ?d]) (simp_all add: upd_vcpu_def assms(1))
qed

lemma mark_pending_quiet:
  assumes "vcpu d v \<noteq> None"
  obtains d' where "vcpu_mark_events_pending d v = Some d'" "quiet d d'"
    "evtchn_pending d' = evtchn_pending d" "evtchn_mask d' = evtchn_mask d"
    "poll_mask d' = poll_mask d" "max_vcpus d' = max_vcpus d"
proof -
  obtain x where x: "vcpu d v = Some x" using assms by blast
  show ?thesis
  proof (cases "evtchn_upcall_pending x")
    case True
    with x show ?thesis by (intro that [of d]) (simp_all add: vcpu_mark_events_pending_def)
  next
    case False
    obtain d1 where d1: "upd_vcpu d v (\<lambda>x. x\<lparr>evtchn_upcall_pending := True\<rparr>) = Some d1" "quiet d d1"
      "evtchn_pending d1 = evtchn_pending d" "evtchn_mask d1 = evtchn_mask d"
      "poll_mask d1 = poll_mask d" "max_vcpus d1 = max_vcpus d"
      by (rule upd_vcpu_quiet [OF x, of "\<lambda>x. x\<lparr>evtchn_upcall_pending := True\<rparr>"]) auto
    let ?d = "emit (if is_hvm_domain d1 then Assert_evtchn_irq v else Vcpu_kick v) d1"
    have "quiet d ?d" by (rule quiet_trans [OF d1(2) quiet_fields(1)])
    with x False d1 show ?thesis
      by (intro that [of ?d]) (simp_all add: vcpu_mark_events_pending_def emit_def)
  qed
qed

lemma select_word_quiet:
  assumes "vcpu d v \<noteq> None"
  obtains d' where "select_word d v port = Some d'" "quiet d d'"
    "evtchn_pending d' = evtchn_pending d" "evtchn_mask d' = evtchn_mask d"
    "poll_mask d' = poll_mask d" "max_vcpus d' = max_vcpus d"
proof -
  obtain x where x: "vcpu d v = Some x" using assms by blast
  let ?i = "port div BITS_PER_EVTCHN_WORD d"
  show ?thesis
  proof (cases "evtchn_pending_sel x ?i")
    case True
    with x show ?thesis by (intro that [of d]) (simp_all add: select_word_def)
  next
    case False
    let ?f = "\<lambda>x. x\<lparr>evtchn_pending_sel := (evtchn_pending_sel x)(?i := True)\<rparr>"
    obtain d1 where d1: "upd_vcpu d v ?f = Some d1" "quiet d d1" "vcpu d1 v = Some (?f x)"
      "evtchn_pending d1 = evtchn_pending d" "evtchn_mask d1 = evtchn_mask d"
      "poll_mask d1 = poll_mask d" "max_vcpus d1 = max_vcpus d"
      by (rule upd_vcpu_quiet [OF x, of ?f]) auto
    then have "vcpu d1 v \<noteq> None" by simp
    then obtain d2 where d2: "vcpu_mark_events_pending d1 v = Some d2" "quiet d1 d2"
      "evtchn_pending d2 = evtchn_pending d1" "evtchn_mask d2 = evtchn_mask d1"
      "poll_mask d2 = poll_mask d1" "max_vcpus d2 = max_vcpus d1"
      by (rule mark_pending_quiet)
    have "select_word d v port = Some d2" using x False d1(1) d2(1) by (simp add: select_word_def)
    then show ?thesis using d1 d2 quiet_trans by (intro that [of d2]) auto
  qed
qed

lemma wake_pollers_quiet:
  assumes "\<And>i. i \<in> set is \<Longrightarrow> poll_mask d i \<Longrightarrow> vcpu d i \<noteq> None"
  shows "\<exists>d'. wake_pollers d port is = Some d' \<and> quiet d d' \<and> evtchn_pending d' = evtchn_pending d \<and>
    evtchn_mask d' = evtchn_mask d"
  using assms
proof (induction d port "is" rule: wake_pollers.induct)
  case (2 d port i "is")
  show ?case
  proof (cases "poll_mask d i")
    case False
    with 2 show ?thesis by simp
  next
    case True
    with 2(4) obtain v where v: "vcpu d i = Some v" by auto
    show ?thesis
    proof (cases "poll_evtchn v \<le> 0 \<or> poll_evtchn v = int port")
      case False
      with 2(3) [OF _ v] 2(4) True v show ?thesis by simp
    next
      case wake: True
      let ?d = "emit (Vcpu_unblock i) (d\<lparr>poll_mask := (poll_mask d)(i := False),
                     vcpu := (vcpu d)(i \<mapsto> v\<lparr>poll_evtchn := 0\<rparr>)\<rparr>)"
      have q: "quiet d ?d"
        using v
        by (auto simp: quiet_def view_def emit_def chan_def port_is_valid_def evtchn_from_port_def
          bucket_from_port_def MAX_EVTCHNS_def BITS_PER_EVTCHN_WORD_def fun_eq_iff
          split: if_splits intro!: exI [of _ "(poll_mask d)(i := False)"])
      have "\<exists>d'. wake_pollers ?d port is = Some d' \<and> quiet ?d d' \<and> evtchn_pending d' = evtchn_pending ?d \<and>
          evtchn_mask d' = evtchn_mask ?d"
        by (rule 2(2)) (use 2(4) True v wake in \<open>auto simp: emit_def split: if_splits\<close>)
      then show ?thesis using True v wake quiet_trans [OF q] by (auto simp: emit_def)
    qed
  qed
qed simp

lemma set_pending_quiet:
  assumes "vcpu d v \<noteq> None" "inv_vcpus (view d)"
  obtains b d' where "evtchn_set_pending d v port = Some (b, d')" "quiet d d'"
    "evtchn_pending d' = (evtchn_pending d)(port := True)" "evtchn_mask d' = evtchn_mask d"
    "b \<longleftrightarrow> evtchn_pending d port"
proof (cases "evtchn_pending d port")
  case True
  obtain x where "vcpu d v = Some x" using assms(1) by blast
  with True show ?thesis
    by (intro that [of True d]) (auto simp: evtchn_set_pending_def fun_eq_iff)
next
  case False
  obtain x where x: "vcpu d v = Some x" using assms(1) by blast
  let ?d = "d\<lparr>evtchn_pending := (evtchn_pending d)(port := True)\<rparr>"
  have q: "quiet d ?d" by (rule quiet_fields)
  have "\<exists>d2. (if \<not> evtchn_mask ?d port then select_word ?d v port else Some ?d) = Some d2 \<and> quiet ?d d2 \<and>
      evtchn_pending d2 = evtchn_pending ?d \<and> evtchn_mask d2 = evtchn_mask ?d \<and>
      poll_mask d2 = poll_mask d \<and> max_vcpus d2 = max_vcpus d"
    by (rule select_word_quiet [of ?d v port]) (use x in auto)
  then obtain d2 where d2: "(if \<not> evtchn_mask ?d port then select_word ?d v port else Some ?d) = Some d2"
    "quiet ?d d2" "evtchn_pending d2 = evtchn_pending ?d" "evtchn_mask d2 = evtchn_mask ?d"
    "poll_mask d2 = poll_mask d" "max_vcpus d2 = max_vcpus d" by blast
  have q2: "quiet d d2" by (rule quiet_trans [OF q d2(2)])
  show ?thesis
  proof (cases "\<forall>i < max_vcpus d2. \<not> poll_mask d2 i")
    case True
    with x False d2 q2 show ?thesis
      by (intro that [of False d2]) (simp_all add: evtchn_set_pending_def Let_def)
  next
    case poll: False
    have "\<exists>d'. wake_pollers d2 port [0..<max_vcpus d2] = Some d' \<and> quiet d2 d' \<and>
        evtchn_pending d' = evtchn_pending d2 \<and> evtchn_mask d' = evtchn_mask d2"
      by (rule wake_pollers_quiet)
        (use assms(2) d2 quiet_vcpu [OF q2] in \<open>auto simp: inv_vcpus_def\<close>)
    then obtain d3 where d3: "wake_pollers d2 port [0..<max_vcpus d2] = Some d3" "quiet d2 d3"
        "evtchn_pending d3 = evtchn_pending d2" "evtchn_mask d3 = evtchn_mask d2" by blast
    have "evtchn_set_pending d v port = Some (False, d3)"
      using x False d2(1) poll d3(1) by (auto simp: evtchn_set_pending_def Let_def)
    with False d2(3,4) d3 quiet_trans [OF q2] show ?thesis by (intro that [of False d3]) simp_all
  qed
qed

section \<open>The invariant of the hypervisor\<close>

text \<open>The other end of a channel, for every port of every domain.\<close>

definition link_of :: "evtchn \<Rightarrow> (domid \<times> nat) option" where
  "link_of c = (case ec_state c of ECS_INTERDOMAIN j q \<Rightarrow> Some (j, q) | _ \<Rightarrow> None)"

definition dlinks :: "ev_domain \<Rightarrow> nat \<Rightarrow> (domid \<times> nat) option" where
  "dlinks d p = Option.bind (chan d p) link_of"

definition links :: "ev_world \<Rightarrow> domid \<Rightarrow> nat \<Rightarrow> (domid \<times> nat) option" where
  "links w i p = Option.bind (w i) (\<lambda>d. dlinks d p)"

definition peers :: "(domid \<Rightarrow> nat \<Rightarrow> (domid \<times> nat) option) \<Rightarrow> bool" where
  "peers L \<longleftrightarrow> (\<forall>i p j q. L i p = Some (j, q) \<longrightarrow> L j q = Some (i, p))"

definition dom_inv :: "ev_domain \<Rightarrow> bool" where
  "dom_inv d \<longleftrightarrow> view_inv (view d) \<and> vcpu d 0 \<noteq> None"

definition world_inv :: "ev_world \<Rightarrow> bool" where
  "world_inv w \<longleftrightarrow> (\<forall>i d. w i = Some d \<longrightarrow> dom_inv d) \<and> peers (links w)"

definition ok :: "('a \<times> ev_world) option \<Rightarrow> bool" where
  "ok r \<longleftrightarrow> (\<exists>x w. r = Some (x, w) \<and> world_inv w)"

lemma okI [intro]: "world_inv w \<Longrightarrow> ok (Some (x, w))"
  by (auto simp: ok_def)

lemma ok_map [simp]: "ok (map_option (\<lambda>(x, w). (f x, w)) r) \<longleftrightarrow> ok r"
  by (cases r) (auto simp: ok_def)

lemma ok_Pair: "r = Some w \<Longrightarrow> world_inv w \<Longrightarrow> ok (map_option (Pair x) r)"
  by (auto simp: ok_def)

lemma link_of_simps [simp]:
  "ec_state c = ECS_INTERDOMAIN j q \<Longrightarrow> link_of c = Some (j, q)"
  "\<not> is_ECS_INTERDOMAIN (ec_state c) \<Longrightarrow> link_of c = None"
  by (auto simp: link_of_def split: ecs.split)

lemma link_of_SomeD: "link_of c = Some (j, q) \<Longrightarrow> ec_state c = ECS_INTERDOMAIN j q"
  by (auto simp: link_of_def split: ecs.splits)

lemma links_upd: "links (w(i \<mapsto> d)) = (links w)(i := dlinks d)"
  by (auto simp: links_def fun_eq_iff)

lemma links_at: "w i = Some d \<Longrightarrow> links w i = dlinks d"
  by (simp add: links_def fun_eq_iff)

lemma world_invD: "world_inv w \<Longrightarrow> w i = Some d \<Longrightarrow> dom_inv d"
  by (simp add: world_inv_def)

lemma world_inv_upd:
  assumes "world_inv w" "w i = Some d" "dom_inv d'" "dlinks d' = dlinks d"
  shows "world_inv (w(i \<mapsto> d'))"
proof -
  have "links (w(i \<mapsto> d')) = links w"
    using assms(2,4) links_at [of w i d] by (auto simp: links_upd fun_eq_iff)
  then show ?thesis using assms(1,3) by (auto simp: world_inv_def)
qed

lemma dom_inv_quiet: "quiet d d' \<Longrightarrow> dom_inv d \<Longrightarrow> dom_inv d' \<and> dlinks d' = dlinks d"
  using quiet_inv [of d d'] quiet_vcpu [of d d' 0] quiet_chan [of d d']
  by (simp add: dom_inv_def dlinks_def fun_eq_iff)

lemma dom_inv_vcpus: "dom_inv d \<Longrightarrow> inv_vcpus (view d)"
  by (simp add: dom_inv_def view_inv_def)

lemma dom_inv_notify:
  assumes "dom_inv d" "chan d p = Some c"
  shows "vcpu d (notify_vcpu_id c) \<noteq> None"
proof -
  have "inv_notify (view d)" using assms(1) by (simp add: dom_inv_def view_inv_def)
  then have "notify_vcpu_id c = 0 \<or> vw_vcpu (view d) (notify_vcpu_id c) \<noteq> None"
    using assms(2) unfolding inv_notify_def by auto
  then show ?thesis using assms(1) by (auto simp: dom_inv_def)
qed

lemma dom_inv_port_bound: "dom_inv d \<Longrightarrow> chan d p = Some c \<Longrightarrow> p < 4096"
  by (fastforce simp: dom_inv_def view_inv_def inv_port0_def)

lemma get_free_port_inv:
  assumes "xsm_alloc_ok env" "dom_inv d" "get_free_port env d = (r, d')"
  shows "dom_inv d' \<and> dlinks d' = dlinks d \<and> same_rest d d' \<and> is_dying d' = is_dying d \<and>
    pirq_to_evtchn d' = pirq_to_evtchn d \<and> max_vcpus d' = max_vcpus d \<and>
    (\<forall>q c. chan d q = Some c \<longrightarrow> chan d' q = Some c) \<and>
    (case r of
       Inl err \<Rightarrow> d' = d
     | Inr port \<Rightarrow> \<not> is_dying d \<and> (\<exists>c. chan d' port = Some c \<and> ec_state c = ECS_FREE))"
proof -
  note g = get_free_port_grown [OF assms(1,3)]
  obtain C where C: "view d' = (view d)\<lparr>vw_chan := C\<rparr>"
    "\<And>q. C q = chan d q \<or> (chan d q = None \<and> C q = Some zero_evtchn)"
    using g by (auto simp: grown_def)
  have c': "chan d' = C" using C(1) by (metis ev_view.select_convs(1) ev_view.surjective
      ev_view.update_convs(1) view_simps(1))
  have rest: "is_dying d' = is_dying d" "pirq_to_evtchn d' = pirq_to_evtchn d" "max_vcpus d' = max_vcpus d"
    "MAX_EVTCHNS d' = MAX_EVTCHNS d"
    using C(1) by (simp_all add: view_def)
  have "Option.bind (C q) link_of = Option.bind (chan d q) link_of" for q
    using C(2) [of q] by (auto simp: zero_evtchn_def)
  then have l: "dlinks d' = dlinks d" by (simp add: dlinks_def c' fun_eq_iff)
  have "dom_inv d'"
  proof (cases r)
    case Inl
    then show ?thesis using g assms(2) by simp
  next
    case (Inr port)
    then have "\<not> is_dying d" using g by simp
    moreover have "\<forall>p. chan d' p \<noteq> None \<longrightarrow> p < MAX_EVTCHNS d"
      using rest(4) by (auto simp: chan_def port_is_valid_def split: if_splits)
    moreover have "contiguous (chan d')"
      using g assms(2) by (simp add: dom_inv_def view_inv_def inv_port0_def)
    ultimately have "view_inv (view d')"
      using inv_grown [of "view d" "view d'"] g assms(2) by (simp add: dom_inv_def)
    then show ?thesis using g assms(2) by (simp add: dom_inv_def same_rest_def)
  qed
  moreover have "\<forall>q c. chan d q = Some c \<longrightarrow> chan d' q = Some c"
    using C(2) c' by (metis option.distinct(1))
  ultimately show ?thesis using g l rest by simp
qed

lemma upd_plain_inv:
  assumes "dom_inv d" "chan d p = Some c" "plain (ec_state c)" "plain (ec_state (f c))"
    "ec_state (f c) = ECS_FREE \<Longrightarrow> \<not> consumer_is_xen (f c) \<and> notify_vcpu_id (f c) = 0"
    "vcpu d (notify_vcpu_id (f c)) \<noteq> None"
  obtains d' where "upd_evtchn d p f = Some d'" "dom_inv d'" "dlinks d' = (dlinks d)(p := link_of (f c))"
    "chan d' = (chan d)(p \<mapsto> f c)" "same_rest d d'" "view d' = (view d)\<lparr>vw_chan := (chan d)(p \<mapsto> f c)\<rparr>"
proof -
  obtain d' where d': "upd_evtchn d p f = Some d'" "view d' = (view d)\<lparr>vw_chan := (chan d)(p \<mapsto> f c)\<rparr>"
    "vcpu d' = vcpu d" "evtchn_mask d' = evtchn_mask d" "evtchn_pending d' = evtchn_pending d"
    "is_hvm_domain d' = is_hvm_domain d" "io_caps d' = io_caps d" "trace d' = trace d"
    by (rule upd_evtchn_view [OF assms(2)])
  have ch: "chan d' = (chan d)(p \<mapsto> f c)" using d'(2) by (simp add: view_def)
  have "view_inv (view d')"
    unfolding d'(2) using inv_plain [of "view d" p c "f c"] assms by (auto simp: dom_inv_def)
  then have "dom_inv d'" using assms(1) d'(3) by (simp add: dom_inv_def)
  moreover have "dlinks d' = (dlinks d)(p := link_of (f c))"
    by (auto simp: dlinks_def ch fun_eq_iff)
  ultimately show ?thesis using d' ch by (intro that [of d']) (simp_all add: same_rest_def)
qed

section \<open>The operations keep the invariant\<close>

lemma lock_target_cases:
  assumes "w cur \<noteq> None" "rcu_lock_target_domain_by_id env cur w i = Inr j"
  shows "w j \<noteq> None"
  using assms by (auto simp: rcu_lock_target_domain_by_id_def split: if_splits)

lemma dlinks_upd_same:
  "chan d p = Some c \<Longrightarrow> link_of c' = link_of c \<Longrightarrow> (dlinks d)(p := link_of c') = dlinks d"
  by (auto simp: dlinks_def fun_eq_iff)

lemma alloc_unbound_ok:
  assumes inv: "world_inv w" and env: "xsm_alloc_ok env" and cur: "w cur \<noteq> None"
  shows "ok (evtchn_alloc_unbound env cur i remote w)"
proof (cases "rcu_lock_target_domain_by_id env cur w i")
  case (Inl err)
  then show ?thesis using inv by (simp add: evtchn_alloc_unbound_def okI)
next
  case (Inr j)
  then obtain d where d: "w j = Some d" using lock_target_cases [of w cur env i j] cur by blast
  obtain r d1 where r: "get_free_port env d = (r, d1)" by fastforce
  note g = get_free_port_inv [OF env world_invD [OF inv d] r]
  have w1: "world_inv (w(j \<mapsto> d1))" using world_inv_upd [OF inv d] g by blast
  show ?thesis
  proof (cases r)
    case (Inl err)
    with Inr d r w1 show ?thesis by (auto simp: evtchn_alloc_unbound_def)
  next
    case port: (Inr port)
    then obtain c where c: "chan d1 port = Some c" "ec_state c = ECS_FREE" using g by auto
    let ?f = "\<lambda>c. c\<lparr>ec_state := ECS_UNBOUND (if remote = DOMID_SELF then cur else remote)\<rparr>"
    obtain d2 where d2: "upd_evtchn d1 port ?f = Some d2" "dom_inv d2" "dlinks d2 = (dlinks d1)(port := link_of (?f c))"
      by (rule upd_plain_inv [of d1 port c ?f])
         (use g c dom_inv_notify [of d1 port c] in auto)
    have "dlinks d2 = dlinks d" using d2(3) dlinks_upd_same [OF c(1), of "?f c"] c(2) g by simp
    then have "world_inv (w(j \<mapsto> d2))" using world_inv_upd [OF inv d d2(2)] by simp
    with Inr d r port w1 d2 show ?thesis
      by (auto simp: evtchn_alloc_unbound_def split: option.split)
  qed
qed

lemma bind_ipi_ok:
  assumes inv: "world_inv w" and env: "xsm_alloc_ok env" and cur: "w cur \<noteq> None"
  shows "ok (evtchn_bind_ipi env cur vc w)"
proof -
  obtain d where d: "w cur = Some d" using cur by blast
  show ?thesis
  proof (cases "vc \<ge> max_vcpus d \<or> vcpu d vc = None")
    case True
    with d inv show ?thesis by (auto simp: evtchn_bind_ipi_def)
  next
    case False
    obtain r d1 where r: "get_free_port env d = (r, d1)" by fastforce
    note g = get_free_port_inv [OF env world_invD [OF inv d] r]
    have w1: "world_inv (w(cur \<mapsto> d1))" using world_inv_upd [OF inv d] g by blast
    show ?thesis
    proof (cases r)
      case (Inl err)
      with False d r w1 show ?thesis by (auto simp: evtchn_bind_ipi_def)
    next
      case (Inr port)
      then obtain c where c: "chan d1 port = Some c" "ec_state c = ECS_FREE" using g by auto
      let ?f = "\<lambda>c. c\<lparr>ec_state := ECS_IPI, notify_vcpu_id := vc\<rparr>"
      obtain d2 where d2: "upd_evtchn d1 port ?f = Some d2" "dom_inv d2"
        "dlinks d2 = (dlinks d1)(port := link_of (?f c))"
        by (rule upd_plain_inv [of d1 port c ?f]) (use g c False in \<open>auto simp: same_rest_def\<close>)
      have "dlinks d2 = dlinks d" using d2(3) dlinks_upd_same [OF c(1), of "?f c"] c(2) g by simp
      then have "world_inv (w(cur \<mapsto> d2))" using world_inv_upd [OF inv d d2(2)] by simp
      with False d r Inr d2 show ?thesis by (auto simp: evtchn_bind_ipi_def)
    qed
  qed
qed

lemma bind_virq_ok:
  assumes inv: "world_inv w" and env: "xsm_alloc_ok env" and cur: "w cur \<noteq> None"
  shows "ok (evtchn_bind_virq env cur vi vc w)"
proof -
  obtain d where d: "w cur = Some d" using cur by blast
  show ?thesis
  proof (cases "vi \<ge> NR_VIRQS \<or> (virq_is_global vi \<and> vc \<noteq> 0) \<or> vc \<ge> max_vcpus d \<or>
      (case vcpu d vc of None \<Rightarrow> True | Some v \<Rightarrow> virq_to_evtchn v vi \<noteq> 0)")
    case True
    with d inv show ?thesis by (auto simp: evtchn_bind_virq_def split: option.splits)
  next
    case False
    then obtain v where v: "vcpu d vc = Some v" "virq_to_evtchn v vi = 0" by (auto split: option.splits)
    obtain r d1 where r: "get_free_port env d = (r, d1)" by fastforce
    note g = get_free_port_inv [OF env world_invD [OF inv d] r]
    have w1: "world_inv (w(cur \<mapsto> d1))" using world_inv_upd [OF inv d] g by blast
    show ?thesis
    proof (cases r)
      case (Inl err)
      with False d r w1 v show ?thesis by (auto simp: evtchn_bind_virq_def)
    next
      case (Inr port)
      then obtain c where c: "chan d1 port = Some c" "ec_state c = ECS_FREE" using g by auto
      let ?f = "\<lambda>c. c\<lparr>ec_state := ECS_VIRQ vi, notify_vcpu_id := vc\<rparr>"
      obtain d2 where d2: "upd_evtchn d1 port ?f = Some d2"
        "view d2 = (view d1)\<lparr>vw_chan := (chan d1)(port \<mapsto> ?f c)\<rparr>" "vcpu d2 = vcpu d1"
        by (rule upd_evtchn_view [OF c(1)])
      let ?d = "d2\<lparr>vcpu := (vcpu d2)(vc \<mapsto> v\<lparr>virq_to_evtchn := (virq_to_evtchn v)(vi := port)\<rparr>)\<rparr>"
      have v1: "vcpu d1 vc = Some v" using g v by (simp add: same_rest_def)
      have ch: "chan ?d = (chan d1)(port \<mapsto> ?f c)"
        using view_cong(1) [of ?d d2] arg_cong [OF d2(2), of vw_chan] by simp
      have vw: "view ?d = (view d1)\<lparr>vw_chan := (chan d1)(port \<mapsto> ?f c),
          vw_vcpu := (vw_vcpu (view d1))(vc \<mapsto> ((virq_to_evtchn v)(vi := port), pirq_evtchn_head v))\<rparr>"
        using d2(2,3) v1 view_cong [of ?d d2] by (auto simp: view_def fun_eq_iff)
      have "view_inv (view ?d)"
        unfolding vw by (rule inv_virq_bind [of "view d1", simplified])
          (use g c v v1 in \<open>auto simp: dom_inv_def\<close>)
      then have i2: "dom_inv ?d" using g d2(3) by (auto simp: dom_inv_def)
      have "dlinks ?d = (dlinks d1)(port := link_of (?f c))" by (auto simp: dlinks_def ch fun_eq_iff)
      then have "dlinks ?d = dlinks d" using dlinks_upd_same [OF c(1), of "?f c"] c(2) g by simp
      then have "world_inv (w(cur \<mapsto> ?d))" using world_inv_upd [OF inv d i2] by simp
      with False d r Inr d2 v v1 show ?thesis by (auto simp: evtchn_bind_virq_def upd_vcpu_def)
    qed
  qed
qed

lemma peersD: "peers L \<Longrightarrow> L i p = Some (j, q) \<Longrightarrow> L j q = Some (i, p)"
  unfolding peers_def by blast

lemma peers_connect:
  assumes "peers L" "L i p = None" "L j q = None" "(i, p) \<noteq> (j, q)"
    and "L' = L(i := (L i)(p := Some (j, q)))" "L'' = L'(j := (L' j)(q := Some (i, p)))"
  shows "peers L''"
proof -
  have no: "L a b \<noteq> Some (i, p)" "L a b \<noteq> Some (j, q)" for a b
    using peersD [OF assms(1), of a b] assms(2,3) by auto
  have "L'' a b = (if (a, b) = (j, q) then Some (i, p) else if (a, b) = (i, p) then Some (j, q) else L a b)" for a b
    using assms(4) by (auto simp: assms(5,6))
  note L'' = this
  show ?thesis
    unfolding peers_def
  proof (intro allI impI)
    fix a b x y assume ab: "L'' a b = Some (x, y)"
    consider "(a, b) = (j, q)" | "(a, b) = (i, p)" | "(a, b) \<noteq> (j, q)" "(a, b) \<noteq> (i, p)" by blast
    then show "L'' x y = Some (a, b)"
    proof cases
      case 3
      then have "L'' a b = L a b" unfolding L'' by (simp only: if_False)
      with ab have *: "L a b = Some (x, y)" by simp
      then have "(x, y) \<noteq> (j, q)" "(x, y) \<noteq> (i, p)" using no by blast+
      then have "L'' x y = L x y" unfolding L'' by (simp only: if_False)
      with peersD [OF assms(1) *] show ?thesis by simp
    qed (use ab assms(4) in \<open>auto simp: L''\<close>)
  qed
qed

lemma peers_disconnect:
  assumes "peers L" "L i p = Some (j, q)"
    and "L' = L(j := (L j)(q := None))" "L'' = L'(i := (L' i)(p := None))"
  shows "peers L''"
proof -
  have bk: "L j q = Some (i, p)" by (rule peersD [OF assms(1,2)])
  have L'': "L'' a b = (if (a, b) = (j, q) \<or> (a, b) = (i, p) then None else L a b)" for a b
    by (auto simp: assms(3,4))
  have no: "(a, b) = (j, q)" if "L a b = Some (i, p)" for a b
    using peersD [OF assms(1) that] assms(2) by simp
  have no': "(a, b) = (i, p)" if "L a b = Some (j, q)" for a b
    using peersD [OF assms(1) that] bk by simp
  show ?thesis
    unfolding peers_def
  proof (intro allI impI)
    fix a b x y assume "L'' a b = Some (x, y)"
    then have ab: "(a, b) \<noteq> (j, q)" "(a, b) \<noteq> (i, p)" "L a b = Some (x, y)"
      by (auto simp: L'' split: if_splits)
    then have "(x, y) \<noteq> (i, p)" "(x, y) \<noteq> (j, q)" using no no' by blast+
    then have "L'' x y = L x y" unfolding L'' by (simp only: if_False HOL.simp_thms)
    with peersD [OF assms(1) ab(3)] show "L'' x y = Some (a, b)" by simp
  qed
qed

definition doms_inv :: "ev_world \<Rightarrow> bool" where
  "doms_inv w \<longleftrightarrow> (\<forall>i d. w i = Some d \<longrightarrow> dom_inv d)"

lemma world_inv_iff: "world_inv w \<longleftrightarrow> doms_inv w \<and> peers (links w)"
  by (simp add: world_inv_def doms_inv_def)

lemma on_upd_plain:
  assumes "doms_inv w" "w i = Some d" "chan d p = Some c" "plain (ec_state c)" "plain (ec_state (f c))"
    "ec_state (f c) = ECS_FREE \<Longrightarrow> \<not> consumer_is_xen (f c) \<and> notify_vcpu_id (f c) = 0"
    "vcpu d (notify_vcpu_id (f c)) \<noteq> None"
  obtains d' where "on_domain w i (\<lambda>d. upd_evtchn d p f) = Some (w(i \<mapsto> d'))" "doms_inv (w(i \<mapsto> d'))"
    "chan d' = (chan d)(p \<mapsto> f c)" "same_rest d d'"
    "links (w(i \<mapsto> d')) = (links w)(i := (links w i)(p := link_of (f c)))"
    "view d' = (view d)\<lparr>vw_chan := (chan d)(p \<mapsto> f c)\<rparr>"
proof -
  have "dom_inv d" using assms(1,2) by (simp add: doms_inv_def)
  then obtain d' where d': "upd_evtchn d p f = Some d'" "dom_inv d'" "dlinks d' = (dlinks d)(p := link_of (f c))"
    "chan d' = (chan d)(p \<mapsto> f c)" "same_rest d d'" "view d' = (view d)\<lparr>vw_chan := (chan d)(p \<mapsto> f c)\<rparr>"
    using upd_plain_inv [of d p c f] assms(3-7) by metis
  show ?thesis
  proof (rule that [of d'])
    show "on_domain w i (\<lambda>d. upd_evtchn d p f) = Some (w(i \<mapsto> d'))"
      using assms(2) d'(1) by (simp add: on_domain_def)
    show "doms_inv (w(i \<mapsto> d'))" using assms(1) d'(2) by (auto simp: doms_inv_def)
    show "links (w(i \<mapsto> d')) = (links w)(i := (links w i)(p := link_of (f c)))"
      using d'(3) links_at [of w i d] assms(2) by (simp add: links_upd)
  qed (use d' in auto)
qed

lemma set_pending_at_ok:
  assumes "world_inv w" "w i = Some d" "vcpu d v \<noteq> None"
  obtains d' where "set_pending_at w i v port = Some (w(i \<mapsto> d'))" "world_inv (w(i \<mapsto> d'))" "quiet d d'"
    "evtchn_pending d' = (evtchn_pending d)(port := True)" "evtchn_mask d' = evtchn_mask d"
proof -
  have d: "dom_inv d" by (rule world_invD [OF assms(1,2)])
  obtain b d' where d': "evtchn_set_pending d v port = Some (b, d')" "quiet d d'"
    "evtchn_pending d' = (evtchn_pending d)(port := True)" "evtchn_mask d' = evtchn_mask d"
    by (rule set_pending_quiet [OF assms(3) dom_inv_vcpus [OF d]])
  have "world_inv (w(i \<mapsto> d'))"
    using world_inv_upd [OF assms(1,2)] dom_inv_quiet [OF d'(2) d] by blast
  with d' assms(2) show ?thesis by (intro that [of d']) (simp_all add: set_pending_at_def on_domain_def)
qed

text \<open>One end of a connection: a plain channel becomes an end that names the other one.\<close>

lemma set_end:
  assumes "doms_inv w" "w i = Some d" "chan d p = Some c" "plain (ec_state c)" "vcpu d (notify_vcpu_id c) \<noteq> None" "q < 4096"
  obtains d' where "on_domain w i (\<lambda>d. upd_evtchn d p (\<lambda>c. c\<lparr>ec_state := ECS_INTERDOMAIN j (q mod 65536)\<rparr>)) = Some (w(i \<mapsto> d'))"
    "doms_inv (w(i \<mapsto> d'))" "chan d' = (chan d)(p \<mapsto> c\<lparr>ec_state := ECS_INTERDOMAIN j (q mod 65536)\<rparr>)" "same_rest d d'"
    "links (w(i \<mapsto> d')) = (links w)(i := (links w i)(p \<mapsto> (j, q)))"
proof (rule on_upd_plain [where f = "\<lambda>c. c\<lparr>ec_state := ECS_INTERDOMAIN j (q mod 65536)\<rparr>", OF assms(1-4)])
  show "vcpu d (notify_vcpu_id (c\<lparr>ec_state := ECS_INTERDOMAIN j (q mod 65536)\<rparr>)) \<noteq> None" using assms(5) by simp
next
  fix d' assume "on_domain w i (\<lambda>d. upd_evtchn d p (\<lambda>c. c\<lparr>ec_state := ECS_INTERDOMAIN j (q mod 65536)\<rparr>)) = Some (w(i \<mapsto> d'))"
    "doms_inv (w(i \<mapsto> d'))" "chan d' = (chan d)(p \<mapsto> c\<lparr>ec_state := ECS_INTERDOMAIN j (q mod 65536)\<rparr>)" "same_rest d d'"
    "links (w(i \<mapsto> d')) = (links w)(i := (links w i)(p := link_of (c\<lparr>ec_state := ECS_INTERDOMAIN j (q mod 65536)\<rparr>)))"
  then show thesis using assms(6) by (intro that [of d']) simp_all
qed simp_all

text \<open>Both ends, one after the other.\<close>

lemma connect_ends:
  assumes w1: "world_inv w" and ld: "w cur = Some ld" "chan ld lport = Some lchn" "ec_state lchn = ECS_FREE"
    and rd: "w rdom = Some rd" "chan rd rport = Some rchn" "ec_state rchn = ECS_UNBOUND cur"
  obtains w2 w3 ld3 where "on_domain w cur (\<lambda>d. upd_evtchn d lport (\<lambda>c. c\<lparr>ec_state := ECS_INTERDOMAIN rdom (rport mod 65536)\<rparr>)) = Some w2"
    "on_domain w2 rdom (\<lambda>d. upd_evtchn d rport (\<lambda>c. c\<lparr>ec_state := ECS_INTERDOMAIN cur (lport mod 65536)\<rparr>)) = Some w3"
    "world_inv w3" "links w3 cur lport = Some (rdom, rport)" "links w3 rdom rport = Some (cur, lport)"
    "w3 cur = Some ld3" "chan ld3 lport = Some (lchn\<lparr>ec_state := ECS_INTERDOMAIN rdom (rport mod 65536)\<rparr>)"
proof -
  have inv: "doms_inv w" "dom_inv ld" "dom_inv rd" "peers (links w)" using w1 world_invD [OF w1] ld(1) rd(1) by (simp_all add: world_inv_iff)
  have ne: "(cur, lport) \<noteq> (rdom, rport)" using ld rd by auto
  have lb: "lport < 4096" "rport < 4096" using dom_inv_port_bound inv(2,3) ld(2) rd(2) by auto
  have pl: "plain (ec_state lchn)" "plain (ec_state rchn)" using ld(3) rd(3) by simp_all
  obtain ld2 where ld2: "on_domain w cur (\<lambda>d. upd_evtchn d lport (\<lambda>c. c\<lparr>ec_state := ECS_INTERDOMAIN rdom (rport mod 65536)\<rparr>)) = Some (w(cur \<mapsto> ld2))"
      "doms_inv (w(cur \<mapsto> ld2))" "chan ld2 = (chan ld)(lport \<mapsto> lchn\<lparr>ec_state := ECS_INTERDOMAIN rdom (rport mod 65536)\<rparr>)" "same_rest ld ld2"
      "links (w(cur \<mapsto> ld2)) = (links w)(cur := (links w cur)(lport \<mapsto> (rdom, rport)))"
    by (rule set_end [OF inv(1) ld(1,2) pl(1) dom_inv_notify [OF inv(2) ld(2)] lb(2), of rdom])
  let ?w2 = "w(cur \<mapsto> ld2)"
  obtain rd2 where rd2: "?w2 rdom = Some rd2" "chan rd2 rport = Some rchn" "vcpu rd2 = vcpu rd"
    using ld(1) rd(1,2) ne ld2(3,4) by (cases "rdom = cur") (auto simp: same_rest_def)
  have v2: "vcpu rd2 (notify_vcpu_id rchn) \<noteq> None" using dom_inv_notify [OF inv(3) rd(2)] rd2(3) by simp
  obtain rd3 where rd3: "on_domain ?w2 rdom (\<lambda>d. upd_evtchn d rport (\<lambda>c. c\<lparr>ec_state := ECS_INTERDOMAIN cur (lport mod 65536)\<rparr>)) = Some (?w2(rdom \<mapsto> rd3))"
      "doms_inv (?w2(rdom \<mapsto> rd3))" "chan rd3 = (chan rd2)(rport \<mapsto> rchn\<lparr>ec_state := ECS_INTERDOMAIN cur (lport mod 65536)\<rparr>)"
      "links (?w2(rdom \<mapsto> rd3)) = (links ?w2)(rdom := (links ?w2 rdom)(rport \<mapsto> (cur, lport)))"
    by (rule set_end [OF ld2(2) rd2(1,2) pl(2) v2 lb(1), of cur])
  let ?w3 = "?w2(rdom \<mapsto> rd3)"
  have lnone: "links w cur lport = None" "links w rdom rport = None" using ld rd by (auto simp: links_def dlinks_def)
  have "peers (links ?w3)" by (rule peers_connect [OF inv(4) lnone ne ld2(5) rd3(4)])
  then have w3: "world_inv ?w3" using rd3(2) by (simp add: world_inv_iff)
  have l3: "links ?w3 cur lport = Some (rdom, rport)" "links ?w3 rdom rport = Some (cur, lport)" using ld2(5) rd3(4) ne by auto
  obtain ld3 where ld3: "?w3 cur = Some ld3" "chan ld3 lport = Some (lchn\<lparr>ec_state := ECS_INTERDOMAIN rdom (rport mod 65536)\<rparr>)"
    using ld2(3) rd3(3) rd2(1) ne by (cases "rdom = cur") auto
  show ?thesis by (rule that [OF ld2(1) rd3(1) w3 l3 ld3])
qed

text \<open>The port at the other end is not there, is not waiting for the caller, or access is refused.\<close>

lemma bind_interdomain_refused:
  assumes ld: "w cur = Some ld" "get_free_port env ld = (Inr lport, ld1)" and r: "rdom = (if r = DOMID_SELF then cur else r)" "w rdom \<noteq> None"
    and rd: "(w(cur \<mapsto> ld1)) rdom = Some rd"
    and no: "\<not> (\<exists>rchn. chan rd rport = Some rchn \<and> ec_state rchn = ECS_UNBOUND cur \<and> xsm_evtchn_interdomain env cur lport rdom rport = None)"
  shows "\<exists>err. evtchn_bind_interdomain env cur r rport w = Some (Inl err, w(cur \<mapsto> ld1))"
proof (cases "chan rd rport")
  case None
  then show ?thesis using ld r(2) rd unfolding evtchn_bind_interdomain_def r(1) [symmetric] Let_def
    by (auto simp: port_is_valid_iff)
next
  case (Some rchn)
  with no have "ec_state rchn \<noteq> ECS_UNBOUND cur \<or> (\<exists>e. xsm_evtchn_interdomain env cur lport rdom rport = Some e)" by auto
  then show ?thesis using ld r(2) rd Some unfolding evtchn_bind_interdomain_def r(1) [symmetric] Let_def
    by (auto simp: port_is_valid_iff chan_from_port)
qed

lemma bind_interdomain_connected:
  assumes ld: "w cur = Some ld" "get_free_port env ld = (Inr lport, ld1)" and r: "rdom = (if r = DOMID_SELF then cur else r)" "w rdom \<noteq> None"
    and w1: "world_inv (w(cur \<mapsto> ld1))" and lchn: "chan ld1 lport = Some lchn" "ec_state lchn = ECS_FREE"
    and rd: "(w(cur \<mapsto> ld1)) rdom = Some rd" "chan rd rport = Some rchn" "ec_state rchn = ECS_UNBOUND cur"
    and xsm: "xsm_evtchn_interdomain env cur lport rdom rport = None"
  obtains w' d where "evtchn_bind_interdomain env cur r rport w = Some (Inr lport, w')" "world_inv w'"
    "links w' cur lport = Some (rdom, rport)" "links w' rdom rport = Some (cur, lport)" "w' cur = Some d" "evtchn_pending d lport"
proof -
  let ?l = "lchn\<lparr>ec_state := ECS_INTERDOMAIN rdom (rport mod 65536)\<rparr>"
  obtain w2 w3 ld3 where c: "on_domain (w(cur \<mapsto> ld1)) cur (\<lambda>d. upd_evtchn d lport (\<lambda>c. c\<lparr>ec_state := ECS_INTERDOMAIN rdom (rport mod 65536)\<rparr>)) = Some w2"
      "on_domain w2 rdom (\<lambda>d. upd_evtchn d rport (\<lambda>c. c\<lparr>ec_state := ECS_INTERDOMAIN cur (lport mod 65536)\<rparr>)) = Some w3"
    and w3: "world_inv w3" "links w3 cur lport = Some (rdom, rport)" "links w3 rdom rport = Some (cur, lport)"
    and ld3: "w3 cur = Some ld3" "chan ld3 lport = Some ?l"
    by (rule connect_ends [OF w1 _ lchn rd]) simp_all
  obtain ld4 where ld4: "set_pending_at w3 cur (notify_vcpu_id ?l) lport = Some (w3(cur \<mapsto> ld4))"
      "world_inv (w3(cur \<mapsto> ld4))" "quiet ld3 ld4" "evtchn_pending ld4 = (evtchn_pending ld3)(lport := True)"
    by (rule set_pending_at_ok [OF w3(1) ld3(1) dom_inv_notify [OF world_invD [OF w3(1) ld3(1)] ld3(2)]])
  have res: "evtchn_bind_interdomain env cur r rport w = Some (Inr lport, w3(cur \<mapsto> ld4))"
    using ld r(2) rd xsm c ld3 ld4(1) unfolding evtchn_bind_interdomain_def r(1) [symmetric] Let_def
    by (simp add: port_is_valid_iff chan_from_port)
  have "links (w3(cur \<mapsto> ld4)) = links w3"
    using links_at [of w3 cur ld3] ld3(1) quiet_chan [OF ld4(3)] by (auto simp: links_upd dlinks_def fun_eq_iff)
  then show ?thesis using ld4(2,4) w3 by (intro that [where d = ld4, OF res]) simp_all
qed

lemma bind_interdomain_effect:
  assumes inv: "world_inv w" and env: "xsm_alloc_ok env" and cur: "w cur \<noteq> None"
  shows "ok (evtchn_bind_interdomain env cur r rport w) \<and>
    (\<forall>lport w'. evtchn_bind_interdomain env cur r rport w = Some (Inr lport, w') \<longrightarrow>
       (let rdom = if r = DOMID_SELF then cur else r in
        links w' cur lport = Some (rdom, rport) \<and> links w' rdom rport = Some (cur, lport) \<and>
        (\<exists>d. w' cur = Some d \<and> evtchn_pending d lport)))"
proof -
  define rdom where "rdom = (if r = DOMID_SELF then cur else r)"
  obtain ld where ld: "w cur = Some ld" using cur by blast
  obtain res ld1 where res: "get_free_port env ld = (res, ld1)" by fastforce
  note g = get_free_port_inv [OF env world_invD [OF inv ld] res]
  have w1: "world_inv (w(cur \<mapsto> ld1))" using world_inv_upd [OF inv ld] g by blast
  consider (none) "w rdom = None" | (err) err where "w rdom \<noteq> None" "res = Inl err" | (port) lport where "w rdom \<noteq> None" "res = Inr lport"
    by (cases res) auto
  then show ?thesis
  proof cases
    case none
    then show ?thesis using inv by (auto simp: evtchn_bind_interdomain_def rdom_def Let_def)
  next
    case err
    with ld res w1 show ?thesis by (auto simp: evtchn_bind_interdomain_def rdom_def [symmetric] Let_def)
  next
    case port
    obtain rd where rd: "(w(cur \<mapsto> ld1)) rdom = Some rd" using port(1) by (cases "rdom = cur") auto
    obtain lchn where lchn: "chan ld1 lport = Some lchn" "ec_state lchn = ECS_FREE" using g port(2) by auto
    note start = ld res [unfolded port(2)] rdom_def port(1)
    show ?thesis
    proof (cases "\<exists>rchn. chan rd rport = Some rchn \<and> ec_state rchn = ECS_UNBOUND cur \<and> xsm_evtchn_interdomain env cur lport rdom rport = None")
      case False
      then show ?thesis using bind_interdomain_refused [OF start rd False] w1 by auto
    next
      case True
      then obtain rchn where rchn: "chan rd rport = Some rchn" "ec_state rchn = ECS_UNBOUND cur"
        and xsm: "xsm_evtchn_interdomain env cur lport rdom rport = None" by blast
      show ?thesis by (rule bind_interdomain_connected [OF start w1 lchn rd rchn xsm]) (auto simp: rdom_def [symmetric] Let_def)
    qed
  qed
qed

end
