(* ===== verification/Evtchn_Close.thy ===== *)
theory Evtchn_Close
  imports Evtchn_Ops
begin

text \<open>
  Closing ports: the lists of physical-interrupt ports when a port leaves or joins them, one pass of
  \<^verbatim>\<open>__evtchn_close\<close>, the operations on physical interrupts, sending, the loops that close every port,
  the hypercall as a whole, channels owned by Xen, and the life cycle of a domain.
\<close>

section \<open>Linking and unlinking physical-interrupt ports\<close>

definition next_set :: "nat \<Rightarrow> nat \<Rightarrow> (nat \<Rightarrow> evtchn option) \<Rightarrow> nat \<Rightarrow> evtchn option" where
  "next_set n a C = (if a = 0 then C else C(a := map_option (set_next_port n) (C a)))"

definition prev_set :: "nat \<Rightarrow> nat \<Rightarrow> (nat \<Rightarrow> evtchn option) \<Rightarrow> nat \<Rightarrow> evtchn option" where
  "prev_set a n C = (if n = 0 then C else C(n := map_option (set_prev_port a) (C n)))"

text \<open>What a domain keeps when only its channels and the heads of its lists change.\<close>

definition kept :: "ev_domain \<Rightarrow> ev_domain \<Rightarrow> bool" where
  "kept d d' \<longleftrightarrow> evtchn_mask d' = evtchn_mask d \<and> evtchn_pending d' = evtchn_pending d \<and>
     is_hvm_domain d' = is_hvm_domain d \<and> io_caps d' = io_caps d \<and> trace d' = trace d \<and>
     (\<forall>v. map_option processor (vcpu d' v) = map_option processor (vcpu d v))"

lemma kept_refl [simp]: "kept d d"
  by (simp add: kept_def)

lemma kept_trans: "kept d d1 \<Longrightarrow> kept d1 d2 \<Longrightarrow> kept d d2"
  by (simp add: kept_def)

lemma upd_evtchn_kept:
  assumes "chan d p \<noteq> None"
  obtains d' where "upd_evtchn d p f = Some d'"
    "view d' = (view d)\<lparr>vw_chan := (chan d)(p := map_option f (chan d p))\<rparr>" "vcpu d' = vcpu d" "kept d d'"
proof -
  obtain c where c: "chan d p = Some c" using assms by blast
  show ?thesis
  proof (rule upd_evtchn_view [OF c, of f])
    fix d' assume "upd_evtchn d p f = Some d'" "view d' = (view d)\<lparr>vw_chan := (chan d)(p \<mapsto> f c)\<rparr>"
      "vcpu d' = vcpu d" "evtchn_mask d' = evtchn_mask d" "evtchn_pending d' = evtchn_pending d"
      "is_hvm_domain d' = is_hvm_domain d" "io_caps d' = io_caps d" "trace d' = trace d"
    with c show ?thesis by (intro that [of d']) (simp_all add: kept_def)
  qed
qed

lemma upd_head_kept:
  assumes "vcpu d v = Some x"
  shows "\<exists>d'. upd_vcpu d v (\<lambda>v. v\<lparr>pirq_evtchn_head := n\<rparr>) = Some d' \<and>
    view d' = (view d)\<lparr>vw_vcpu := (vw_vcpu (view d))(v \<mapsto> (virq_to_evtchn x, n))\<rparr> \<and> kept d d'"
proof -
  let ?d = "d\<lparr>vcpu := (vcpu d)(v \<mapsto> x\<lparr>pirq_evtchn_head := n\<rparr>)\<rparr>"
  have "chan ?d = chan d" "MAX_EVTCHNS ?d = MAX_EVTCHNS d" by (rule view_cong; simp)+
  then have "view ?d = (view d)\<lparr>vw_vcpu := (vw_vcpu (view d))(v \<mapsto> (virq_to_evtchn x, n))\<rparr>"
    by (auto simp: view_def fun_eq_iff)
  with assms show ?thesis by (intro exI [of _ ?d]) (auto simp: upd_vcpu_def kept_def)
qed

lemma view_chanD: "view d' = (view d)\<lparr>vw_chan := C\<rparr> \<Longrightarrow> chan d' = C"
  by (simp add: view_def)

lemma unlink_view:
  assumes c: "ec_state c = ECS_PIRQ irq n a" and x: "vcpu d v = Some x"
    and a: "a \<noteq> 0 \<Longrightarrow> chan d a \<noteq> None" and n: "n \<noteq> 0 \<Longrightarrow> chan d n \<noteq> None"
  obtains d' where "unlink_pirq_port d c v = Some d'" "kept d d'"
    "view d' = (view d)\<lparr>vw_chan := prev_set a n (next_set n a (chan d)),
       vw_vcpu := (vw_vcpu (view d))(v \<mapsto> (virq_to_evtchn x, if a = 0 then n else pirq_evtchn_head x))\<rparr>"
proof -
  have "\<exists>d1. (if a \<noteq> 0 then upd_evtchn d a (set_next_port n)
        else upd_vcpu d v (\<lambda>v. v\<lparr>pirq_evtchn_head := n\<rparr>)) = Some d1 \<and> kept d d1 \<and>
      view d1 = (view d)\<lparr>vw_chan := next_set n a (chan d),
        vw_vcpu := (vw_vcpu (view d))(v \<mapsto> (virq_to_evtchn x, if a = 0 then n else pirq_evtchn_head x))\<rparr>"
  proof (cases "a = 0")
    case True
    with upd_head_kept [OF x, of n] show ?thesis by (auto simp: next_set_def view_def)
  next
    case False
    obtain d1 where "upd_evtchn d a (set_next_port n) = Some d1" "kept d d1" "vcpu d1 = vcpu d"
      "view d1 = (view d)\<lparr>vw_chan := (chan d)(a := map_option (set_next_port n) (chan d a))\<rparr>"
      using upd_evtchn_kept [OF a [OF False]] by metis
    moreover have "vw_vcpu (view d) = (vw_vcpu (view d))(v \<mapsto> (virq_to_evtchn x, pirq_evtchn_head x))"
      using x by (auto simp: fun_eq_iff)
    ultimately show ?thesis using False by (intro exI [of _ d1]) (simp add: next_set_def)
  qed
  then obtain d1 where d1: "(if a \<noteq> 0 then upd_evtchn d a (set_next_port n)
        else upd_vcpu d v (\<lambda>v. v\<lparr>pirq_evtchn_head := n\<rparr>)) = Some d1" "kept d d1"
      "view d1 = (view d)\<lparr>vw_chan := next_set n a (chan d),
        vw_vcpu := (vw_vcpu (view d))(v \<mapsto> (virq_to_evtchn x, if a = 0 then n else pirq_evtchn_head x))\<rparr>"
    by blast
  have ch: "chan d1 = next_set n a (chan d)" using d1(3) by (simp add: view_def)
  show ?thesis
  proof (cases "n = 0")
    case True
    with d1 c x show ?thesis by (intro that [of d1]) (auto simp: unlink_pirq_port_def prev_set_def)
  next
    case False
    have "chan d1 n \<noteq> None" using n [OF False] by (auto simp: ch next_set_def)
    then obtain d2 where "upd_evtchn d1 n (set_prev_port a) = Some d2" "kept d1 d2"
      "view d2 = (view d1)\<lparr>vw_chan := (chan d1)(n := map_option (set_prev_port a) (chan d1 n))\<rparr>"
      using upd_evtchn_kept by metis
    with False d1 c x kept_trans [OF d1(2)] show ?thesis
      by (intro that [of d2]) (auto simp: unlink_pirq_port_def prev_set_def ch)
  qed
qed

lemma link_view:
  assumes c: "chan d p = Some c" "ec_state c = ECS_PIRQ irq n a" and x: "vcpu d v = Some x"
    and h: "h = pirq_evtchn_head x" "h \<noteq> p" "h \<noteq> 0 \<Longrightarrow> chan d h \<noteq> None"
  obtains d' where "link_pirq_port d p v = Some d'" "kept d d'"
    "view d' = (view d)\<lparr>vw_chan := (prev_set p h (chan d))(p \<mapsto> c\<lparr>ec_state := ECS_PIRQ irq h 0\<rparr>),
       vw_vcpu := (vw_vcpu (view d))(v \<mapsto> (virq_to_evtchn x, p))\<rparr>"
proof -
  let ?f = "\<lambda>c. set_next_port h (set_prev_port 0 c)"
  have f: "?f c = c\<lparr>ec_state := ECS_PIRQ irq h 0\<rparr>"
    using c(2) by (simp add: set_next_port_def set_prev_port_def)
  have "chan d p \<noteq> None" using c by simp
  then obtain d1 where d1: "upd_evtchn d p ?f = Some d1" "kept d d1" "vcpu d1 = vcpu d"
    "view d1 = (view d)\<lparr>vw_chan := (chan d)(p := map_option ?f (chan d p))\<rparr>"
    using upd_evtchn_kept by metis
  have ch1: "chan d1 = (chan d)(p \<mapsto> c\<lparr>ec_state := ECS_PIRQ irq h 0\<rparr>)"
    using view_chanD [OF d1(4)] c f by simp
  have "\<exists>d2. (if h \<noteq> 0 then upd_evtchn d1 h (set_prev_port p) else Some d1) = Some d2 \<and> kept d1 d2 \<and>
      vcpu d2 = vcpu d \<and> view d2 = (view d)\<lparr>vw_chan := prev_set p h (chan d1)\<rparr>"
  proof (cases "h = 0")
    case False
    then have "chan d1 h \<noteq> None" using h(2,3) ch1 by simp
    then obtain d2 where "upd_evtchn d1 h (set_prev_port p) = Some d2" "kept d1 d2" "vcpu d2 = vcpu d1"
      "view d2 = (view d1)\<lparr>vw_chan := (chan d1)(h := map_option (set_prev_port p) (chan d1 h))\<rparr>"
      using upd_evtchn_kept by metis
    with False d1 show ?thesis by (intro exI [of _ d2]) (simp add: prev_set_def)
  qed (use d1 ch1 in \<open>auto simp: prev_set_def view_def\<close>)
  then obtain d2 where d2: "(if h \<noteq> 0 then upd_evtchn d1 h (set_prev_port p) else Some d1) = Some d2"
    "kept d1 d2" "vcpu d2 = vcpu d" "view d2 = (view d)\<lparr>vw_chan := prev_set p h (chan d1)\<rparr>" by blast
  have ch2: "prev_set p h (chan d1) = (prev_set p h (chan d))(p \<mapsto> c\<lparr>ec_state := ECS_PIRQ irq h 0\<rparr>)"
    using h(2) by (auto simp: prev_set_def ch1 fun_eq_iff)
  have "vcpu d2 v = Some x" using d2(3) x by simp
  then obtain d3 where d3: "upd_vcpu d2 v (\<lambda>v. v\<lparr>pirq_evtchn_head := p\<rparr>) = Some d3" "kept d2 d3"
    "view d3 = (view d2)\<lparr>vw_vcpu := (vw_vcpu (view d2))(v \<mapsto> (virq_to_evtchn x, p))\<rparr>"
    using upd_head_kept by blast
  have "vw_vcpu (view d2) = vw_vcpu (view d)" using d2(4) by simp
  then have "view d3 = (view d)\<lparr>vw_chan := (prev_set p h (chan d))(p \<mapsto> c\<lparr>ec_state := ECS_PIRQ irq h 0\<rparr>),
       vw_vcpu := (vw_vcpu (view d))(v \<mapsto> (virq_to_evtchn x, p))\<rparr>"
    unfolding d3(3) d2(4) ch2 by simp
  moreover have "link_pirq_port d p v = Some d3"
    using x d1(1) d2(1) d3(1) unfolding h(1) by (cases "pirq_evtchn_head x = 0") (simp_all add: link_pirq_port_def)
  ultimately show ?thesis using that d1(2) d2(2) d3(2) kept_trans by blast
qed

text \<open>The neighbours of a physical-interrupt port are other ports in use.\<close>

lemma pirq_neighbours:
  assumes inv: "view_inv V" and c: "vw_chan V p = Some c" "ec_state c = ECS_PIRQ irq n a"
  shows "a \<noteq> 0 \<Longrightarrow> vw_chan V a \<noteq> None" "n \<noteq> 0 \<Longrightarrow> vw_chan V n \<noteq> None" "a \<noteq> p" "n \<noteq> p"
    "vw_vcpu V (notify_vcpu_id c) \<noteq> None"
proof -
  note i = inv [unfolded view_inv_def]
  have p0: "p \<noteq> 0" using inv_port0_upd(2) [of V p c] i c by auto
  have "is_ECS_PIRQ (ec_state c)" using c by simp
  then show v: "vw_vcpu V (notify_vcpu_id c) \<noteq> None"
    using i c(1) unfolding inv_notify_def by blast
  then obtain t h where "vw_vcpu V (notify_vcpu_id c) = Some (t, h)" by auto
  then obtain ps where ps: "pirq_list (vw_chan V) h ps" "set ps = pirq_ports (vw_chan V) (notify_vcpu_id c)"
    using inv_listsD i by blast
  then have "p \<in> set ps" using c by (auto simp: pirq_ports_def)
  then obtain xs ys where xy: "ps = xs @ p # ys" by (meson split_list)
  then have nb: "a \<noteq> 0 \<Longrightarrow> a \<in> set xs" "n \<noteq> 0 \<Longrightarrow> n \<in> set ys"
    using pirq_list_neighbours [of "vw_chan V" h xs p ys] ps(1) c by auto
  have "p \<notin> set xs" "p \<notin> set ys" using ps(1) xy by (auto simp: pirq_list_def)
  with nb p0 show "a \<noteq> p" "n \<noteq> p" by auto
  show "a \<noteq> 0 \<Longrightarrow> vw_chan V a \<noteq> None" "n \<noteq> 0 \<Longrightarrow> vw_chan V n \<noteq> None"
    using nb ps(2) xy by (auto simp: pirq_ports_def)
qed

section \<open>Closing a port\<close>

lemma close_finish_view:
  assumes "w i = Some d" "chan d p = Some c"
  obtains d' where "close_finish w i p = Some (Closed None (w(i \<mapsto> d')))"
    "view d' = (view d)\<lparr>vw_chan := (chan d)(p \<mapsto> c\<lparr>ec_state := ECS_FREE, notify_vcpu_id := 0\<rparr>)\<rparr>"
    "vcpu d' = vcpu d" "evtchn_pending d' = (evtchn_pending d)(p := False)" "evtchn_mask d' = evtchn_mask d"
    "io_caps d' = io_caps d" "trace d' = trace d" "is_hvm_domain d' = is_hvm_domain d"
proof -
  let ?d = "d\<lparr>evtchn_pending := (evtchn_pending d)(p := False)\<rparr>"
  let ?f = "\<lambda>c. c\<lparr>ec_state := ECS_FREE, notify_vcpu_id := 0\<rparr>"
  have v: "chan ?d = chan d" "MAX_EVTCHNS ?d = MAX_EVTCHNS d" by (rule view_cong; simp)+
  then have "chan ?d p = Some c" using assms(2) by simp
  then obtain d' where d': "upd_evtchn ?d p ?f = Some d'" "view d' = (view ?d)\<lparr>vw_chan := (chan ?d)(p \<mapsto> ?f c)\<rparr>"
    "vcpu d' = vcpu ?d" "evtchn_mask d' = evtchn_mask ?d" "evtchn_pending d' = evtchn_pending ?d"
    "is_hvm_domain d' = is_hvm_domain ?d" "io_caps d' = io_caps ?d" "trace d' = trace ?d"
    by (rule upd_evtchn_view [where f = ?f])
  have "view ?d = view d" using v by (simp add: view_def)
  with d' assms(1) v show ?thesis
    by (intro that [of d']) (simp_all add: close_finish_def on_domain_def)
qed

text \<open>
  What closing port \<open>p\<close> of domain \<open>i\<close> does to the hypervisor: ports do not appear or disappear, a
  port that was not in use stays so, and the port itself is free.
\<close>

definition shut :: "evtchn \<Rightarrow> bool" where
  "shut c \<longleftrightarrow> ec_state c = ECS_FREE \<or> ec_state c = ECS_RESERVED"

definition shut_rel :: "evtchn \<Rightarrow> evtchn \<Rightarrow> bool" where
  "shut_rel c c' \<longleftrightarrow> (shut c \<longrightarrow> shut c') \<and> consumer_is_xen c' = consumer_is_xen c"

lemma shut_free [simp]: "ec_state c = ECS_FREE \<Longrightarrow> shut c"
  by (simp add: shut_def)

lemma shut_rel_refl [simp]: "rel_option shut_rel x x"
  by (rule option.rel_refl) (simp add: shut_rel_def)

lemma shut_rel_trans:
  assumes "rel_option shut_rel x y" "rel_option shut_rel y z"
  shows "rel_option shut_rel x z"
  using assms by (cases x; cases y; cases z) (auto simp: shut_rel_def)

definition shrinks :: "ev_domain \<Rightarrow> ev_domain \<Rightarrow> bool" where
  "shrinks d d' \<longleftrightarrow> is_dying d' = is_dying d \<and> MAX_EVTCHNS d' = MAX_EVTCHNS d \<and>
     (\<forall>q. rel_option shut_rel (chan d q) (chan d' q))"

lemma shrinks_refl [simp]: "shrinks d d"
  by (simp add: shrinks_def)

lemma shrinks_trans: "shrinks d d1 \<Longrightarrow> shrinks d1 d2 \<Longrightarrow> shrinks d d2"
  unfolding shrinks_def by (metis shut_rel_trans)

definition wshrinks :: "ev_world \<Rightarrow> ev_world \<Rightarrow> bool" where
  "wshrinks w w' \<longleftrightarrow> (\<forall>i. rel_option shrinks (w i) (w' i))"

lemma wshrinks_refl [simp]: "wshrinks w w"
  by (auto simp: wshrinks_def intro: option.rel_refl)

lemma wshrinks_trans:
  assumes "wshrinks w w1" "wshrinks w1 w2"
  shows "wshrinks w w2"
proof -
  have "rel_option shrinks (w i) (w2 i)" for i
    using assms [unfolded wshrinks_def, rule_format, of i]
    by (cases "w i"; cases "w1 i"; cases "w2 i") (auto intro: shrinks_trans)
  then show ?thesis by (simp add: wshrinks_def)
qed

lemma wshrinks_upd: "w i = Some d \<Longrightarrow> shrinks d d' \<Longrightarrow> wshrinks w (w(i \<mapsto> d'))"
  by (auto simp: wshrinks_def intro: option.rel_refl)

lemma wshrinksD:
  assumes "wshrinks w w'" "w i = Some d"
  obtains d' where "w' i = Some d'" "shrinks d d'"
proof -
  have "rel_option shrinks (w i) (w' i)" using assms(1) by (simp add: wshrinks_def)
  with assms(2) show ?thesis using that by (cases "w' i") auto
qed

lemma shrinks_chan:
  assumes "shrinks d d'" "chan d p = Some c"
  obtains c' where "chan d' p = Some c'" "shut_rel c c'"
proof -
  have "rel_option shut_rel (chan d p) (chan d' p)" using assms(1) by (simp add: shrinks_def)
  with assms(2) show ?thesis using that by (cases "chan d' p") (auto simp: shut_rel_def)
qed

text \<open>The port is closed in \<open>w'\<close>: it is free and no event of it is pending.\<close>

definition port_closed :: "ev_world \<Rightarrow> domid \<Rightarrow> nat \<Rightarrow> bool" where
  "port_closed w i p \<longleftrightarrow> (\<exists>d c. w i = Some d \<and> chan d p = Some c \<and> ec_state c = ECS_FREE \<and>
     notify_vcpu_id c = 0 \<and> \<not> evtchn_pending d p)"

text \<open>The outcome of a pass that ends: the invariant, and the port closed.\<close>

definition closes :: "ev_world \<Rightarrow> domid \<Rightarrow> nat \<Rightarrow> ev_world \<Rightarrow> bool" where
  "closes w i p w' \<longleftrightarrow> world_inv w' \<and> wshrinks w w' \<and> port_closed w' i p"

lemma close_local:
  assumes inv: "world_inv w" and d: "w i = Some d" and c: "chan d p = Some c"
    and d1: "chan d1 p = Some c" "dlinks d1 = dlinks d"
    and nl: "link_of c = None"
    and fin: "\<And>d'. view d' = (view d1)\<lparr>vw_chan := (chan d1)(p \<mapsto> c\<lparr>ec_state := ECS_FREE, notify_vcpu_id := 0\<rparr>)\<rparr> \<Longrightarrow>
      vcpu d' = vcpu d1 \<Longrightarrow> dom_inv d' \<and> shrinks d d'"
  shows "\<exists>w'. close_finish (w(i \<mapsto> d1)) i p = Some (Closed None w') \<and> closes w i p w'"
proof -
  let ?w = "w(i \<mapsto> d1)"
  let ?c = "c\<lparr>ec_state := ECS_FREE, notify_vcpu_id := 0\<rparr>"
  have wi: "?w i = Some d1" by simp
  obtain d' where d': "close_finish ?w i p = Some (Closed None (?w(i \<mapsto> d')))"
    "view d' = (view d1)\<lparr>vw_chan := (chan d1)(p \<mapsto> ?c)\<rparr>" "vcpu d' = vcpu d1"
    "evtchn_pending d' = (evtchn_pending d1)(p := False)"
    by (rule close_finish_view [where w = ?w and i = i, OF wi d1(1)])
  have ch: "chan d' = (chan d1)(p \<mapsto> ?c)" by (rule view_chanD [OF d'(2)])
  have "dlinks d' = dlinks d"
    unfolding d1(2) [symmetric] using nl d1(1) by (auto simp: dlinks_def ch fun_eq_iff)
  then have "world_inv (w(i \<mapsto> d'))" using world_inv_upd [OF inv d] fin [OF d'(2,3)] by blast
  moreover have "wshrinks w (w(i \<mapsto> d'))" using wshrinks_upd [of w i d] d fin [OF d'(2,3)] by blast
  moreover have "port_closed (w(i \<mapsto> d')) i p" by (simp add: port_closed_def ch d'(4))
  ultimately show ?thesis using d'(1) by (auto simp: closes_def)
qed

lemma close_plain:
  assumes inv: "world_inv w" and d: "w i = Some d" and c: "chan d p = Some c"
    and st: "plain (ec_state c)" "link_of c = None" "\<not> consumer_is_xen c"
  shows "\<exists>w'. close_finish w i p = Some (Closed None w') \<and> closes w i p w'"
proof -
  let ?c = "c\<lparr>ec_state := ECS_FREE, notify_vcpu_id := 0\<rparr>"
  have di: "dom_inv d" by (rule world_invD [OF inv d])
  have "\<exists>w'. close_finish (w(i \<mapsto> d)) i p = Some (Closed None w') \<and> closes w i p w'"
  proof (rule close_local [OF inv d c c refl st(2)])
    fix d' assume v: "view d' = (view d)\<lparr>vw_chan := (chan d)(p \<mapsto> ?c)\<rparr>" and vc: "vcpu d' = vcpu d"
    have "view_inv (view d')"
      unfolding v using inv_plain [of "view d" p c ?c] di c st by (simp add: dom_inv_def)
    moreover have "shrinks d d'"
      using v c by (simp add: shrinks_def view_def shut_rel_def)
    ultimately show "dom_inv d' \<and> shrinks d d'" using di vc by (simp add: dom_inv_def)
  qed
  with d show ?thesis by (simp add: fun_upd_idem)
qed

lemma close_virq:
  assumes inv: "world_inv w" and d: "w i = Some d" and c: "chan d p = Some c"
    and st: "ec_state c = ECS_VIRQ vi" "\<not> consumer_is_xen c"
  shows "\<exists>w'. close_finish (w(i \<mapsto> d\<lparr>vcpu := (\<lambda>j. clear_virq vi p (vcpu d j))\<rparr>)) i p = Some (Closed None w') \<and>
    closes w i p w'"
proof -
  let ?c = "c\<lparr>ec_state := ECS_FREE, notify_vcpu_id := 0\<rparr>"
  let ?d = "d\<lparr>vcpu := (\<lambda>j. clear_virq vi p (vcpu d j))\<rparr>"
  have di: "dom_inv d" by (rule world_invD [OF inv d])
  have ch: "chan ?d = chan d" "MAX_EVTCHNS ?d = MAX_EVTCHNS d" by (rule view_cong; simp)+
  have cv: "map_option (\<lambda>x. (virq_to_evtchn x, pirq_evtchn_head x)) (clear_virq vi p v) =
      map_option (\<lambda>(t, h). (if t vi = p then t(vi := 0) else t, h))
        (map_option (\<lambda>x. (virq_to_evtchn x, pirq_evtchn_head x)) v)" for v
    by (cases v) auto
  have vd: "view ?d = (view d)\<lparr>vw_vcpu := (\<lambda>v. map_option (\<lambda>(t, h). (if t vi = p then t(vi := 0) else t, h)) (vw_vcpu (view d) v))\<rparr>"
    using ch by (simp add: view_def cv)
  show ?thesis
  proof (rule close_local [OF inv d c])
    show "chan ?d p = Some c" "dlinks ?d = dlinks d" "link_of c = None"
      using ch c st by (simp_all add: dlinks_def fun_eq_iff)
    fix d' assume v: "view d' = (view ?d)\<lparr>vw_chan := (chan ?d)(p \<mapsto> ?c)\<rparr>" and vc: "vcpu d' = vcpu ?d"
    have v': "view d' = (view d)\<lparr>vw_chan := (vw_chan (view d))(p \<mapsto> ?c), vw_vcpu := (\<lambda>v. map_option (\<lambda>(t, h). (if t vi = p then t(vi := 0) else t, h)) (vw_vcpu (view d) v))\<rparr>"
      unfolding v vd ch(1) by simp
    have "view_inv (view d')"
      unfolding v' by (rule inv_virq_close [of "view d" p c vi ?c]) (use di c st in \<open>simp_all add: dom_inv_def\<close>)
    moreover have "shrinks d d'"
      using v c ch by (simp add: shrinks_def view_def shut_rel_def)
    moreover have "vcpu d' 0 \<noteq> None" using di vc by (cases "vcpu d 0") (simp_all add: dom_inv_def)
    ultimately show "dom_inv d' \<and> shrinks d d'" by (simp add: dom_inv_def)
  qed
qed

lemma link_of_set [simp]: "link_of (set_next_port n c) = link_of c" "link_of (set_prev_port n c) = link_of c"
  by (auto simp: link_of_def set_next_port_def set_prev_port_def split: ecs.split)

lemma shut_set [simp]: "shut (set_next_port n c) = shut c" "shut (set_prev_port n c) = shut c"
  by (auto simp: shut_def set_next_port_def set_prev_port_def split: ecs.split)

lemma relink_links:
  "Option.bind (prev_set a n C q) link_of = Option.bind (C q) link_of"
  "Option.bind (next_set n a C q) link_of = Option.bind (C q) link_of"
  by (cases "C q"; auto simp: prev_set_def next_set_def)+

lemma relink_shut:
  "rel_option shut_rel (C q) (prev_set a n C q)"
  "rel_option shut_rel (C q) (next_set n a C q)"
  by (cases "C q"; auto simp: prev_set_def next_set_def shut_rel_def)+

lemma view_pirq:
  "view (d\<lparr>pirq_to_evtchn := P\<rparr>) = (view d)\<lparr>vw_pirq := P\<rparr>" "view (emit x d) = view d"
proof -
  have "chan (d\<lparr>pirq_to_evtchn := P\<rparr>) = chan d" "MAX_EVTCHNS (d\<lparr>pirq_to_evtchn := P\<rparr>) = MAX_EVTCHNS d"
    "chan (emit x d) = chan d" "MAX_EVTCHNS (emit x d) = MAX_EVTCHNS d"
    by (rule view_cong; simp add: emit_def)+
  then show "view (d\<lparr>pirq_to_evtchn := P\<rparr>) = (view d)\<lparr>vw_pirq := P\<rparr>" "view (emit x d) = view d"
    by (simp_all add: view_def emit_def)
qed

lemma close_pirq:
  assumes inv: "world_inv w" and d: "w i = Some d" and c: "chan d p = Some c"
    and st: "ec_state c = ECS_PIRQ irq n a" "\<not> consumer_is_xen c"
    and d0: "view d0 = (view d)\<lparr>vw_pirq := (pirq_to_evtchn d)(irq := 0)\<rparr>" "vcpu d0 = vcpu d"
  obtains d1 w' where "unlink_pirq_port d0 c (notify_vcpu_id c) = Some d1" "is_hvm_domain d1 = is_hvm_domain d0"
    "\<And>d2. view d2 = view d1 \<Longrightarrow> \<exists>w'. close_finish (w(i \<mapsto> d2)) i p = Some (Closed None w') \<and> closes w i p w'"
proof -
  let ?v = "notify_vcpu_id c" and ?c = "c\<lparr>ec_state := ECS_FREE, notify_vcpu_id := 0\<rparr>"
  have di: "dom_inv d" and vi: "view_inv (view d)" using world_invD [OF inv d] by (auto simp: dom_inv_def)
  have cv: "vw_chan (view d) p = Some c" using c by simp
  note nb = pirq_neighbours [OF vi cv st(1), simplified]
  obtain x where x: "vcpu d ?v = Some x" using nb(5) by auto
  have x0: "vcpu d0 ?v = Some x" using d0(2) x by simp
  have ch0: "chan d0 = chan d" using d0(1) by (simp add: view_def)
  have "a \<noteq> 0 \<Longrightarrow> chan d0 a \<noteq> None" "n \<noteq> 0 \<Longrightarrow> chan d0 n \<noteq> None" using nb ch0 by auto
  then obtain d1 where d1: "unlink_pirq_port d0 c ?v = Some d1" "kept d0 d1"
    "view d1 = (view d0)\<lparr>vw_chan := prev_set a n (next_set n a (chan d0)),
       vw_vcpu := (vw_vcpu (view d0))(?v \<mapsto> (virq_to_evtchn x, if a = 0 then n else pirq_evtchn_head x))\<rparr>"
    using unlink_view [OF st(1) x0] by metis
  let ?C = "prev_set a n (next_set n a (chan d))"
  have ch1: "chan d1 = ?C" using d1(3) ch0 by (simp add: view_def)
  have p1: "?C p = Some c" using nb(3,4) c by (auto simp: prev_set_def next_set_def)
  show ?thesis
  proof (rule that [OF d1(1)])
    show "is_hvm_domain d1 = is_hvm_domain d0" using d1(2) by (simp add: kept_def)
    fix d2 assume v2: "view d2 = view d1"
    have ch2: "chan d2 = ?C" using v2 ch1 by (simp add: view_def)
    show "\<exists>w'. close_finish (w(i \<mapsto> d2)) i p = Some (Closed None w') \<and> closes w i p w'"
    proof (rule close_local [OF inv d c])
      show "chan d2 p = Some c" "dlinks d2 = dlinks d" "link_of c = None"
        using p1 st(1) ch2 by (simp_all add: dlinks_def relink_links fun_eq_iff)
      fix d' assume v: "view d' = (view d2)\<lparr>vw_chan := (chan d2)(p \<mapsto> ?c)\<rparr>" and vc: "vcpu d' = vcpu d2"
      have v': "view d' = (view d)\<lparr>vw_chan := ?C(p \<mapsto> ?c),
        vw_vcpu := (vw_vcpu (view d))(?v \<mapsto> (virq_to_evtchn x, if a = 0 then n else pirq_evtchn_head x)),
        vw_pirq := (vw_pirq (view d))(irq := 0)\<rparr>"
        unfolding v v2 d1(3) d0(1) ch2 by simp
      have "view_inv (view d')"
        unfolding v' prev_set_def next_set_def view_simps(1) [of d, symmetric]
        by (rule inv_pirq_unlink [OF vi cv st(1)]) (use x st in simp_all)
      moreover have "shrinks d d'"
      proof -
        have "rel_option shut_rel (chan d q) ((?C(p \<mapsto> ?c)) q)" for q
          using shut_rel_trans [OF relink_shut(2) [of "chan d" q n a] relink_shut(1) [of "next_set n a (chan d)" q a n]] c by (simp add: shut_rel_def)
        then show ?thesis using v' by (simp add: shrinks_def view_def)
      qed
      moreover have "vcpu d' 0 \<noteq> None"
      proof -
        have "vw_vcpu (view d) 0 \<noteq> None" using di by (simp add: dom_inv_def)
        then have "vw_vcpu (view d') 0 \<noteq> None" unfolding v' by simp
        then show ?thesis by simp
      qed
      ultimately show "dom_inv d' \<and> shrinks d d'" by (simp add: dom_inv_def)
    qed
  qed
qed

lemma peer_channel:
  assumes "world_inv w" "w i = Some d" "chan d p = Some c" "ec_state c = ECS_INTERDOMAIN j q"
  obtains rd rc where "w j = Some rd" "chan rd q = Some rc" "ec_state rc = ECS_INTERDOMAIN i p"
proof -
  have "links w i p = Some (j, q)" using assms by (simp add: links_def dlinks_def)
  then have "links w j q = Some (i, p)" using assms(1) peersD by (auto simp: world_inv_def)
  then show ?thesis using that by (auto simp: links_def dlinks_def bind_eq_Some_conv dest!: link_of_SomeD)
qed

lemma close_finish_plain:
  assumes inv: "doms_inv w" and d: "w i = Some d" and c: "chan d p = Some c"
    and st: "plain (ec_state c)" "\<not> consumer_is_xen c"
  obtains d' where "close_finish w i p = Some (Closed None (w(i \<mapsto> d')))" "doms_inv (w(i \<mapsto> d'))"
    "chan d' = (chan d)(p \<mapsto> c\<lparr>ec_state := ECS_FREE, notify_vcpu_id := 0\<rparr>)"
    "links (w(i \<mapsto> d')) = (links w)(i := (links w i)(p := None))"
    "shrinks d d'" "\<not> evtchn_pending d' p"
proof -
  let ?c = "c\<lparr>ec_state := ECS_FREE, notify_vcpu_id := 0\<rparr>"
  obtain d' where d': "close_finish w i p = Some (Closed None (w(i \<mapsto> d')))"
    "view d' = (view d)\<lparr>vw_chan := (chan d)(p \<mapsto> ?c)\<rparr>"
    "vcpu d' = vcpu d" "evtchn_pending d' = (evtchn_pending d)(p := False)"
    by (rule close_finish_view [where w = w and i = i, OF d c])
  have di: "dom_inv d" using inv d by (auto simp: doms_inv_def)
  have ch: "chan d' = (chan d)(p \<mapsto> ?c)" by (rule view_chanD [OF d'(2)])
  have "view_inv (view d')"
    unfolding d'(2) using inv_plain [of "view d" p c ?c] di c st by (simp add: dom_inv_def)
  then have "doms_inv (w(i \<mapsto> d'))" using inv di d'(3) by (auto simp: doms_inv_def dom_inv_def)
  moreover have "dlinks d' = (dlinks d)(p := None)" by (auto simp: dlinks_def ch fun_eq_iff)
  then have "links (w(i \<mapsto> d')) = (links w)(i := (links w i)(p := None))"
    using links_at [of w i d] d by (simp add: links_upd)
  moreover have "shrinks d d'"
    using d'(2) c by (simp add: shrinks_def view_def shut_rel_def)
  ultimately show ?thesis using d' ch by (intro that [of d']) auto
qed

text \<open>Closing one end of an interdomain channel: the other end waits for a new connection.\<close>

lemma close_interdomain:
  assumes inv: "world_inv w" and d: "w i = Some d" and c: "chan d p = Some c"
    and st: "ec_state c = ECS_INTERDOMAIN j q" "\<not> consumer_is_xen c"
  obtains w1 w' rd where
    "on_domain w j (\<lambda>d. upd_evtchn d q (\<lambda>c. c\<lparr>ec_state := ECS_UNBOUND i\<rparr>)) = Some w1"
    "close_finish w1 i p = Some (Closed None w')" "closes w i p w'"
    "(j, q) \<noteq> (i, p) \<Longrightarrow> \<exists>rd rc. w' j = Some rd \<and> chan rd q = Some rc \<and> ec_state rc = ECS_UNBOUND i"
proof -
  let ?f = "\<lambda>c. c\<lparr>ec_state := ECS_UNBOUND i\<rparr>"
  let ?c = "c\<lparr>ec_state := ECS_FREE, notify_vcpu_id := 0\<rparr>"
  obtain rd rc where rd: "w j = Some rd" "chan rd q = Some rc" "ec_state rc = ECS_INTERDOMAIN i p"
    by (rule peer_channel [OF inv d c st(1)])
  have dw: "doms_inv w" using inv by (simp add: world_inv_iff)
  have "dom_inv rd" by (rule world_invD [OF inv rd(1)])
  then have fr: "plain (ec_state rc)" "plain (ec_state (?f rc))"
    "ec_state (?f rc) = ECS_FREE \<Longrightarrow> \<not> consumer_is_xen (?f rc) \<and> notify_vcpu_id (?f rc) = 0"
    "vcpu rd (notify_vcpu_id (?f rc)) \<noteq> None"
    using rd dom_inv_notify by simp_all
  obtain rd1 where rd1: "on_domain w j (\<lambda>d. upd_evtchn d q ?f) = Some (w(j \<mapsto> rd1))" "doms_inv (w(j \<mapsto> rd1))"
    "chan rd1 = (chan rd)(q \<mapsto> ?f rc)" "same_rest rd rd1"
    "links (w(j \<mapsto> rd1)) = (links w)(j := (links w j)(q := link_of (?f rc)))"
    "view rd1 = (view rd)\<lparr>vw_chan := (chan rd)(q \<mapsto> ?f rc)\<rparr>"
    by (rule on_upd_plain [where f = ?f, OF dw rd(1,2) fr])
  let ?w1 = "w(j \<mapsto> rd1)"
  have s1: "shrinks rd rd1"
    using rd1(6) rd by (simp add: shrinks_def view_def shut_rel_def shut_def)
  obtain d1 c1 where d1: "?w1 i = Some d1" "chan d1 p = Some c1" "plain (ec_state c1)" "\<not> consumer_is_xen c1"
    using d c st rd rd1(3) by (cases "i = j"; cases "p = q") auto
  obtain d' where d': "close_finish ?w1 i p = Some (Closed None (?w1(i \<mapsto> d')))" "doms_inv (?w1(i \<mapsto> d'))"
    "chan d' = (chan d1)(p \<mapsto> c1\<lparr>ec_state := ECS_FREE, notify_vcpu_id := 0\<rparr>)"
    "links (?w1(i \<mapsto> d')) = (links ?w1)(i := (links ?w1 i)(p := None))" "shrinks d1 d'" "\<not> evtchn_pending d' p"
    by (rule close_finish_plain [where w = ?w1 and i = i, OF rd1(2) d1])
  have "peers (links (?w1(i \<mapsto> d')))"
  proof (rule peers_disconnect [where L = "links w" and L' = "links ?w1" and i = i and j = j and p = p and q = q])
    show "peers (links w)" using inv by (simp add: world_inv_def)
    show "links w i p = Some (j, q)" using d c st by (simp add: links_def dlinks_def)
    show "links ?w1 = (links w)(j := (links w j)(q := None))" using rd1(5) by simp
  qed (rule d'(4))
  then have "world_inv (?w1(i \<mapsto> d'))" using d'(2) by (simp add: world_inv_iff)
  moreover have "wshrinks w (?w1(i \<mapsto> d'))"
    by (rule wshrinks_trans [of w ?w1]; rule wshrinks_upd) (use rd s1 d1 d' in auto)
  moreover have "port_closed (?w1(i \<mapsto> d')) i p" using d' by (simp add: port_closed_def)
  ultimately have cl: "closes w i p (?w1(i \<mapsto> d'))" by (simp add: closes_def)
  show ?thesis
  proof (rule that [OF rd1(1) d'(1) cl])
    assume "(j, q) \<noteq> (i, p)"
    with rd1(3) d1(1) d'(3) show "\<exists>rd rc. (?w1(i \<mapsto> d')) j = Some rd \<and> chan rd q = Some rc \<and> ec_state rc = ECS_UNBOUND i"
      by (cases "i = j") auto
  qed
qed

text \<open>
  One pass of \<^verbatim>\<open>__evtchn_close\<close> in a state of the invariant: it never stops the machine, and it
  ends by a refusal that changes nothing, by closing the port, or by asking for a second pass.
\<close>

definition closable :: "evtchn \<Rightarrow> bool" where
  "closable c \<longleftrightarrow> \<not> consumer_is_xen c \<and> \<not> shut c"

lemma close_body_local:
  assumes inv: "world_inv w" and d: "w i = Some d" and c: "chan d p = Some c" "closable c"
    and st: "\<not> is_ECS_INTERDOMAIN (ec_state c)"
  shows "\<exists>w'. evtchn_close_body env i p d2 w = Some (Closed None w') \<and> closes w i p w'"
proof -
  have nx: "\<not> consumer_is_xen c" and ns: "ec_state c \<noteq> ECS_FREE" "ec_state c \<noteq> ECS_RESERVED"
    using c by (auto simp: closable_def shut_def)
  note body = evtchn_close_body_def port_is_valid_iff chan_from_port [OF c(1)]
  show ?thesis
  proof (cases "ec_state c")
    case (ECS_UNBOUND r)
    then show ?thesis using close_plain [OF inv d c(1)] d c nx by (simp add: body)
  next
    case ECS_IPI
    then show ?thesis using close_plain [OF inv d c(1)] d c nx by (simp add: body)
  next
    case (ECS_VIRQ vi)
    then show ?thesis using close_virq [OF inv d c(1) ECS_VIRQ nx] d c nx by (simp add: body)
  next
    case (ECS_PIRQ irq n a)
    let ?d0 = "(if \<not> is_hvm_domain d then emit (Pirq_guest_unbind irq) d else d)\<lparr>pirq_to_evtchn := (pirq_to_evtchn d)(irq := 0)\<rparr>"
    have v0: "view ?d0 = (view d)\<lparr>vw_pirq := (pirq_to_evtchn d)(irq := 0)\<rparr>" "vcpu ?d0 = vcpu d"
      by (simp_all add: view_pirq) (simp_all add: emit_def)
    have e: "pirq_to_evtchn (emit x d) = pirq_to_evtchn d" for x
      by (simp add: emit_def)
    obtain d1 where d1: "unlink_pirq_port ?d0 c (notify_vcpu_id c) = Some d1"
      "\<And>d2. view d2 = view d1 \<Longrightarrow> \<exists>w'. close_finish (w(i \<mapsto> d2)) i p = Some (Closed None w') \<and> closes w i p w'"
      using close_pirq [OF inv d c(1) ECS_PIRQ nx v0] by metis
    let ?d2 = "if is_hvm_domain d1 \<and> domain_pirq_to_irq env i irq > 0 then emit (Unmap_emuirq irq) d1 else d1"
    have v2: "view ?d2 = view d1" by (simp add: view_pirq)
    obtain w' where w': "close_finish (w(i \<mapsto> ?d2)) i p = Some (Closed None w')" "closes w i p w'"
      using d1(2) [of ?d2] v2 by blast
    have "evtchn_close_body env i p d2 w = close_finish (w(i \<mapsto> ?d2)) i p"
      using d c nx ECS_PIRQ d1(1) by (cases "is_hvm_domain d") (simp_all add: body e)
    with w' show ?thesis by simp
  qed (use st ns in auto)
qed

lemma close_body_interdomain:
  assumes inv: "world_inv w" and d: "w i = Some d" and c: "chan d p = Some c" "closable c"
    and I: "ec_state c = ECS_INTERDOMAIN j q"
  shows "evtchn_close_body env i p d2 w =
      (if d2 = None \<and> \<not> dom_before env i j \<and> i \<noteq> j then Some (Again j)
       else if d2 \<noteq> None \<and> d2 \<noteq> Some j then Some (Closed (Some EINVAL) w)
       else evtchn_close_body env i p (Some j) w)"
    and "\<exists>w'. evtchn_close_body env i p (Some j) w = Some (Closed None w') \<and> closes w i p w'"
proof -
  have nx: "\<not> consumer_is_xen c" using c by (auto simp: closable_def)
  note body = evtchn_close_body_def port_is_valid_iff chan_from_port [OF c(1)]
  obtain rd rc where rd: "w j = Some rd" "chan rd q = Some rc" "ec_state rc = ECS_INTERDOMAIN i p"
    by (rule peer_channel [OF inv d c(1) I])
  obtain w1 w' where w': "on_domain w j (\<lambda>d. upd_evtchn d q (\<lambda>c. c\<lparr>ec_state := ECS_UNBOUND i\<rparr>)) = Some w1"
    "close_finish w1 i p = Some (Closed None w')" "closes w i p w'"
    using close_interdomain [OF inv d c(1) I nx] by metis
  have "evtchn_close_body env i p (Some j) w = Some (Closed None w')"
    using d c nx I rd w' chan_from_port [OF rd(2)] by (simp add: body)
  with w' show "\<exists>w'. evtchn_close_body env i p (Some j) w = Some (Closed None w') \<and> closes w i p w'" by blast
  show "evtchn_close_body env i p d2 w =
      (if d2 = None \<and> \<not> dom_before env i j \<and> i \<noteq> j then Some (Again j)
       else if d2 \<noteq> None \<and> d2 \<noteq> Some j then Some (Closed (Some EINVAL) w)
       else evtchn_close_body env i p (Some j) w)"
    using d c nx I rd by (cases d2) (simp_all add: body)
qed

lemma close_body_cases:
  assumes inv: "world_inv w" and d: "w i = Some d"
  shows "(\<exists>w'. evtchn_close_body env i p d2 w = Some (Closed None w') \<and> closes w i p w' \<and>
      (\<exists>c. chan d p = Some c \<and> closable c)) \<or>
    (evtchn_close_body env i p d2 w = Some (Closed (Some EINVAL) w) \<and>
      ((\<exists>c. chan d p = Some c \<and> closable c) \<longrightarrow>
        (\<exists>j. d2 = Some j \<and> (\<forall>c q. chan d p = Some c \<longrightarrow> ec_state c \<noteq> ECS_INTERDOMAIN j q)))) \<or>
    (\<exists>j. evtchn_close_body env i p d2 w = Some (Again j) \<and> d2 = None \<and>
      (\<exists>c q. chan d p = Some c \<and> closable c \<and> ec_state c = ECS_INTERDOMAIN j q))"
proof (cases "\<exists>c. chan d p = Some c \<and> closable c")
  case False
  then have "evtchn_close_body env i p d2 w = Some (Closed (Some EINVAL) w)"
  proof (cases "chan d p")
    case None
    then show ?thesis using d by (simp add: evtchn_close_body_def port_is_valid_iff)
  next
    case (Some c)
    with False d show ?thesis
      by (auto simp: evtchn_close_body_def port_is_valid_iff chan_from_port closable_def shut_def)
  qed
  with False show ?thesis by blast
next
  case True
  then obtain c where c: "chan d p = Some c" "closable c" by blast
  show ?thesis
  proof (cases "is_ECS_INTERDOMAIN (ec_state c)")
    case False
    then show ?thesis using close_body_local [OF inv d c] c by blast
  next
    case True
    then obtain j q where I: "ec_state c = ECS_INTERDOMAIN j q" by (cases "ec_state c") auto
    show ?thesis
      using close_body_interdomain(2) [OF inv d c I, of env] c I
      unfolding close_body_interdomain(1) [OF inv d c I, of env d2] by (cases d2) auto
  qed
qed

text \<open>The call with no other operation between its two passes.\<close>

lemma close_at_cases:
  assumes inv: "world_inv w" and d: "w i = Some d"
  shows "if \<exists>c. chan d p = Some c \<and> closable c
    then \<exists>w'. evtchn_close_at env i p w = Some (None, w') \<and> closes w i p w'
    else evtchn_close_at env i p w = Some (Some EINVAL, w)"
  using close_body_cases [OF inv d, of env p None]
proof (elim disjE exE conjE, goal_cases)
  case (3 j c q)
  from close_body_cases [OF inv d, of env p "Some j"] 3
  obtain w' where "evtchn_close_body env i p (Some j) w = Some (Closed None w')" "closes w i p w'" by auto
  with 3 show ?thesis by (auto simp: evtchn_close_at_def)
qed (auto simp: evtchn_close_at_def)

section \<open>Physical interrupts\<close>

text \<open>
  Linking a port keeps the invariant: \<open>V\<close> is the state in which the port is still free, \<open>d\<close> the
  domain in which its channel and the interrupt table are already set.
\<close>

lemma link_inv:
  assumes V: "view_inv V" "vw_chan V p = Some c0" "ec_state c0 = ECS_FREE" "vw_pirq V irq = 0"
    and d: "view d = V\<lparr>vw_chan := (vw_chan V)(p \<mapsto> c), vw_pirq := (vw_pirq V)(irq := p)\<rparr>"
    and c: "ec_state c = ECS_PIRQ irq n a" "notify_vcpu_id c = v" and x: "vcpu d v = Some x"
  obtains d' h where "link_pirq_port d p v = Some d'" "kept d d'" "view_inv (view d')"
    "chan d' = (prev_set p h (vw_chan V))(p \<mapsto> c\<lparr>ec_state := ECS_PIRQ irq h 0\<rparr>)"
    "\<forall>u. vw_vcpu V u \<noteq> None \<longrightarrow> vcpu d' u \<noteq> None"
proof -
  let ?h = "pirq_evtchn_head x"
  let ?c = "c\<lparr>ec_state := ECS_PIRQ irq ?h 0\<rparr>"
  have ch: "chan d = (vw_chan V)(p \<mapsto> c)" and vv: "vw_vcpu (view d) = vw_vcpu V"
    unfolding view_simps(1) [symmetric] d by simp_all
  have vx: "vw_vcpu V v = Some (virq_to_evtchn x, ?h)" unfolding vv [symmetric] using x by simp
  have c': "ec_state ?c = ECS_PIRQ irq ?h 0" "notify_vcpu_id ?c = v" using c by simp_all
  note lk = inv_pirq_link [OF V(1-3) vx V(4) c', folded prev_set_def]
  have "?h \<noteq> 0 \<Longrightarrow> chan d ?h \<noteq> None" using lk(2,3) ch by simp
  moreover have "chan d p = Some c" using ch by simp
  ultimately obtain d' where d': "link_pirq_port d p v = Some d'" "kept d d'"
    "view d' = (view d)\<lparr>vw_chan := (prev_set p ?h (chan d))(p \<mapsto> ?c),
       vw_vcpu := (vw_vcpu (view d))(v \<mapsto> (virq_to_evtchn x, p))\<rparr>"
    using link_view [OF _ c(1) x refl lk(2)] by metis
  have pe: "(prev_set p ?h (chan d))(p \<mapsto> ?c) = (prev_set p ?h (vw_chan V))(p \<mapsto> ?c)"
    using lk(2) by (auto simp: prev_set_def ch fun_eq_iff)
  have v': "view d' = V\<lparr>vw_chan := (prev_set p ?h (vw_chan V))(p \<mapsto> ?c),
      vw_vcpu := (vw_vcpu V)(v \<mapsto> (virq_to_evtchn x, p)), vw_pirq := (vw_pirq V)(irq := p)\<rparr>"
    unfolding d'(3) pe vv d by simp
  show ?thesis
  proof (rule that [OF d'(1,2)])
    show "view_inv (view d')" unfolding v' by (rule lk(1))
    show "chan d' = (prev_set p ?h (vw_chan V))(p \<mapsto> ?c)" unfolding view_simps(1) [symmetric] v' by simp
    have "vw_vcpu (view d') u \<noteq> None" if "vw_vcpu V u \<noteq> None" for u unfolding v' using that by simp
    then show "\<forall>u. vw_vcpu V u \<noteq> None \<longrightarrow> vcpu d' u \<noteq> None" by simp
  qed
qed

lemma bind_pirq_link:
  assumes inv: "dom_inv d" and c: "chan d p = Some c" "ec_state c = ECS_FREE" and z: "pirq_to_evtchn d irq = 0"
  obtains d1 d2 where
    "upd_evtchn (d\<lparr>pirq_to_evtchn := (pirq_to_evtchn d)(irq := p)\<rparr>) p (\<lambda>c. c\<lparr>ec_state := ECS_PIRQ irq 0 0\<rparr>) = Some d1"
    "link_pirq_port d1 p 0 = Some d2" "dom_inv d2" "dlinks d2 = dlinks d" "is_hvm_domain d2 = is_hvm_domain d"
proof -
  have vi: "view_inv (view d)" using inv by (simp add: dom_inv_def)
  have n0: "notify_vcpu_id c = 0" using vi c by (auto simp: view_inv_def inv_free_def)
  let ?f = "\<lambda>c. c\<lparr>ec_state := ECS_PIRQ irq 0 0\<rparr>"
  let ?d = "d\<lparr>pirq_to_evtchn := (pirq_to_evtchn d)(irq := p)\<rparr>"
  have v: "view ?d = (view d)\<lparr>vw_pirq := (pirq_to_evtchn d)(irq := p)\<rparr>" by (rule view_pirq)
  then have ch: "chan ?d = chan d" by (simp add: view_def)
  then have "chan ?d p \<noteq> None" using c by simp
  then obtain d1 where d1: "upd_evtchn ?d p ?f = Some d1"
    "view d1 = (view ?d)\<lparr>vw_chan := (chan ?d)(p := map_option ?f (chan ?d p))\<rparr>" "vcpu d1 = vcpu ?d" "kept ?d d1"
    by (rule upd_evtchn_kept)
  have V: "vw_chan (view d) p = Some c" "vw_pirq (view d) irq = 0" using c z by simp_all
  have v1: "view d1 = (view d)\<lparr>vw_chan := (vw_chan (view d))(p \<mapsto> ?f c), vw_pirq := (vw_pirq (view d))(irq := p)\<rparr>"
    unfolding d1(2) ch v using c by simp
  have f: "ec_state (?f c) = ECS_PIRQ irq 0 0" "notify_vcpu_id (?f c) = 0" using n0 by simp_all
  obtain x where x: "vcpu d1 0 = Some x" using inv d1(3) by (auto simp: dom_inv_def)
  obtain d2 h where d2: "link_pirq_port d1 p 0 = Some d2" "kept d1 d2" "view_inv (view d2)"
    "chan d2 = (prev_set p h (vw_chan (view d)))(p \<mapsto> (?f c)\<lparr>ec_state := ECS_PIRQ irq h 0\<rparr>)"
    "\<forall>u. vw_vcpu (view d) u \<noteq> None \<longrightarrow> vcpu d2 u \<noteq> None"
    by (rule link_inv [OF vi V(1) c(2) V(2) v1 f x])
  show ?thesis
  proof (rule that [OF d1(1) d2(1)])
    show "dom_inv d2" using d2(3) spec [OF d2(5), of 0] inv by (simp add: dom_inv_def)
    show "dlinks d2 = dlinks d" using d2(4) c by (simp add: dlinks_def relink_links fun_eq_iff)
    show "is_hvm_domain d2 = is_hvm_domain d" using d1(4) d2(2) by (simp add: kept_def)
  qed
qed

lemma bind_pirq_ok:
  assumes inv: "world_inv w" and env: "xsm_alloc_ok env" and cur: "w cur \<noteq> None"
  shows "ok (evtchn_bind_pirq env cur pirq share w)"
proof -
  obtain d where d: "w cur = Some d" using cur by blast
  show ?thesis
  proof (cases "pirq \<ge> unat (nr_pirqs (io_caps d)) \<or> (\<not> is_hvm_domain d \<and> \<not> irq_access_permitted (io_caps d) (of_nat pirq)) \<or>
      pirq_to_evtchn d pirq \<noteq> 0")
    case True
    with d inv show ?thesis by (auto simp: evtchn_bind_pirq_def)
  next
    case False
    obtain r d1 where r: "get_free_port env d = (r, d1)" by fastforce
    note g = get_free_port_inv [OF env world_invD [OF inv d] r]
    have w1: "world_inv (w(cur \<mapsto> d1))" using world_inv_upd [OF inv d] g by blast
    have z: "pirq_to_evtchn d1 pirq = 0" using g False by simp
    then have d1z: "d1\<lparr>pirq_to_evtchn := (pirq_to_evtchn d1)(pirq := 0)\<rparr> = d1" by (simp add: fun_upd_idem)
    show ?thesis
    proof (cases "(case r of Inl _ \<Rightarrow> True | _ \<Rightarrow> False) \<or>
        (\<not> is_hvm_domain d1 \<and> pirq_guest_bind env cur pirq share \<noteq> None)")
      case True
      with False d r w1 show ?thesis
        by (auto simp: evtchn_bind_pirq_def d1z split: sum.splits)
    next
      case ok: False
      then obtain port where port: "r = Inr port" by (cases r) auto
      then obtain c where c: "chan d1 port = Some c" "ec_state c = ECS_FREE" using g by auto
      obtain d2 d3 where d3: "upd_evtchn (d1\<lparr>pirq_to_evtchn := (pirq_to_evtchn d1)(pirq := port)\<rparr>) port
          (\<lambda>c. c\<lparr>ec_state := ECS_PIRQ pirq 0 0\<rparr>) = Some d2" "link_pirq_port d2 port 0 = Some d3" "dom_inv d3"
          "dlinks d3 = dlinks d1"
        using bind_pirq_link [OF _ c z] g by metis
      let ?d4 = "if is_hvm_domain d3 \<and> domain_pirq_to_irq env cur pirq > 0 then emit (Map_emuirq pirq) d3 else d3"
      have "quiet d3 ?d4" by (simp add: quiet_fields)
      then have "dom_inv ?d4 \<and> dlinks ?d4 = dlinks d3" by (rule dom_inv_quiet) (rule d3)
      then have "world_inv (w(cur \<mapsto> ?d4))" using world_inv_upd [OF inv d] d3(4) g by metis
      moreover have "evtchn_bind_pirq env cur pirq share w = Some (Inr port, w(cur \<mapsto> ?d4))"
        using False ok d r port d3(1,2) by (auto simp: evtchn_bind_pirq_def Let_def)
      ultimately show ?thesis by auto
    qed
  qed
qed

text \<open>Moving a port from the list of one vcpu to that of another.\<close>

lemma rebind_pirq:
  assumes inv: "dom_inv d" and c: "chan d p = Some c" "ec_state c = ECS_PIRQ irq n a"
    and v: "vcpu d v \<noteq> None"
  obtains d1 d2 x d3 where "unlink_pirq_port d c (notify_vcpu_id c) = Some d1"
    "upd_evtchn d1 p (\<lambda>c. c\<lparr>notify_vcpu_id := v\<rparr>) = Some d2" "vcpu d2 v = Some x"
    "link_pirq_port (emit e d2) p v = Some d3" "dom_inv d3" "dlinks d3 = dlinks d"
proof -
  let ?v = "notify_vcpu_id c" and ?f = "\<lambda>c. c\<lparr>notify_vcpu_id := v\<rparr>"
  let ?c0 = "c\<lparr>ec_state := ECS_FREE, notify_vcpu_id := 0, consumer_is_xen := False\<rparr>"
  have vi: "view_inv (view d)" using inv by (simp add: dom_inv_def)
  have cv: "vw_chan (view d) p = Some c" using c by simp
  note nb = pirq_neighbours [OF vi cv c(2), simplified]
  obtain y where y: "vcpu d ?v = Some y" using nb(5) by auto
  have "a \<noteq> 0 \<Longrightarrow> chan d a \<noteq> None" "n \<noteq> 0 \<Longrightarrow> chan d n \<noteq> None" using nb by auto
  then obtain d1 where d1: "unlink_pirq_port d c ?v = Some d1" "kept d d1"
    "view d1 = (view d)\<lparr>vw_chan := prev_set a n (next_set n a (chan d)),
       vw_vcpu := (vw_vcpu (view d))(?v \<mapsto> (virq_to_evtchn y, if a = 0 then n else pirq_evtchn_head y))\<rparr>"
    using unlink_view [OF c(2) y] by metis
  let ?C = "prev_set a n (next_set n a (chan d))"
  let ?V = "(view d)\<lparr>vw_chan := ?C(p \<mapsto> ?c0),
       vw_vcpu := (vw_vcpu (view d))(?v \<mapsto> (virq_to_evtchn y, if a = 0 then n else pirq_evtchn_head y)),
       vw_pirq := (vw_pirq (view d))(irq := 0)\<rparr>"
  have V: "view_inv ?V"
    unfolding prev_set_def next_set_def view_simps(1) [of d, symmetric]
    by (rule inv_pirq_unlink [OF vi cv c(2)]) (use y in simp_all)
  have p1: "?C p = Some c" using nb(3,4) c by (auto simp: prev_set_def next_set_def)
  have ch1: "chan d1 = ?C" using d1(3) by (simp add: view_def)
  then have "chan d1 p \<noteq> None" using p1 by simp
  then obtain d2 where d2: "upd_evtchn d1 p ?f = Some d2"
    "view d2 = (view d1)\<lparr>vw_chan := (chan d1)(p := map_option ?f (chan d1 p))\<rparr>" "vcpu d2 = vcpu d1" "kept d1 d2"
    by (rule upd_evtchn_kept)
  have "vw_pirq (view d) irq = p" using inv_pirqD(2) [of "view d" p c irq n a] vi cv c(2) by (simp add: view_inv_def)
  then have v2: "view (emit e d2) = ?V\<lparr>vw_chan := (vw_chan ?V)(p \<mapsto> ?f c), vw_pirq := (vw_pirq ?V)(irq := p)\<rparr>"
    unfolding view_pirq d2(2) ch1 p1 d1(3) by (simp add: fun_upd_idem)
  have Vp: "vw_chan ?V p = Some ?c0" "ec_state ?c0 = ECS_FREE" "vw_pirq ?V irq = 0" by simp_all
  have fc: "ec_state (?f c) = ECS_PIRQ irq n a" "notify_vcpu_id (?f c) = v" using c by simp_all
  have "vw_vcpu (view d) v \<noteq> None" using v by simp
  then have "vw_vcpu (view d1) v \<noteq> None" unfolding d1(3) by simp
  then obtain x where x: "vcpu d2 v = Some x" using d2(3) by auto
  then have x': "vcpu (emit e d2) v = Some x" by (simp add: emit_def)
  obtain d3 h where d3: "link_pirq_port (emit e d2) p v = Some d3" "view_inv (view d3)"
    "chan d3 = (prev_set p h (vw_chan ?V))(p \<mapsto> (?f c)\<lparr>ec_state := ECS_PIRQ irq h 0\<rparr>)"
    "\<forall>u. vw_vcpu ?V u \<noteq> None \<longrightarrow> vcpu d3 u \<noteq> None"
    by (rule link_inv [OF V Vp v2 fc x'])
  have "dom_inv d3" using d3(2) spec [OF d3(4), of 0] inv by (simp add: dom_inv_def)
  moreover have "dlinks d3 = dlinks d"
    using d3(3) c by (simp add: dlinks_def relink_links fun_eq_iff)
  ultimately show ?thesis using that d1(1) d2(1) x d3(1) by blast
qed

section \<open>Affinity, sending, masking\<close>

lemma upd_notify_inv:
  assumes "dom_inv d" "chan d p = Some c" "plain (ec_state c) \<and> ec_state c \<noteq> ECS_FREE \<or> is_ECS_VIRQ (ec_state c)"
    "vcpu d v \<noteq> None"
  obtains d' where "upd_evtchn d p (\<lambda>c. c\<lparr>notify_vcpu_id := v\<rparr>) = Some d'" "dom_inv d'" "dlinks d' = dlinks d"
proof -
  let ?c = "c\<lparr>notify_vcpu_id := v\<rparr>"
  obtain d' where d': "upd_evtchn d p (\<lambda>c. c\<lparr>notify_vcpu_id := v\<rparr>) = Some d'"
    "view d' = (view d)\<lparr>vw_chan := (chan d)(p \<mapsto> ?c)\<rparr>" "vcpu d' = vcpu d"
    by (rule upd_evtchn_view [OF assms(2), of "\<lambda>c. c\<lparr>notify_vcpu_id := v\<rparr>"])
  have "view_inv (view d')"
    using assms(3)
  proof
    assume "plain (ec_state c) \<and> ec_state c \<noteq> ECS_FREE"
    then show ?thesis
      unfolding d'(2) using inv_plain [of "view d" p c ?c] assms(1,2,4) by (simp add: dom_inv_def)
  next
    assume "is_ECS_VIRQ (ec_state c)"
    then obtain vi where "ec_state c = ECS_VIRQ vi" by (cases "ec_state c") auto
    then show ?thesis
      unfolding d'(2) using inv_virq_rebind [of "view d" p c vi v] assms(1,2,4) by (simp add: dom_inv_def)
  qed
  moreover have "dlinks d' = dlinks d"
    using view_chanD [OF d'(2)] assms(2) by (auto simp: dlinks_def link_of_def fun_eq_iff)
  ultimately show ?thesis using that d'(1,3) assms(1) by (auto simp: dom_inv_def)
qed

lemma bind_vcpu_ok:
  assumes inv: "world_inv w" and cur: "w cur \<noteq> None"
  shows "ok (evtchn_bind_vcpu cur port vc w)"
proof -
  obtain d where d: "w cur = Some d" using cur by blast
  have di: "dom_inv d" by (rule world_invD [OF inv d])
  show ?thesis
  proof (cases "vc \<ge> max_vcpus d \<or> vcpu d vc = None \<or> chan d port = None")
    case True
    with d inv show ?thesis by (auto simp: evtchn_bind_vcpu_def port_is_valid_iff)
  next
    case False
    then obtain c where c: "chan d port = Some c" by auto
    let ?plain = "plain (ec_state c) \<and> ec_state c \<noteq> ECS_FREE \<or> is_ECS_VIRQ (ec_state c)"
    note body = evtchn_bind_vcpu_def port_is_valid_iff chan_from_port [OF c]
    have notify: "ok (do { d \<leftarrow> upd_evtchn d port (\<lambda>c. c\<lparr>notify_vcpu_id := vc\<rparr>); Some (None, w(cur \<mapsto> d)) })" if pl: ?plain
    proof -
      obtain d' where "upd_evtchn d port (\<lambda>c. c\<lparr>notify_vcpu_id := vc\<rparr>) = Some d'" "dom_inv d'" "dlinks d' = dlinks d"
        using upd_notify_inv [OF di c pl] False by blast
      then show ?thesis using world_inv_upd [OF inv d] by auto
    qed
    show ?thesis
    proof (cases "is_ECS_PIRQ (ec_state c)")
      case True
      then obtain irq n a where st: "ec_state c = ECS_PIRQ irq n a" by (auto simp: is_PIRQ_iff)
      have v: "vcpu d vc \<noteq> None" using False by simp
      obtain d1 d2 x where d12: "unlink_pirq_port d c (notify_vcpu_id c) = Some d1"
        "upd_evtchn d1 port (\<lambda>c. c\<lparr>notify_vcpu_id := vc\<rparr>) = Some d2" "vcpu d2 vc = Some x"
        using rebind_pirq [OF di c st v] by metis
      obtain d3 where d3: "link_pirq_port (emit (Pirq_set_affinity irq (processor x)) d2) port vc = Some d3"
        "dom_inv d3" "dlinks d3 = dlinks d"
        using rebind_pirq [OF di c st v, of "Pirq_set_affinity irq (processor x)"] d12 by (metis option.inject)
      then have "world_inv (w(cur \<mapsto> d3))" using world_inv_upd [OF inv d] by blast
      with False d c st inv d12 d3(1) show ?thesis by (auto simp: body Let_def)
    next
      case np: False
      show ?thesis
        using False d c inv notify np by (cases "ec_state c") (auto simp: body Let_def)
    qed
  qed
qed

text \<open>
  Sending on a channel that connects two domains: the event of the other end is pending, unless
  the consumer there is Xen itself, in which case a vcpu blocked in Xen is woken.
\<close>

lemma send_interdomain:
  assumes inv: "world_inv w" and d: "w i = Some d" and c: "chan d p = Some c" "\<not> consumer_is_xen c"
    and st: "ec_state c = ECS_INTERDOMAIN j q" and xsm: "xsm_evtchn_send env i p = None"
    and rd: "w j = Some rd" "chan rd q = Some rc"
  obtains rd' where "evtchn_send env i p w = Some (None, w(j \<mapsto> rd'))" "world_inv (w(j \<mapsto> rd'))" "quiet rd rd'"
    "evtchn_pending rd' = (if consumer_is_xen rc then evtchn_pending rd else (evtchn_pending rd)(q := True))"
    "consumer_is_xen rc \<Longrightarrow> vcpu rd (notify_vcpu_id rc) = Some v \<Longrightarrow>
      vcpu rd' (notify_vcpu_id rc) = Some (v\<lparr>blocked_in_xen := False\<rparr>)"
proof -
  have di: "dom_inv rd" by (rule world_invD [OF inv rd(1)])
  have nv: "vcpu rd (notify_vcpu_id rc) \<noteq> None" by (rule dom_inv_notify [OF di rd(2)])
  then obtain x where x: "vcpu rd (notify_vcpu_id rc) = Some x" by blast
  note body = evtchn_send_def port_is_valid_iff chan_from_port [OF c(1)] chan_from_port [OF rd(2)]
  show ?thesis
  proof (cases "consumer_is_xen rc")
    case False
    obtain rd' where rd': "set_pending_at w j (notify_vcpu_id rc) q = Some (w(j \<mapsto> rd'))" "world_inv (w(j \<mapsto> rd'))"
      "quiet rd rd'" "evtchn_pending rd' = (evtchn_pending rd)(q := True)"
      by (rule set_pending_at_ok [OF inv rd(1) nv])
    with False d c st xsm rd show ?thesis by (intro that [of rd']) (auto simp: body)
  next
    case xen: True
    show ?thesis
    proof (cases "blocked_in_xen x")
      case False
      then have "evtchn_send env i p w = Some (None, w(j \<mapsto> rd))"
        using xen d c st xsm rd x by (simp add: body fun_upd_idem)
      with False xen x inv rd(1) show ?thesis by (intro that [of rd]) (simp_all add: fun_upd_idem)
    next
      case True
      obtain r1 where r1: "upd_vcpu rd (notify_vcpu_id rc) (\<lambda>v. v\<lparr>blocked_in_xen := False\<rparr>) = Some r1" "quiet rd r1"
        "vcpu r1 (notify_vcpu_id rc) = Some (x\<lparr>blocked_in_xen := False\<rparr>)" "evtchn_pending r1 = evtchn_pending rd"
        by (rule upd_vcpu_quiet [OF x, of "\<lambda>v. v\<lparr>blocked_in_xen := False\<rparr>"]) auto
      let ?r = "emit (Vcpu_wake (notify_vcpu_id rc)) r1"
      have q: "quiet rd ?r" by (rule quiet_trans [OF r1(2) quiet_fields(1)])
      then have "world_inv (w(j \<mapsto> ?r))" using world_inv_upd [OF inv rd(1)] dom_inv_quiet [OF q di] by blast
      with q r1 True xen d c st xsm rd x show ?thesis
        by (intro that [of ?r]) (auto simp: body on_domain_def emit_def)
    qed
  qed
qed

lemma send_ok:
  assumes inv: "world_inv w" and i: "w i \<noteq> None"
  shows "ok (evtchn_send env i p w)"
proof -
  obtain d where d: "w i = Some d" using i by blast
  show ?thesis
  proof (cases "\<exists>c. chan d p = Some c \<and> \<not> consumer_is_xen c \<and> xsm_evtchn_send env i p = None")
    case False
    show ?thesis
    proof (cases "chan d p")
      case None
      with d inv show ?thesis by (auto simp: evtchn_send_def port_is_valid_iff)
    next
      case (Some c)
      with False d inv show ?thesis
        by (cases "xsm_evtchn_send env i p") (auto simp: evtchn_send_def port_is_valid_iff chan_from_port)
    qed
  next
    case True
    then obtain c where c: "chan d p = Some c" "\<not> consumer_is_xen c" and xsm: "xsm_evtchn_send env i p = None" by blast
    note body = evtchn_send_def port_is_valid_iff chan_from_port [OF c(1)]
    show ?thesis
    proof (cases "ec_state c")
      case (ECS_INTERDOMAIN j q)
      obtain rd rc where rd: "w j = Some rd" "chan rd q = Some rc" by (rule peer_channel [OF inv d c(1) ECS_INTERDOMAIN])
      obtain rd' where "evtchn_send env i p w = Some (None, w(j \<mapsto> rd'))" "world_inv (w(j \<mapsto> rd'))"
        by (rule send_interdomain [OF inv d c ECS_INTERDOMAIN xsm rd, where v = undefined])
      then show ?thesis by auto
    next
      case ECS_IPI
      have "vcpu d (notify_vcpu_id c) \<noteq> None" by (rule dom_inv_notify [OF world_invD [OF inv d] c(1)])
      then obtain d' where "set_pending_at w i (notify_vcpu_id c) p = Some (w(i \<mapsto> d'))" "world_inv (w(i \<mapsto> d'))"
        using set_pending_at_ok [OF inv d] by metis
      with ECS_IPI d c xsm show ?thesis by (auto simp: body)
    qed (use d c xsm inv in \<open>auto simp: body\<close>)
  qed
qed

lemma status_ok:
  assumes inv: "world_inv w" and cur: "w cur \<noteq> None"
  shows "ok (evtchn_status env cur i port w)"
proof (cases "rcu_lock_target_domain_by_id env cur w i")
  case (Inl err)
  then show ?thesis using inv by (simp add: evtchn_status_def okI)
next
  case (Inr j)
  then obtain d where "w j = Some d" using lock_target_cases [of w cur env i j] cur by blast
  with Inr inv show ?thesis
    by (cases "chan d port") (auto simp: evtchn_status_def port_is_valid_iff chan_from_port split: option.split)
qed

lemma unmask_ok:
  assumes inv: "world_inv w" and cur: "w cur \<noteq> None"
  shows "ok (evtchn_unmask cur port w)"
proof -
  obtain d where d: "w cur = Some d" using cur by blast
  show ?thesis
  proof (cases "chan d port")
    case None
    with d inv show ?thesis by (auto simp: evtchn_unmask_def port_is_valid_iff)
  next
    case (Some c)
    have di: "dom_inv d" by (rule world_invD [OF inv d])
    let ?d = "d\<lparr>evtchn_mask := (evtchn_mask d)(port := False)\<rparr>"
    have v: "vcpu d (notify_vcpu_id c) \<noteq> None" by (rule dom_inv_notify [OF di Some])
    then have "vcpu ?d (notify_vcpu_id c) \<noteq> None" by simp
    then obtain d1 where d1: "select_word ?d (notify_vcpu_id c) port = Some d1" "quiet ?d d1"
      by (rule select_word_quiet)
    have q: "quiet d ?d" by (rule quiet_fields)
    have w: "world_inv (w(cur \<mapsto> x))" if "quiet d x" for x
      using world_inv_upd [OF inv d] dom_inv_quiet [OF that di] by blast
    have "ok (Some (None, w(cur \<mapsto> ?d)))" "ok (Some (None, w(cur \<mapsto> d1)))"
      using w [OF q] w [OF quiet_trans [OF q d1(2)]] by (auto simp del: fun_upd_apply)
    with d Some v d1(1) show ?thesis
      by (auto simp: evtchn_unmask_def port_is_valid_iff chan_from_port [OF Some] Let_def)
  qed
qed

section \<open>Closing every port\<close>

definition xen_owned :: "evtchn \<Rightarrow> bool" where
  "xen_owned c \<longleftrightarrow> shut c \<or> consumer_is_xen c"

lemma close_at_world:
  assumes inv: "world_inv w" and d: "w i = Some d"
  obtains rc w' where "evtchn_close_at env i p w = Some (rc, w')" "world_inv w'" "wshrinks w w'"
    "\<And>d'. w' i = Some d' \<Longrightarrow> case chan d' p of None \<Rightarrow> chan d p = None | Some c \<Rightarrow> xen_owned c"
proof (cases "\<exists>c. chan d p = Some c \<and> closable c")
  case True
  then obtain w' where w': "evtchn_close_at env i p w = Some (None, w')" "closes w i p w'"
    using close_at_cases [OF inv d, of p env] by auto
  then show ?thesis
    by (intro that [of None w']) (auto simp: closes_def port_closed_def xen_owned_def)
next
  case False
  then have "evtchn_close_at env i p w = Some (Some EINVAL, w)"
    using close_at_cases [OF inv d, of p env] by auto
  with False inv d show ?thesis
    by (intro that [of "Some EINVAL" w]) (auto simp: xen_owned_def closable_def split: option.split)
qed

lemma shrinks_valid: "shrinks d d' \<Longrightarrow> chan d' p = None \<longleftrightarrow> chan d p = None"
  unfolding shrinks_def by (metis rel_option_None1 rel_option_None2)

lemma shrinks_owned:
  assumes "shrinks d d'" "chan d p = Some c" "xen_owned c"
  obtains c' where "chan d' p = Some c'" "xen_owned c'"
proof -
  obtain c' where "chan d' p = Some c'" "shut_rel c c'" by (rule shrinks_chan [OF assms(1,2)])
  with assms(3) show ?thesis by (intro that [of c']) (auto simp: xen_owned_def shut_rel_def)
qed

lemma close_all_effect:
  assumes "world_inv w" "w i = Some d" "port \<le> n"
  shows "\<exists>w' d'. close_all env i n w port = Some w' \<and> world_inv w' \<and> wshrinks w w' \<and> w' i = Some d' \<and>
    (\<forall>q c. port \<le> q \<and> q < n \<and> chan d' q = Some c \<longrightarrow> xen_owned c)"
  using assms
proof (induction env i n w port arbitrary: d rule: close_all.induct)
  case (1 env i n w port)
  note unf = close_all.simps [of env i n w port]
  show ?case
  proof (cases "port < n \<and> chan d port \<noteq> None")
    case False
    then have "close_all env i n w port = Some w" using unf 1(3) by (auto simp: port_is_valid_iff)
    moreover have "chan d q = None" if "port \<le> q" "q < n" for q
    proof (rule ccontr)
      assume "chan d q \<noteq> None"
      moreover have "contiguous (chan d)"
        using world_invD [OF 1(2,3)] by (simp add: dom_inv_def view_inv_def inv_port0_def)
      ultimately have "chan d port \<noteq> None" using that contiguousD [of "chan d" q port] by (cases "q = port") auto
      with False that show False by simp
    qed
    ultimately show ?thesis using 1(2,3) by auto
  next
    case True
    then have v: "port_is_valid d port" by (auto simp: port_is_valid_iff)
    obtain rc w1 where w1: "evtchn_close_at env i port w = Some (rc, w1)" "world_inv w1" "wshrinks w w1"
      "\<And>d'. w1 i = Some d' \<Longrightarrow> case chan d' port of None \<Rightarrow> chan d port = None | Some c \<Rightarrow> xen_owned c"
      using close_at_world [OF 1(2,3), of env port] by metis
    obtain d1 where d1: "w1 i = Some d1" "shrinks d d1" by (rule wshrinksD [OF w1(3) 1(3)])
    have *: "close_all env i n w port = close_all env i n w1 (Suc port)"
      using unf True v 1(3) w1(1) by simp
    have "\<exists>w' d'. close_all env i n (snd (rc, w1)) (Suc port) = Some w' \<and> world_inv w' \<and> wshrinks (snd (rc, w1)) w' \<and> w' i = Some d' \<and>
      (\<forall>q c. Suc port \<le> q \<and> q < n \<and> chan d' q = Some c \<longrightarrow> xen_owned c)"
      by (rule 1(1)) (use True v 1(3) w1 d1 in auto)
    then obtain w' d' where w': "close_all env i n w1 (Suc port) = Some w'" "world_inv w'" "wshrinks w1 w'" "w' i = Some d'"
      "\<forall>q c. Suc port \<le> q \<and> q < n \<and> chan d' q = Some c \<longrightarrow> xen_owned c" by auto
    have s: "shrinks d1 d'" using wshrinksD [OF w'(3) d1(1)] w'(4) by (metis option.inject)
    obtain c1 where "chan d1 port = Some c1" "xen_owned c1"
      using w1(4) [OF d1(1)] True by (auto split: option.splits)
    then obtain c' where "chan d' port = Some c'" "xen_owned c'" using shrinks_owned [OF s] by blast
    then have "xen_owned c" if "port \<le> q" "q < n" "chan d' q = Some c" for q c
      using that w'(5) [rule_format, of q c] by (cases "q = port") simp_all
    with w' wshrinks_trans [OF w1(3)] show ?thesis unfolding * by blast
  qed
qed

lemma MAX_le: "dom_inv d \<Longrightarrow> chan d p = Some c \<Longrightarrow> p < MAX_EVTCHNS d"
  by (auto simp: chan_def port_is_valid_def split: if_splits)

lemma reset_ok:
  assumes inv: "world_inv w" and cur: "w cur \<noteq> None"
  shows "ok (evtchn_reset env cur i w)"
proof (cases "rcu_lock_target_domain_by_id env cur w i")
  case (Inl err)
  then show ?thesis using inv by (simp add: evtchn_reset_def okI)
next
  case (Inr j)
  then obtain d where d: "w j = Some d" using lock_target_cases [of w cur env i j] cur by blast
  with close_all_effect [OF inv d, of 0 "MAX_EVTCHNS d" env] Inr inv show ?thesis
    by (auto simp: evtchn_reset_def split: option.split)
qed

section \<open>The hypercall keeps the invariant\<close>

lemma copy_out_ok: "ok (copy_out b f r) \<longleftrightarrow> ok r"
  unfolding copy_out_def by (cases r) (auto simp: ok_def)

lemma no_out_ok: "ok (no_out r) \<longleftrightarrow> ok r"
  unfolding no_out_def by (cases r) (auto simp: ok_def)

lemma close_at_ok:
  assumes inv: "world_inv w" and i: "w i \<noteq> None"
  shows "ok (evtchn_close_at env i p w)"
proof -
  obtain d where "w i = Some d" using i by blast
  then show ?thesis using close_at_world [OF inv, of i d env p] by (metis ok_def)
qed

lemma op_ok:
  assumes inv: "world_inv w" and env: "xsm_alloc_ok env" and cur: "w cur \<noteq> None"
  shows "ok (do_event_channel_op env cur cmd f t w)"
proof -
  note ops = alloc_unbound_ok [OF inv env cur] bind_interdomain_effect [OF inv env cur]
    bind_virq_ok [OF inv env cur] bind_ipi_ok [OF inv env cur] bind_pirq_ok [OF inv env cur]
    close_at_ok [OF inv cur] send_ok [OF inv cur] status_ok [OF inv cur] bind_vcpu_ok [OF inv cur]
    unmask_ok [OF inv cur] reset_ok [OF inv cur]
  show ?thesis
    using ops inv by (cases cmd) (auto simp: do_event_channel_op_def copy_out_ok no_out_ok)
qed

section \<open>Channels whose consumer is Xen\<close>

text \<open>Only the mark of the consumer changes.\<close>

lemma pirq_seg_states:
  assumes "\<And>q. map_option ec_state (C' q) = map_option ec_state (C q)"
  shows "pirq_seg C' a h ps a' h' \<longleftrightarrow> pirq_seg C a h ps a' h'"
proof (induction ps arbitrary: a h)
  case (Cons q ps)
  show ?case using Cons assms [of q] by (cases "C q"; cases "C' q") auto
qed simp

lemma inv_consumer:
  assumes inv: "view_inv V" and c: "vw_chan V p = Some c" and b: "ec_state c = ECS_FREE \<Longrightarrow> \<not> b"
  shows "view_inv (V\<lparr>vw_chan := (vw_chan V)(p \<mapsto> c\<lparr>consumer_is_xen := b\<rparr>)\<rparr>)" (is "view_inv ?V")
  unfolding view_inv_def
proof (intro conjI)
  note i = inv [unfolded view_inv_def]
  let ?C = "(vw_chan V)(p \<mapsto> c\<lparr>consumer_is_xen := b\<rparr>)"
  have st: "map_option ec_state (?C q) = map_option ec_state (vw_chan V q)" for q using c by simp
  have old: "\<exists>c0. vw_chan V q = Some c0 \<and> ec_state c0 = ec_state c1 \<and> notify_vcpu_id c0 = notify_vcpu_id c1"
    if "?C q = Some c1" for q c1 using that c by (auto split: if_splits)
  have new: "\<exists>c1. ?C q = Some c1 \<and> ec_state c1 = ec_state c0 \<and> notify_vcpu_id c1 = notify_vcpu_id c0"
    if "vw_chan V q = Some c0" for q c0 using that c by auto
  show "inv_port0 ?V" using i c by (auto simp: inv_port0_def contiguous_upd)
  show "inv_free ?V" using i b c by (auto simp: inv_free_def)
  show "inv_notify ?V" using i c unfolding inv_notify_def by auto
  show "inv_virq ?V"
  proof (rule inv_virqI, goal_cases)
    case (1 v t h vi)
    then obtain c0 where "vw_chan V (t vi) = Some c0" "ec_state c0 = ECS_VIRQ vi"
      using i inv_virqD(1) [of V v t h vi] by auto
    with new [of "t vi" c0] show ?case by auto
  next
    case (2 q c1 vi)
    with old [of q c1] i inv_virqD(2) [of V q _ vi] show ?case by auto
  qed
  show "inv_pirq ?V"
  proof (rule inv_pirqI, goal_cases)
    case (1 irq)
    then obtain c0 n a where "vw_chan V (vw_pirq V irq) = Some c0" "ec_state c0 = ECS_PIRQ irq n a"
      using i inv_pirqD(1) [of V irq] by auto
    with new [of "vw_pirq V irq" c0] show ?case by auto
  next
    case (2 q c1 irq n a)
    with old [of q c1] i inv_pirqD(2) [of V q _ irq n a] show ?case by auto
  qed
  have "pirq_ports ?C v = pirq_ports (vw_chan V) v" for v
    using old new unfolding pirq_ports_def by (auto split: if_splits) (use c in auto)
  moreover have "pirq_list ?C h ps = pirq_list (vw_chan V) h ps" for h ps
    by (simp only: pirq_list_def pirq_seg_states [OF st])
  ultimately show "inv_lists ?V" using i unfolding inv_lists_def by simp
  show "inv_vcpus ?V" using i by (simp add: inv_vcpus_def)
qed

lemma upd_consumer:
  assumes inv: "world_inv w" and d: "w i = Some d" and c: "chan d p = Some c"
  obtains d' where "on_domain w i (\<lambda>d. upd_evtchn d p (\<lambda>c. c\<lparr>consumer_is_xen := False\<rparr>)) = Some (w(i \<mapsto> d'))"
    "world_inv (w(i \<mapsto> d'))" "view d' = (view d)\<lparr>vw_chan := (chan d)(p \<mapsto> c\<lparr>consumer_is_xen := False\<rparr>)\<rparr>"
proof -
  let ?f = "\<lambda>c. c\<lparr>consumer_is_xen := False\<rparr>"
  obtain d' where d': "upd_evtchn d p ?f = Some d'" "view d' = (view d)\<lparr>vw_chan := (chan d)(p \<mapsto> ?f c)\<rparr>" "vcpu d' = vcpu d"
    by (rule upd_evtchn_view [OF c, of ?f])
  have di: "dom_inv d" by (rule world_invD [OF inv d])
  have "view_inv (view d')"
    unfolding d'(2) using inv_consumer [of "view d" p c False] di c by (simp add: dom_inv_def)
  then have "dom_inv d'" using di d'(3) by (simp add: dom_inv_def)
  moreover have "dlinks d' = dlinks d"
    using view_chanD [OF d'(2)] c by (auto simp: dlinks_def link_of_def fun_eq_iff)
  ultimately have "world_inv (w(i \<mapsto> d'))" using world_inv_upd [OF inv d] by blast
  with d' d show ?thesis by (intro that [of d']) (simp_all add: on_domain_def)
qed

lemma free_xen_effect:
  assumes inv: "world_inv w" and d: "w i = Some d" "\<not> is_dying d"
    and c: "chan d p = Some c" "consumer_is_xen c" "\<not> shut c"
  shows "\<exists>w'. free_xen_event_channel env i p w = Some w' \<and> world_inv w' \<and> port_closed w' i p"
proof -
  obtain d1 where d1: "on_domain w i (\<lambda>d. upd_evtchn d p (\<lambda>c. c\<lparr>consumer_is_xen := False\<rparr>)) = Some (w(i \<mapsto> d1))"
    "world_inv (w(i \<mapsto> d1))" "view d1 = (view d)\<lparr>vw_chan := (chan d)(p \<mapsto> c\<lparr>consumer_is_xen := False\<rparr>)\<rparr>"
    by (rule upd_consumer [OF inv d(1) c(1)])
  have "chan d1 p = Some (c\<lparr>consumer_is_xen := False\<rparr>)" using view_chanD [OF d1(3)] by simp
  moreover have "closable (c\<lparr>consumer_is_xen := False\<rparr>)" using c(3) by (simp add: closable_def shut_def)
  ultimately obtain w' where "evtchn_close_at env i p (w(i \<mapsto> d1)) = Some (None, w')" "closes (w(i \<mapsto> d1)) i p w'"
    using close_at_cases [OF d1(2), of i d1 p env] by auto
  then show ?thesis
    using d c d1(1) by (auto simp: free_xen_event_channel_def port_is_valid_iff chan_from_port closes_def)
qed

lemma alloc_xen_inv:
  assumes env: "xsm_alloc_ok env" and inv: "dom_inv d" and v: "vcpu d v \<noteq> None"
  shows "\<exists>r d'. alloc_unbound_xen_event_channel env d v remote = Some (r, d') \<and> dom_inv d' \<and> dlinks d' = dlinks d \<and>
    (\<forall>p. r = Inr p \<longrightarrow> chan d' p = Some \<lparr>ec_state = ECS_UNBOUND remote, consumer_is_xen = True, notify_vcpu_id = v\<rparr>)"
proof -
  obtain r d1 where r: "get_free_port env d = (r, d1)" by fastforce
  note g = get_free_port_inv [OF env inv r]
  show ?thesis
  proof (cases r)
    case (Inl err)
    with r g show ?thesis by (auto simp: alloc_unbound_xen_event_channel_def)
  next
    case (Inr p)
    then obtain c where c: "chan d1 p = Some c" "ec_state c = ECS_FREE" using g by auto
    let ?f = "\<lambda>c. c\<lparr>ec_state := ECS_UNBOUND remote, consumer_is_xen := True, notify_vcpu_id := v\<rparr>"
    obtain d2 where d2: "upd_evtchn d1 p ?f = Some d2" "dom_inv d2" "dlinks d2 = (dlinks d1)(p := link_of (?f c))"
      "chan d2 = (chan d1)(p \<mapsto> ?f c)"
      by (rule upd_plain_inv [of d1 p c ?f]) (use g c v in \<open>auto simp: same_rest_def\<close>)
    have "dlinks d2 = dlinks d" using d2(3) dlinks_upd_same [OF c(1), of "?f c"] c(2) g by simp
    with d2 r Inr show ?thesis by (auto simp: alloc_unbound_xen_event_channel_def)
  qed
qed

lemma notify_xen_ok:
  assumes inv: "world_inv w" and d: "w i = Some d" and c: "chan d p = Some c"
  shows "\<exists>w'. notify_via_xen_event_channel i p w = Some w' \<and> world_inv w'"
proof (cases "is_dying d \<or> \<not> is_ECS_INTERDOMAIN (ec_state c)")
  case True
  with inv d chan_from_port [OF c] show ?thesis
    by (cases "ec_state c") (auto simp: notify_via_xen_event_channel_def)
next
  case False
  then obtain j q where st: "ec_state c = ECS_INTERDOMAIN j q" by (cases "ec_state c") auto
  obtain rd rc where rd: "w j = Some rd" "chan rd q = Some rc" by (rule peer_channel [OF inv d c st])
  have "vcpu rd (notify_vcpu_id rc) \<noteq> None" by (rule dom_inv_notify [OF world_invD [OF inv rd(1)] rd(2)])
  then obtain rd' where "set_pending_at w j (notify_vcpu_id rc) q = Some (w(j \<mapsto> rd'))" "world_inv (w(j \<mapsto> rd'))"
    using set_pending_at_ok [OF inv rd(1)] by metis
  with False d st rd chan_from_port [OF c] chan_from_port [OF rd(2)] show ?thesis
    by (auto simp: notify_via_xen_event_channel_def)
qed

section \<open>Virtual and physical interrupts\<close>

lemma set_pending_inv:
  assumes "dom_inv d" "vcpu d v \<noteq> None"
  obtains b d' where "evtchn_set_pending d v p = Some (b, d')" "dom_inv d'" "dlinks d' = dlinks d"
    "evtchn_pending d' = (evtchn_pending d)(p := True)"
proof -
  obtain b d' where d': "evtchn_set_pending d v p = Some (b, d')" "quiet d d'"
    "evtchn_pending d' = (evtchn_pending d)(p := True)"
    by (rule set_pending_quiet [OF assms(2) dom_inv_vcpus [OF assms(1)]])
  with that dom_inv_quiet [OF d'(2) assms(1)] show ?thesis by blast
qed

lemma virq_port_chan:
  assumes "dom_inv d" "vcpu d v = Some x" "virq_to_evtchn x vi \<noteq> 0"
  obtains c where "chan d (virq_to_evtchn x vi) = Some c" "ec_state c = ECS_VIRQ vi"
  using inv_virqD(1) [of "view d" v "virq_to_evtchn x" "pirq_evtchn_head x" vi] assms
  by (auto simp: dom_inv_def view_inv_def)

lemma pirq_port_chan:
  assumes "dom_inv d" "pirq_to_evtchn d irq \<noteq> 0"
  obtains c n a where "chan d (pirq_to_evtchn d irq) = Some c" "ec_state c = ECS_PIRQ irq n a"
  using inv_pirqD(1) [of "view d" irq] assms by (auto simp: dom_inv_def view_inv_def)

lemma vcpu_virq_effect:
  assumes inv: "dom_inv d" and x: "vcpu d v = Some x"
  shows "\<exists>d'. send_guest_vcpu_virq d v vi = Some d' \<and> dom_inv d' \<and> dlinks d' = dlinks d \<and>
    evtchn_pending d' = (if virq_to_evtchn x vi = 0 then evtchn_pending d
      else (evtchn_pending d)(virq_to_evtchn x vi := True))"
proof (cases "virq_to_evtchn x vi = 0")
  case False
  have "vcpu d v \<noteq> None" using x by simp
  then obtain b d' where "evtchn_set_pending d v (virq_to_evtchn x vi) = Some (b, d')" "dom_inv d'"
    "dlinks d' = dlinks d" "evtchn_pending d' = (evtchn_pending d)(virq_to_evtchn x vi := True)"
    by (rule set_pending_inv [OF inv])
  with False x show ?thesis by (simp add: send_guest_vcpu_virq_def)
qed (use x inv in \<open>simp add: send_guest_vcpu_virq_def\<close>)

lemma global_virq_effect:
  assumes inv: "dom_inv d" and x: "vcpu d 0 = Some x"
  shows "\<exists>d'. send_guest_global_virq (Some d) vi = Some (Some d') \<and> dom_inv d' \<and> dlinks d' = dlinks d \<and>
    evtchn_pending d' = (if virq_to_evtchn x vi = 0 then evtchn_pending d
      else (evtchn_pending d)(virq_to_evtchn x vi := True))"
proof (cases "virq_to_evtchn x vi = 0")
  case False
  obtain c where c: "chan d (virq_to_evtchn x vi) = Some c" by (rule virq_port_chan [OF inv x False])
  obtain b d' where "evtchn_set_pending d (notify_vcpu_id c) (virq_to_evtchn x vi) = Some (b, d')" "dom_inv d'"
    "dlinks d' = dlinks d" "evtchn_pending d' = (evtchn_pending d)(virq_to_evtchn x vi := True)"
    by (rule set_pending_inv [OF inv dom_inv_notify [OF inv c]])
  with False x chan_from_port [OF c] show ?thesis by (simp add: send_guest_global_virq_def)
qed (use x inv in \<open>simp add: send_guest_global_virq_def\<close>)

lemma pirq_effect:
  assumes inv: "dom_inv d" and p: "pirq_to_evtchn d irq \<noteq> 0 \<or> is_hvm_domain d"
  shows "\<exists>b d'. send_guest_pirq d irq = Some (b, d') \<and> dom_inv d' \<and> dlinks d' = dlinks d \<and>
    evtchn_pending d' = (if pirq_to_evtchn d irq = 0 then evtchn_pending d
      else (evtchn_pending d)(pirq_to_evtchn d irq := True))"
proof (cases "pirq_to_evtchn d irq = 0")
  case False
  obtain c where c: "chan d (pirq_to_evtchn d irq) = Some c" by (rule pirq_port_chan [OF inv False])
  obtain b d' where "evtchn_set_pending d (notify_vcpu_id c) (pirq_to_evtchn d irq) = Some (b, d')" "dom_inv d'"
    "dlinks d' = dlinks d" "evtchn_pending d' = (evtchn_pending d)(pirq_to_evtchn d irq := True)"
    by (rule set_pending_inv [OF inv dom_inv_notify [OF inv c]])
  with False chan_from_port [OF c] show ?thesis by (simp add: send_guest_pirq_def)
qed (use p inv in \<open>auto simp: send_guest_pirq_def\<close>)

section \<open>Creation of a domain\<close>

text \<open>A domain as it is handed to \<^const>\<open>evtchn_init\<close>: nothing is bound, and its first vcpu exists.\<close>

definition fresh :: "ev_domain \<Rightarrow> bool" where
  "fresh d \<longleftrightarrow> buckets d = (\<lambda>_. None) \<and> \<not> is_dying d \<and> pirq_to_evtchn d = (\<lambda>_. 0) \<and> vcpu d 0 \<noteq> None \<and>
     (\<forall>v x. vcpu d v = Some x \<longrightarrow> virq_to_evtchn x = (\<lambda>_. 0) \<and> pirq_evtchn_head x = 0 \<and> v < max_vcpus d)"

lemma max_evtchns: "MAX_EVTCHNS d \<le> 4096" "128 \<le> MAX_EVTCHNS d"
  by (auto simp: MAX_EVTCHNS_def BITS_PER_EVTCHN_WORD_def)

lemma init_effect:
  assumes env: "xsm_alloc_ok env" "xmalloc_ok env" and d: "fresh d"
  shows "\<exists>rc d'. evtchn_init env d = Some (rc, d') \<and>
    (if poll_mask_xmalloc_ok env then rc = None \<and> dom_inv d' \<and> dlinks d' = (\<lambda>_. None) else rc = Some ENOMEM)"
proof -
  let ?res = "zero_evtchn\<lparr>ec_state := ECS_RESERVED\<rparr>"
  have nv: "chan d q = None" for q using d by (simp add: chan_def port_is_valid_def bucket_from_port_def fresh_def)
  then have f0: "find_free_port d 0 = Inr 0"
    by (subst find_free_port.simps) (simp add: port_is_valid_iff)
  let ?d1 = "d\<lparr>buckets := (buckets d)(0 \<mapsto> (\<lambda>_. zero_evtchn))\<rparr>"
  have max: "MAX_EVTCHNS ?d1 = MAX_EVTCHNS d" by (simp add: MAX_EVTCHNS_def BITS_PER_EVTCHN_WORD_def)
  have g: "get_free_port env d = (Inr 0, ?d1)"
    using d f0 env max_evtchns(2) [of d] by (auto simp: get_free_port_def fresh_def xsm_alloc_ok_def)
  have ch1: "chan ?d1 q = (if q < 128 then Some zero_evtchn else None)" for q
    using d max_evtchns(2) [of ?d1]
    by (auto simp: chan_def port_is_valid_def evtchn_from_port_def bucket_from_port_def fresh_def
        EVTCHNS_PER_BUCKET_def)
  have "chan ?d1 0 = Some zero_evtchn" using ch1 by simp
  then obtain d2 where d2: "upd_evtchn ?d1 0 (\<lambda>c. c\<lparr>ec_state := ECS_RESERVED\<rparr>) = Some d2"
    "view d2 = (view ?d1)\<lparr>vw_chan := (chan ?d1)(0 \<mapsto> ?res)\<rparr>" "vcpu d2 = vcpu ?d1"
    by (rule upd_evtchn_view [where f = "\<lambda>c. c\<lparr>ec_state := ECS_RESERVED\<rparr>"])
  let ?d3 = "d2\<lparr>poll_mask := (\<lambda>_. False)\<rparr>"
  have "chan ?d3 = chan d2" "MAX_EVTCHNS ?d3 = MAX_EVTCHNS d2" by (rule view_cong; simp)+
  then have "view ?d3 = (view d2)\<lparr>vw_poll := (\<lambda>_. False)\<rparr>" by (simp add: view_def)
  then have v3: "view ?d3 = (view d)\<lparr>vw_chan := (\<lambda>q. if q = 0 then Some ?res else if q < 128 then Some zero_evtchn else None),
      vw_poll := (\<lambda>_. False)\<rparr>"
    using d2(2) ch1 max by (auto simp: view_def fun_eq_iff)
  have "view_inv (view ?d3)"
    unfolding view_inv_def v3
    using d max_evtchns [of d]
    by (auto simp: fresh_def view_inv_defs inv_lists_def contiguous_def zero_evtchn_def pirq_list_def pirq_ports_def
        split: if_splits intro!: exI [of _ "[]"])
  moreover have "dlinks ?d3 = (\<lambda>_. None)"
  proof -
    have "chan ?d3 = vw_chan (view ?d3)" by simp
    then show ?thesis unfolding v3 by (auto simp: dlinks_def fun_eq_iff zero_evtchn_def)
  qed
  moreover have "vcpu ?d3 0 \<noteq> None" using d d2(3) by (simp add: fresh_def)
  ultimately show ?thesis using g d2(1) by (auto simp: evtchn_init_def dom_inv_def)
qed

section \<open>Destruction of a domain\<close>

text \<open>While a domain is destroyed the consumer of its ports may change, but closed ports stay closed.\<close>

definition fades :: "ev_domain \<Rightarrow> ev_domain \<Rightarrow> bool" where
  "fades d d' \<longleftrightarrow> is_dying d' = is_dying d \<and> MAX_EVTCHNS d' = MAX_EVTCHNS d \<and>
     (\<forall>q. (chan d' q = None \<longleftrightarrow> chan d q = None)) \<and>
     (\<forall>q c c'. chan d q = Some c \<and> shut c \<and> chan d' q = Some c' \<longrightarrow> shut c')"

lemma fades_trans: "fades d d1 \<Longrightarrow> fades d1 d2 \<Longrightarrow> fades d d2"
  unfolding fades_def by (metis not_Some_eq)

lemma shrinks_fades:
  assumes "shrinks d d'"
  shows "fades d d'"
  unfolding fades_def
proof (intro conjI allI impI)
  show "is_dying d' = is_dying d" "MAX_EVTCHNS d' = MAX_EVTCHNS d" using assms by (simp_all add: shrinks_def)
  show "chan d' q = None \<longleftrightarrow> chan d q = None" for q by (rule shrinks_valid [OF assms])
  fix q c c' assume *: "chan d q = Some c \<and> shut c \<and> chan d' q = Some c'"
  then obtain c1 where "chan d' q = Some c1" "shut_rel c c1" using shrinks_chan [OF assms] by blast
  with * show "shut c'" by (simp add: shut_rel_def)
qed

lemma chan_beyond:
  assumes "world_inv w" "w i = Some d" "chan d port = None" "port \<le> q"
  shows "chan d q = None"
proof (rule ccontr)
  assume "chan d q \<noteq> None"
  moreover have "contiguous (chan d)"
    using world_invD [OF assms(1,2)] by (simp add: dom_inv_def view_inv_def inv_port0_def)
  ultimately show False using assms(3,4) contiguousD [of "chan d" q port] by (cases "q = port") auto
qed

text \<open>One turn of the loop.\<close>

lemma destroy_one:
  assumes inv: "world_inv w" and d: "w i = Some d" and c: "chan d port = Some c"
  obtains d0 rc w1 d1 c1 where
    "on_domain w i (\<lambda>d. upd_evtchn d port (\<lambda>c. c\<lparr>consumer_is_xen := False\<rparr>)) = Some (w(i \<mapsto> d0))"
    "evtchn_close_at env i port (w(i \<mapsto> d0)) = Some (rc, w1)" "world_inv w1" "w1 i = Some d1" "fades d d1"
    "chan d1 port = Some c1" "shut c1" "\<forall>j. w1 j = None \<longleftrightarrow> w j = None"
proof -
  let ?c = "c\<lparr>consumer_is_xen := False\<rparr>"
  obtain d0 where d0: "on_domain w i (\<lambda>d. upd_evtchn d port (\<lambda>c. c\<lparr>consumer_is_xen := False\<rparr>)) = Some (w(i \<mapsto> d0))"
    "world_inv (w(i \<mapsto> d0))" "view d0 = (view d)\<lparr>vw_chan := (chan d)(port \<mapsto> ?c)\<rparr>"
    by (rule upd_consumer [OF inv d c])
  let ?w0 = "w(i \<mapsto> d0)"
  have f0: "fades d d0" using d0(3) c by (auto simp: fades_def view_def shut_def)
  have w0: "?w0 i = Some d0" by simp
  obtain rc w1 where w1: "evtchn_close_at env i port ?w0 = Some (rc, w1)" "world_inv w1" "wshrinks ?w0 w1"
    "\<And>d'. w1 i = Some d' \<Longrightarrow> case chan d' port of None \<Rightarrow> chan d0 port = None | Some c \<Rightarrow> xen_owned c"
    using close_at_world [where w = ?w0 and i = i, OF d0(2) w0, of env port] by metis
  obtain d1 where d1: "w1 i = Some d1" "shrinks d0 d1" by (rule wshrinksD [where w = ?w0 and i = i, OF w1(3) w0])
  have f: "fades d d1" using fades_trans f0 shrinks_fades [OF d1(2)] by blast
  have ch0: "chan d0 port = Some ?c" using view_chanD [OF d0(3)] by simp
  obtain c1 where c1: "chan d1 port = Some c1" "shut_rel ?c c1" by (rule shrinks_chan [OF d1(2) ch0])
  then have sh: "shut c1" using w1(4) [OF d1(1)] by (auto simp: xen_owned_def shut_rel_def)
  have n: "\<forall>j. w1 j = None \<longleftrightarrow> w j = None"
    using w1(3) d unfolding wshrinks_def
    by (metis fun_upd_apply option.distinct(1) rel_option_None1 rel_option_None2)
  show ?thesis by (rule that [OF d0(1) w1(1,2) d1(1) f c1(1) sh n])
qed

lemma destroy_all_effect:
  assumes "world_inv w" "w i = Some d" "port \<le> n"
  shows "\<exists>w' d'. destroy_all env i n w port = Some w' \<and> world_inv w' \<and> w' i = Some d' \<and> fades d d' \<and>
    (\<forall>j. w' j = None \<longleftrightarrow> w j = None) \<and>
    (\<forall>q c. port \<le> q \<and> q < n \<and> chan d' q = Some c \<longrightarrow> shut c)"
  using assms
proof (induction env i n w port arbitrary: d rule: destroy_all.induct)
  case (1 env i n w port)
  note unf = destroy_all.simps [of env i n w port]
  show ?case
  proof (cases "port < n \<and> chan d port \<noteq> None")
    case False
    then have "destroy_all env i n w port = Some w" using unf 1(3) by (auto simp: port_is_valid_iff)
    moreover have "chan d q = None" if "port \<le> q" "q < n" for q
      using chan_beyond [OF 1(2,3) _ that(1)] False that by auto
    ultimately show ?thesis using 1(2,3) by (auto simp: fades_def)
  next
    case True
    then obtain c where c: "chan d port = Some c" by auto
    then have v: "port_is_valid d port" by (auto simp: port_is_valid_iff)
    obtain d0 rc w1 d1 c1 where w1: "on_domain w i (\<lambda>d. upd_evtchn d port (\<lambda>c. c\<lparr>consumer_is_xen := False\<rparr>)) = Some (w(i \<mapsto> d0))"
      "evtchn_close_at env i port (w(i \<mapsto> d0)) = Some (rc, w1)" "world_inv w1" "w1 i = Some d1" "fades d d1"
      "chan d1 port = Some c1" "shut c1" "\<forall>j. w1 j = None \<longleftrightarrow> w j = None"
      by (rule destroy_one [OF 1(2,3) c, of env])
    have *: "destroy_all env i n w port = destroy_all env i n w1 (Suc port)"
      using unf True v 1(3) w1(1,2) by simp
    have "\<exists>w' d'. destroy_all env i n (snd (rc, w1)) (Suc port) = Some w' \<and> world_inv w' \<and> w' i = Some d' \<and> fades d1 d' \<and>
      (\<forall>j. w' j = None \<longleftrightarrow> snd (rc, w1) j = None) \<and>
      (\<forall>q c. Suc port \<le> q \<and> q < n \<and> chan d' q = Some c \<longrightarrow> shut c)"
      by (rule 1(1)) (use True v 1(3) w1 in auto)
    then obtain w' d' where w': "destroy_all env i n w1 (Suc port) = Some w'" "world_inv w'" "w' i = Some d'" "fades d1 d'"
      "\<forall>j. w' j = None \<longleftrightarrow> w1 j = None" "\<forall>q c. Suc port \<le> q \<and> q < n \<and> chan d' q = Some c \<longrightarrow> shut c" by auto
    have "shut c" if "port \<le> q" "q < n" "chan d' q = Some c" for q c
      using that w'(4) w'(6) [rule_format, of q c] w1(6,7) unfolding fades_def by (cases "q = port") auto
    then show ?thesis unfolding * using w' fades_trans [OF w1(5) w'(4)] w1(8) by blast
  qed
qed

lemma pirq_list_of:
  assumes inv: "dom_inv d" and x: "vcpu d v = Some x"
  obtains ps where "pirq_list (chan d) (pirq_evtchn_head x) ps" "set ps = pirq_ports (chan d) v"
proof -
  have "inv_lists (view d)" using inv by (simp add: dom_inv_def view_inv_def)
  moreover have "vw_vcpu (view d) v = Some (virq_to_evtchn x, pirq_evtchn_head x)" using x by simp
  ultimately obtain ps where "pirq_list (vw_chan (view d)) (pirq_evtchn_head x) ps" "set ps = pirq_ports (vw_chan (view d)) v"
    by (rule inv_listsD)
  then show ?thesis using that by simp
qed

lemma all_shut_view:
  assumes inv: "dom_inv d" and s: "\<And>q c. chan d q = Some c \<Longrightarrow> shut c" and dy: "is_dying d"
  shows "vcpu d v = Some x \<Longrightarrow> virq_to_evtchn x vi = 0 \<and> pirq_evtchn_head x = 0"
    and "pirq_to_evtchn d irq = 0" and "dlinks d = (\<lambda>_. None)"
proof -
  show "pirq_to_evtchn d irq = 0"
  proof (rule ccontr)
    assume "\<not> ?thesis"
    then obtain c n a where "chan d (pirq_to_evtchn d irq) = Some c" "ec_state c = ECS_PIRQ irq n a"
      by (rule pirq_port_chan [OF inv])
    with s [of "pirq_to_evtchn d irq" c] show False by (auto simp: shut_def)
  qed
  show "dlinks d = (\<lambda>_. None)"
  proof
    fix q show "dlinks d q = None"
      using s [of q] by (cases "chan d q") (auto simp: dlinks_def shut_def)
  qed
  assume x: "vcpu d v = Some x"
  show "virq_to_evtchn x vi = 0 \<and> pirq_evtchn_head x = 0"
  proof
    show "virq_to_evtchn x vi = 0"
    proof (rule ccontr)
      assume "\<not> ?thesis"
      then obtain c where "chan d (virq_to_evtchn x vi) = Some c" "ec_state c = ECS_VIRQ vi"
        by (rule virq_port_chan [OF inv x])
      with s [of "virq_to_evtchn x vi" c] show False by (auto simp: shut_def)
    qed
    obtain ps where ps: "pirq_list (chan d) (pirq_evtchn_head x) ps" "set ps = pirq_ports (chan d) v"
      by (rule pirq_list_of [OF inv x])
    have "pirq_ports (chan d) v = {}" using s unfolding pirq_ports_def shut_def by force
    with ps show "pirq_evtchn_head x = 0" by (auto simp: pirq_list_def)
  qed
qed

text \<open>The buckets are freed.\<close>

lemma free_buckets:
  assumes di: "dom_inv d1" and dy1: "is_dying d1" and z: "\<forall>v x vi. vcpu d1 v = Some x \<longrightarrow> virq_to_evtchn x vi = 0 \<and> pirq_evtchn_head x = 0"
    "\<forall>irq. pirq_to_evtchn d1 irq = 0" "dlinks d1 = (\<lambda>_. None)"
  defines "d2 \<equiv> d1\<lparr>buckets := (\<lambda>b. if b < NR_EVTCHN_BUCKETS then None else buckets d1 b)\<rparr>"
  shows "chan d2 = (\<lambda>_. None)" "dom_inv d2" "dlinks d2 = dlinks d1"
proof -
  have mx: "MAX_EVTCHNS d2 = MAX_EVTCHNS d1" by (simp add: d2_def MAX_EVTCHNS_def BITS_PER_EVTCHN_WORD_def)
  show none: "chan d2 = (\<lambda>_. None)"
  proof
    fix q
    have "q div EVTCHNS_PER_BUCKET < NR_EVTCHN_BUCKETS" if "q < MAX_EVTCHNS d1"
      using that max_evtchns(1) [of d1] by (simp add: EVTCHNS_PER_BUCKET_def NR_EVTCHN_BUCKETS_def)
    then show "chan d2 q = None" using mx by (auto simp: d2_def chan_def port_is_valid_def bucket_from_port_def)
  qed
  have v: "view d2 = (view d1)\<lparr>vw_chan := (\<lambda>_. None)\<rparr>" using none mx by (simp add: d2_def view_def)
  have "view_inv (view d2)"
    unfolding v view_inv_def
  proof (intro conjI)
    note i = di [unfolded dom_inv_def view_inv_def]
    show "inv_port0 ((view d1)\<lparr>vw_chan := (\<lambda>_. None)\<rparr>)"
      using dy1 max_evtchns [of d1] by (simp add: inv_port0_def contiguous_def)
    show "inv_virq ((view d1)\<lparr>vw_chan := (\<lambda>_. None)\<rparr>)"
      using z(1) by (auto simp: inv_virq_def)
    show "inv_pirq ((view d1)\<lparr>vw_chan := (\<lambda>_. None)\<rparr>)" using z(2) by (simp add: inv_pirq_def)
    show "inv_lists ((view d1)\<lparr>vw_chan := (\<lambda>_. None)\<rparr>)"
      using z(1) by (auto simp: inv_lists_def pirq_list_def pirq_ports_def intro!: exI [of _ "[]"])
  qed (use di in \<open>simp_all add: inv_free_def inv_notify_def inv_vcpus_def dom_inv_def view_inv_def\<close>)
  then show "dom_inv d2" using di by (simp add: d2_def dom_inv_def)
  show "dlinks d2 = dlinks d1" using none z(3) by (simp add: dlinks_def fun_eq_iff)
qed

text \<open>
  After \<^const>\<open>evtchn_destroy\<close> the domain has no channel, and nothing in the hypervisor refers to
  one: not its own tables, and not the channels of another domain.
\<close>

lemma destroy_effect:
  assumes inv: "world_inv w" and d: "w i = Some d" and dy: "is_dying d"
  shows "\<exists>w' d'. evtchn_destroy env i w = Some w' \<and> world_inv w' \<and> w' i = Some d' \<and> (\<forall>q. chan d' q = None) \<and>
    (\<forall>irq. pirq_to_evtchn d' irq = 0) \<and>
    (\<forall>v x vi. vcpu d' v = Some x \<longrightarrow> virq_to_evtchn x vi = 0 \<and> pirq_evtchn_head x = 0) \<and>
    (\<forall>j rd q rc p. w' j = Some rd \<and> chan rd q = Some rc \<longrightarrow> ec_state rc \<noteq> ECS_INTERDOMAIN i p)"
proof -
  obtain w1 d1 where w1: "destroy_all env i (MAX_EVTCHNS d) w 0 = Some w1" "world_inv w1" "w1 i = Some d1" "fades d d1"
    "\<forall>q c. 0 \<le> q \<and> q < MAX_EVTCHNS d \<and> chan d1 q = Some c \<longrightarrow> shut c"
    using destroy_all_effect [OF inv d, of 0 "MAX_EVTCHNS d" env] by auto
  have di: "dom_inv d1" by (rule world_invD [OF w1(2,3)])
  have max: "MAX_EVTCHNS d1 = MAX_EVTCHNS d" and dy1: "is_dying d1" using w1(4) dy by (auto simp: fades_def)
  have sh: "shut c" if "chan d1 q = Some c" for q c
    using w1(5) [rule_format, of q c] MAX_le [OF di that] that max by simp
  have z: "\<forall>v x vi. vcpu d1 v = Some x \<longrightarrow> virq_to_evtchn x vi = 0 \<and> pirq_evtchn_head x = 0"
    "\<forall>irq. pirq_to_evtchn d1 irq = 0" "dlinks d1 = (\<lambda>_. None)"
    using all_shut_view [OF di _ dy1] sh by blast+
  let ?d = "d1\<lparr>buckets := (\<lambda>b. if b < NR_EVTCHN_BUCKETS then None else buckets d1 b)\<rparr>"
  note none = free_buckets(1) [OF di dy1 z] and d2 = free_buckets(2,3) [OF di dy1 z]
  have w2: "world_inv (w1(i \<mapsto> ?d))" using world_inv_upd [OF w1(2,3)] d2 by blast
  have noref: "ec_state rc \<noteq> ECS_INTERDOMAIN i p" if rd: "(w1(i \<mapsto> ?d)) j = Some rd" "chan rd q = Some rc" for j rd q rc p
  proof
    assume "ec_state rc = ECS_INTERDOMAIN i p"
    then obtain d2 c2 where "(w1(i \<mapsto> ?d)) i = Some d2" "chan d2 p = Some c2" by (rule peer_channel [OF w2 rd])
    then show False using none by simp
  qed
  have res: "evtchn_destroy env i w = Some (w1(i \<mapsto> ?d))"
    using d dy w1(1,3) by (simp add: evtchn_destroy_def on_domain_def)
  have f: "(w1(i \<mapsto> ?d)) i = Some ?d" "\<forall>q. chan ?d q = None" "\<forall>irq. pirq_to_evtchn ?d irq = 0"
    using none z(2) by simp_all
  have fv: "\<forall>v x vi. vcpu ?d v = Some x \<longrightarrow> virq_to_evtchn x vi = 0 \<and> pirq_evtchn_head x = 0"
    using z(1) by auto
  have fr: "\<forall>j rd q rc p. (w1(i \<mapsto> ?d)) j = Some rd \<and> chan rd q = Some rc \<longrightarrow> ec_state rc \<noteq> ECS_INTERDOMAIN i p"
    using noref by blast
  show ?thesis using res w2 f fv fr by blast
qed

section \<open>Moving the physical interrupts of a vcpu\<close>

lemma trace_emit [simp]: "trace (emit x d) = trace d @ [x]"
  by (simp add: emit_def)

lemma move_pirqs_loop_seg:
  assumes "pirq_seg (chan d) a h ps a' 0"
  shows "\<exists>d'. move_pirqs_loop d cpu h = Some d' \<and> view d' = view d \<and>
    trace d' = trace d @ map (\<lambda>p. Pirq_set_affinity (pirq_irq (ec_state (the (chan d p)))) cpu) ps"
  using assms
proof (induction ps arbitrary: a h d)
  case Nil
  then show ?case by (subst move_pirqs_loop.simps) simp
next
  case (Cons q ps)
  then obtain c irq n where q: "h = q" "q \<noteq> 0" "chan d q = Some c" "ec_state c = ECS_PIRQ irq n a"
    "pirq_seg (chan d) q n ps a' 0" by auto
  let ?d = "emit (Pirq_set_affinity irq cpu) d"
  have ch: "chan ?d = chan d" using view_pirq(2) [of _ d] by (simp add: view_def)
  with q(5) have "pirq_seg (chan ?d) q n ps a' 0" by simp
  from Cons.IH [OF this] obtain d' where d': "move_pirqs_loop ?d cpu n = Some d'" "view d' = view ?d"
    "trace d' = trace ?d @ map (\<lambda>p. Pirq_set_affinity (pirq_irq (ec_state (the (chan ?d p)))) cpu) ps" by blast
  then show ?case
    using q chan_from_port [OF q(3)] view_pirq(2) [of _ d] by (subst move_pirqs_loop.simps) (simp add: ch)
qed

text \<open>
  The walk ends, and the calls it makes are exactly one for each physical-interrupt port delivered
  to the vcpu.
\<close>

lemma move_pirqs_effect:
  assumes inv: "dom_inv d" and x: "vcpu d v = Some x"
  shows "\<exists>d' ps. evtchn_move_pirqs d v = Some d' \<and> dom_inv d' \<and> dlinks d' = dlinks d \<and> distinct ps \<and>
    set ps = pirq_ports (chan d) v \<and>
    trace d' = trace d @ map (\<lambda>p. Pirq_set_affinity (pirq_irq (ec_state (the (chan d p)))) (processor x)) ps"
proof -
  obtain ps where ps: "pirq_list (chan d) (pirq_evtchn_head x) ps" "set ps = pirq_ports (chan d) v"
    by (rule pirq_list_of [OF inv x])
  then obtain a' where "pirq_seg (chan d) 0 (pirq_evtchn_head x) ps a' 0" by (auto simp: pirq_list_def)
  from move_pirqs_loop_seg [OF this, of "processor x"] obtain d' where
    d': "move_pirqs_loop d (processor x) (pirq_evtchn_head x) = Some d'" "view d' = view d"
    "trace d' = trace d @ map (\<lambda>p. Pirq_set_affinity (pirq_irq (ec_state (the (chan d p)))) (processor x)) ps" by blast
  have "quiet d d'" using d'(2) by (auto simp: quiet_def view_def intro!: exI [of _ "poll_mask d"])
  then have "dom_inv d' \<and> dlinks d' = dlinks d" by (rule dom_inv_quiet [OF _ inv])
  with d' ps x show ?thesis
    by (intro exI [of _ d'] exI [of _ ps]) (auto simp: evtchn_move_pirqs_def pirq_list_def)
qed

end
