(* ===== verification/Evtchn_Steps.thy ===== *)
theory Evtchn_Steps
  imports Evtchn_Close
begin

text \<open>
  The event channels of the whole hypervisor as a transition system, its invariant, and what raising
  an event does to the vcpu it is for.
\<close>

section \<open>The hypervisor as a transition system\<close>

text \<open>
  The steps by which the event channels change: a hypercall of any domain, the second pass of a
  close that gave up its lock (with any steps between the passes), and the calls from the rest of
  the hypervisor. Each step has its own environment, so allocation may fail in one and succeed in
  the next.
\<close>

inductive ev_step :: "ev_world \<Rightarrow> ev_world \<Rightarrow> bool" where
  Hypercall: "xsm_alloc_ok env \<Longrightarrow> w cur \<noteq> None \<Longrightarrow> do_event_channel_op env cur cmd f t w = Some (r, w') \<Longrightarrow> ev_step w w'"
| Close_again: "w i \<noteq> None \<Longrightarrow> evtchn_close_body env i p (Some j) w = Some (Closed rc w') \<Longrightarrow> ev_step w w'"
| Create: "xsm_alloc_ok env \<Longrightarrow> w i = None \<Longrightarrow> fresh d \<Longrightarrow> evtchn_init env d = Some (None, d') \<Longrightarrow> ev_step w (w(i \<mapsto> d'))"
| Kill: "w i = Some d \<Longrightarrow> ev_step w (w(i \<mapsto> d\<lparr>is_dying := True\<rparr>))"
| Destroy: "evtchn_destroy env i w = Some w' \<Longrightarrow> ev_step w w'"
| Xen_alloc: "xsm_alloc_ok env \<Longrightarrow> w i = Some d \<Longrightarrow> vcpu d v \<noteq> None \<Longrightarrow>
    alloc_unbound_xen_event_channel env d v remote = Some (r, d') \<Longrightarrow> ev_step w (w(i \<mapsto> d'))"
| Xen_free: "free_xen_event_channel env i p w = Some w' \<Longrightarrow> ev_step w w'"
| Xen_notify: "w i = Some d \<Longrightarrow> port_is_valid d p \<Longrightarrow> notify_via_xen_event_channel i p w = Some w' \<Longrightarrow> ev_step w w'"
| Vcpu_virq: "w i = Some d \<Longrightarrow> send_guest_vcpu_virq d v vi = Some d' \<Longrightarrow> ev_step w (w(i \<mapsto> d'))"
| Global_virq: "w i = Some d \<Longrightarrow> send_guest_global_virq (Some d) vi = Some (Some d') \<Longrightarrow> ev_step w (w(i \<mapsto> d'))"
| Pirq: "w i = Some d \<Longrightarrow> send_guest_pirq d irq = Some (b, d') \<Longrightarrow> ev_step w (w(i \<mapsto> d'))"
| Move_pirqs: "w i = Some d \<Longrightarrow> evtchn_move_pirqs d v = Some d' \<Longrightarrow> ev_step w (w(i \<mapsto> d'))"

inductive ev_reach :: "ev_world \<Rightarrow> bool" where
  Start: "ev_reach (\<lambda>_. None)"
| Step: "ev_reach w \<Longrightarrow> ev_step w w' \<Longrightarrow> ev_reach w'"

lemma inv_create:
  assumes inv: "world_inv w" and w: "w i = None" and d: "dom_inv d" "dlinks d = (\<lambda>_. None)"
  shows "world_inv (w(i \<mapsto> d))"
proof -
  have "links (w(i \<mapsto> d)) = links w" using w d by (auto simp: links_upd links_def fun_eq_iff)
  then show ?thesis using inv d by (auto simp: world_inv_def)
qed

lemma create_inv:
  assumes "xsm_alloc_ok env" "fresh d" "evtchn_init env d = Some (None, d')"
  shows "dom_inv d' \<and> dlinks d' = (\<lambda>_. None)"
proof (cases "xmalloc_ok env")
  case True
  from init_effect [OF assms(1) True assms(2)] assms(3) show ?thesis by (auto split: if_splits)
next
  case False
  have "chan d q = None" for q
    using assms(2) by (simp add: chan_def port_is_valid_def bucket_from_port_def fresh_def)
  then have "find_free_port d 0 = Inr 0" by (subst find_free_port.simps) (simp add: port_is_valid_iff)
  with False assms have False
    using max_evtchns(2) [of d] by (auto simp: evtchn_init_def get_free_port_def fresh_def split: if_splits)
  then show ?thesis ..
qed

lemma kill_inv:
  assumes "dom_inv d"
  shows "dom_inv (d\<lparr>is_dying := True\<rparr>) \<and> dlinks (d\<lparr>is_dying := True\<rparr>) = dlinks d"
proof -
  let ?d = "d\<lparr>is_dying := True\<rparr>"
  have ch: "chan ?d = chan d" "MAX_EVTCHNS ?d = MAX_EVTCHNS d" by (rule view_cong; simp)+
  then have v: "view ?d = (view d)\<lparr>vw_dying := True\<rparr>" by (simp add: view_def)
  have "view_inv (view ?d)"
    using assms unfolding v dom_inv_def view_inv_def by (auto simp: view_inv_defs inv_lists_def)
  with assms ch show ?thesis by (simp add: dom_inv_def dlinks_def fun_eq_iff)
qed

lemma free_xen_inv:
  assumes inv: "world_inv w" and r: "free_xen_event_channel env i p w = Some w'"
  shows "world_inv w'"
proof -
  obtain d where d: "w i = Some d" using r by (cases "w i") (auto simp: free_xen_event_channel_def)
  show ?thesis
  proof (cases "is_dying d")
    case True
    with d r inv show ?thesis by (simp add: free_xen_event_channel_def)
  next
    case False
    then obtain c where c: "chan d p = Some c"
      using d r by (auto simp: free_xen_event_channel_def port_is_valid_iff split: if_splits)
    obtain d1 where d1: "on_domain w i (\<lambda>d. upd_evtchn d p (\<lambda>c. c\<lparr>consumer_is_xen := False\<rparr>)) = Some (w(i \<mapsto> d1))"
      "world_inv (w(i \<mapsto> d1))" by (rule upd_consumer [OF inv d c])
    have "ok (evtchn_close_at env i p (w(i \<mapsto> d1)))" by (rule close_at_ok [OF d1(2)]) simp
    with False d r c d1(1) show ?thesis
      by (auto simp: free_xen_event_channel_def port_is_valid_iff chan_from_port ok_def split: if_splits)
  qed
qed

lemma step_inv:
  assumes "ev_step w w'" "world_inv w"
  shows "world_inv w'"
  using assms
proof (induction rule: ev_step.induct)
  case (Hypercall env w cur cmd f t r w')
  with op_ok [of w env cur cmd f t] show ?case by (auto simp: ok_def)
next
  case (Close_again w i env p j rc w')
  then obtain d where "w i = Some d" by blast
  with Close_again close_body_cases [of w i d env p "Some j"] show ?case by (auto simp: closes_def)
next
  case (Create env w i d d')
  with create_inv [of env d d'] show ?case by (intro inv_create) auto
next
  case (Kill w i d)
  with world_invD [of w i d] kill_inv [of d] show ?case by (intro world_inv_upd [of w i d]) auto
next
  case (Destroy env i w w')
  then obtain d where d: "w i = Some d" "is_dying d"
    by (cases "w i") (auto simp: evtchn_destroy_def split: if_splits)
  with Destroy destroy_effect [of w i d env] show ?case by auto
next
  case (Xen_alloc env w i d v remote r d')
  with world_invD [of w i d] alloc_xen_inv [of env d v remote] show ?case
    by (intro world_inv_upd [of w i d]) auto
next
  case (Xen_free env i p w w')
  with free_xen_inv [of w env i p w'] show ?case by blast
next
  case (Xen_notify w i d p w')
  with notify_xen_ok [of w i d p] show ?case by (auto simp: port_is_valid_iff)
next
  case (Vcpu_virq w i d v vi d')
  then obtain x where "vcpu d v = Some x" by (cases "vcpu d v") (auto simp: send_guest_vcpu_virq_def)
  with Vcpu_virq world_invD [of w i d] vcpu_virq_effect [of d v x vi] show ?case
    by (intro world_inv_upd [of w i d]) auto
next
  case (Global_virq w i d vi d')
  then obtain x where "vcpu d 0 = Some x" using world_invD [of w i d] by (auto simp: dom_inv_def)
  with Global_virq world_invD [of w i d] global_virq_effect [of d x vi] show ?case
    by (intro world_inv_upd [of w i d]) auto
next
  case (Pirq w i d irq b d')
  then have "pirq_to_evtchn d irq \<noteq> 0 \<or> is_hvm_domain d" by (auto simp: send_guest_pirq_def Let_def split: if_splits)
  with Pirq world_invD [of w i d] pirq_effect [of d irq] show ?case
    by (intro world_inv_upd [of w i d]) auto
next
  case (Move_pirqs w i d v d')
  then obtain x where "vcpu d v = Some x" by (cases "vcpu d v") (auto simp: evtchn_move_pirqs_def)
  with Move_pirqs world_invD [of w i d] move_pirqs_effect [of d v x] show ?case
    by (intro world_inv_upd [of w i d]) auto
qed

lemma reach_inv: "ev_reach w \<Longrightarrow> world_inv w"
proof (induction rule: ev_reach.induct)
  case Start
  show ?case by (simp add: world_inv_def peers_def links_def)
next
  case (Step w w')
  then show ?case using step_inv by blast
qed

section \<open>Waking and selecting\<close>

text \<open>Raising an unmasked event selects its word for the vcpu.\<close>

lemma upd_vcpu_at: "upd_vcpu d v f = Some d' \<Longrightarrow> \<exists>x. vcpu d v = Some x \<and> vcpu d' v = Some (f x)"
  by (auto simp: upd_vcpu_def split: option.splits)

lemma mark_pending_sel:
  assumes "vcpu_mark_events_pending d v = Some d'" "vcpu d v = Some x"
  shows "\<exists>x'. vcpu d' v = Some x' \<and> evtchn_pending_sel x' = evtchn_pending_sel x"
  using assms by (auto simp: vcpu_mark_events_pending_def emit_def upd_vcpu_def split: if_splits)

lemma select_word_sel:
  assumes "select_word d v port = Some d'"
  shows "\<exists>x'. vcpu d' v = Some x' \<and> evtchn_pending_sel x' (port div BITS_PER_EVTCHN_WORD d)"
proof -
  obtain x where x: "vcpu d v = Some x" using assms by (cases "vcpu d v") (auto simp: select_word_def)
  let ?i = "port div BITS_PER_EVTCHN_WORD d"
  show ?thesis
  proof (cases "evtchn_pending_sel x ?i")
    case True
    with assms x show ?thesis by (auto simp: select_word_def)
  next
    case False
    let ?d = "d\<lparr>vcpu := (vcpu d)(v \<mapsto> x\<lparr>evtchn_pending_sel := (evtchn_pending_sel x)(?i := True)\<rparr>)\<rparr>"
    have "vcpu_mark_events_pending ?d v = Some d'"
      using assms x False by (simp add: select_word_def upd_vcpu_def)
    from mark_pending_sel [OF this] show ?thesis by auto
  qed
qed

lemma wake_pollers_sel:
  assumes "wake_pollers d port is = Some d'" "vcpu d v = Some x"
  shows "\<exists>x'. vcpu d' v = Some x' \<and> evtchn_pending_sel x' = evtchn_pending_sel x"
  using assms
proof (induction d port "is" arbitrary: x rule: wake_pollers.induct)
  case (2 d port i "is")
  show ?case
  proof (cases "poll_mask d i")
    case False
    with 2 show ?thesis by simp
  next
    case True
    then obtain y where y: "vcpu d i = Some y" using 2(4) by (cases "vcpu d i") auto
    show ?thesis
    proof (cases "poll_evtchn y \<le> 0 \<or> poll_evtchn y = int port")
      case False
      with 2(3) [OF _ y] 2(4,5) True y show ?thesis by simp
    next
      case wake: True
      let ?d = "emit (Vcpu_unblock i) (d\<lparr>poll_mask := (poll_mask d)(i := False), vcpu := (vcpu d)(i \<mapsto> y\<lparr>poll_evtchn := 0\<rparr>)\<rparr>)"
      have run: "wake_pollers ?d port is = Some d'" using 2(4) True y wake by simp
      obtain x1 where x1: "vcpu ?d v = Some x1" "evtchn_pending_sel x1 = evtchn_pending_sel x"
        using 2(5) y by (cases "v = i") (auto simp: emit_def)
      from 2(2) [OF _ y wake run x1(1)] True x1(2) show ?thesis by simp
    qed
  qed
qed simp

lemma wake_pollers_woken:
  assumes "wake_pollers d port is = Some d'" "i \<in> set is" "vcpu d i = Some x"
    "poll_evtchn x \<le> 0 \<or> poll_evtchn x = int port"
  shows "\<not> poll_mask d' i"
  using assms
proof (induction d port "is" arbitrary: x rule: wake_pollers.induct)
  case (2 d port j "is")
  have keep: "\<not> poll_mask d' i" if "wake_pollers d0 port js = Some d'" "\<not> poll_mask d0 i" for d0 js
    using that
  proof (induction d0 port js rule: wake_pollers.induct)
    case (2 d0 port k js)
    then show ?case by (auto simp: emit_def split: if_splits option.splits)
  qed simp
  show ?case
  proof (cases "poll_mask d j")
    case False
    with 2 keep [of d "is"] show ?thesis by (cases "i = j") auto
  next
    case True
    then obtain y where y: "vcpu d j = Some y" using 2(4) by (cases "vcpu d j") auto
    show ?thesis
    proof (cases "poll_evtchn y \<le> 0 \<or> poll_evtchn y = int port")
      case False
      with 2(3) [OF _ y False] 2(4-7) True y show ?thesis by (cases "i = j") auto
    next
      case wake: True
      let ?d = "emit (Vcpu_unblock j) (d\<lparr>poll_mask := (poll_mask d)(j := False), vcpu := (vcpu d)(j \<mapsto> y\<lparr>poll_evtchn := 0\<rparr>)\<rparr>)"
      have run: "wake_pollers ?d port is = Some d'" using 2(4) True y wake by simp
      show ?thesis
      proof (cases "i = j")
        case True
        then show ?thesis using keep [OF run] by (simp add: emit_def)
      next
        case False
        have "vcpu ?d i = Some x" using False 2(6) by (simp add: emit_def)
        from 2(2) [OF _ y wake run _ this 2(7)] True False 2(5) show ?thesis by simp
      qed
    qed
  qed
qed simp

lemma select_word_frame:
  assumes "select_word d v port = Some d'"
  shows "poll_mask d' = poll_mask d" "max_vcpus d' = max_vcpus d"
    "map_option poll_evtchn (vcpu d' i) = map_option poll_evtchn (vcpu d i)"
  using assms
  by (auto simp: select_word_def vcpu_mark_events_pending_def upd_vcpu_def emit_def bind_eq_Some_conv Let_def
      split: if_splits option.splits)

lemma set_pending_delivers:
  assumes "evtchn_set_pending d v port = Some (b, d')" "\<not> evtchn_pending d port"
  shows "\<not> evtchn_mask d port \<Longrightarrow> \<exists>x. vcpu d' v = Some x \<and> evtchn_pending_sel x (port div BITS_PER_EVTCHN_WORD d)"
    and "i < max_vcpus d \<Longrightarrow> vcpu d i = Some y \<Longrightarrow> poll_evtchn y \<le> 0 \<or> poll_evtchn y = int port \<Longrightarrow> \<not> poll_mask d' i"
proof -
  let ?d = "d\<lparr>evtchn_pending := (evtchn_pending d)(port := True)\<rparr>"
  let ?sel = "if \<not> evtchn_mask ?d port then select_word ?d v port else Some ?d"
  obtain x where x: "vcpu d v = Some x" using assms by (cases "vcpu d v") (auto simp: evtchn_set_pending_def)
  have run: "do { d \<leftarrow> ?sel; if \<forall>i < max_vcpus d. \<not> poll_mask d i then Some (False, d)
      else map_option (Pair False) (wake_pollers d port [0..<max_vcpus d]) } = Some (b, d')"
    using assms x by (simp only: evtchn_set_pending_def Let_def option.simps bind.bind_lunit if_False)
  then obtain d1 where d1: "?sel = Some d1" by (cases ?sel) simp_all
  have d': "if \<forall>i < max_vcpus d1. \<not> poll_mask d1 i then d' = d1 else wake_pollers d1 port [0..<max_vcpus d1] = Some d'"
    using run unfolding d1 by (auto split: if_splits)
  have fr: "poll_mask d1 = poll_mask d" "max_vcpus d1 = max_vcpus d"
    "\<And>i. map_option poll_evtchn (vcpu d1 i) = map_option poll_evtchn (vcpu d i)"
    using d1 select_word_frame [of ?d v port d1] by (auto split: if_splits)
  have bits: "BITS_PER_EVTCHN_WORD ?d = BITS_PER_EVTCHN_WORD d" by (simp add: BITS_PER_EVTCHN_WORD_def)
  show "\<exists>x. vcpu d' v = Some x \<and> evtchn_pending_sel x (port div BITS_PER_EVTCHN_WORD d)" if m: "\<not> evtchn_mask d port"
  proof -
    obtain x where x: "vcpu d1 v = Some x" "evtchn_pending_sel x (port div BITS_PER_EVTCHN_WORD d)"
      using d1 m select_word_sel [of ?d v port d1] bits by auto
    show ?thesis
    proof (cases "\<forall>i < max_vcpus d1. \<not> poll_mask d1 i")
      case False
      with d' have "wake_pollers d1 port [0..<max_vcpus d1] = Some d'" by simp
      from wake_pollers_sel [OF this x(1)] x(2) show ?thesis by auto
    qed (use d' x in simp)
  qed
  show "\<not> poll_mask d' i" if i: "i < max_vcpus d" "vcpu d i = Some y" "poll_evtchn y \<le> 0 \<or> poll_evtchn y = int port"
  proof (cases "\<forall>i < max_vcpus d1. \<not> poll_mask d1 i")
    case True
    with d' i fr show ?thesis by simp
  next
    case False
    with d' have run: "wake_pollers d1 port [0..<max_vcpus d1] = Some d'" by simp
    obtain y1 where "vcpu d1 i = Some y1" "poll_evtchn y1 = poll_evtchn y" using fr(3) [of i] i(2) by auto
    with i fr(2) show ?thesis by (intro wake_pollers_woken [OF run, of i y1]) auto
  qed
qed

lemma chan_eq: "chan d p = Some c \<longleftrightarrow> port_is_valid d p \<and> evtchn_from_port d p = Some c"
  by (simp add: chan_def)

lemma close_at_peer:
  assumes inv: "world_inv w" and d: "w i = Some d" and c: "chan d p = Some c" "closable c"
    and I: "ec_state c = ECS_INTERDOMAIN j q" and ne: "(j, q) \<noteq> (i, p)"
    and r: "evtchn_close_at env i p w = Some (None, w')"
  shows "\<exists>rd rc. w' j = Some rd \<and> chan rd q = Some rc \<and> ec_state rc = ECS_UNBOUND i"
proof -
  have nx: "\<not> consumer_is_xen c" using c by (simp add: closable_def)
  obtain w1 w2 where w2: "on_domain w j (\<lambda>d. upd_evtchn d q (\<lambda>c. c\<lparr>ec_state := ECS_UNBOUND i\<rparr>)) = Some w1"
    "close_finish w1 i p = Some (Closed None w2)"
    "\<exists>rd rc. w2 j = Some rd \<and> chan rd q = Some rc \<and> ec_state rc = ECS_UNBOUND i"
    using close_interdomain [OF inv d c(1) I nx] ne by metis
  obtain rd rc where rd: "w j = Some rd" "chan rd q = Some rc" "ec_state rc = ECS_INTERDOMAIN i p"
    by (rule peer_channel [OF inv d c(1) I])
  have body: "evtchn_close_body env i p (Some j) w = Some (Closed None w2)"
    using d c nx I rd w2(1,2) chan_from_port [OF rd(2)] chan_from_port [OF c(1)]
    by (simp add: evtchn_close_body_def port_is_valid_iff)
  then have "evtchn_close_at env i p w = Some (None, w2)"
    using close_body_interdomain(1) [OF inv d c I, of env None] by (auto simp: evtchn_close_at_def)
  with r w2(3) show ?thesis by simp
qed

lemma get_free_port_max: "get_free_port env d = (r, d') \<Longrightarrow> MAX_EVTCHNS d' = MAX_EVTCHNS d"
  by (auto simp: get_free_port_def MAX_EVTCHNS_def BITS_PER_EVTCHN_WORD_def split: if_splits sum.splits)

lemma full_iff:
  "(\<forall>p < MAX_EVTCHNS d. \<exists>c. evtchn_from_port d p = Some c \<and> ec_state c \<noteq> ECS_FREE) \<longleftrightarrow>
    find_free_port d 0 = Inr (MAX_EVTCHNS d)"
proof
  assume full: "\<forall>p < MAX_EVTCHNS d. \<exists>c. evtchn_from_port d p = Some c \<and> ec_state c \<noteq> ECS_FREE"
  then have valid: "port_is_valid d p \<longleftrightarrow> p < MAX_EVTCHNS d" for p
    by (auto simp: port_is_valid_def evtchn_from_port_def)
  show "find_free_port d 0 = Inr (MAX_EVTCHNS d)"
  proof (cases "find_free_port d 0")
    case (Inl p)
    with find_free_port_cases [of d 0] obtain c where "chan d p = Some c" "ec_state c = ECS_FREE" by auto
    with full valid show ?thesis by (auto simp: chan_eq)
  next
    case (Inr p)
    with find_free_port_cases [of d 0] have "\<not> port_is_valid d p" "\<forall>q<p. port_is_valid d q"
      by (auto simp: port_is_valid_iff)
    then have "p = MAX_EVTCHNS d" unfolding valid by (meson linorder_neqE_nat not_less_iff_gr_or_eq)
    with Inr show ?thesis by simp
  qed
next
  assume "find_free_port d 0 = Inr (MAX_EVTCHNS d)"
  with find_free_port_cases [of d 0] show "\<forall>p < MAX_EVTCHNS d. \<exists>c. evtchn_from_port d p = Some c \<and> ec_state c \<noteq> ECS_FREE"
    by (auto simp: chan_eq)
qed

lemma bind_virq_result:
  assumes "evtchn_bind_virq env cur vi vc w = Some (Inr port, w')"
  obtains d1 d2 d3 where "upd_evtchn d1 port (\<lambda>c. c\<lparr>ec_state := ECS_VIRQ vi, notify_vcpu_id := vc\<rparr>) = Some d2"
    "upd_vcpu d2 vc (\<lambda>v. v\<lparr>virq_to_evtchn := (virq_to_evtchn v)(vi := port)\<rparr>) = Some d3" "w' = w(cur \<mapsto> d3)"
    "\<exists>d. get_free_port env d = (Inr port, d1) \<and> w cur = Some d"
  using assms
  by (auto simp: evtchn_bind_virq_def bind_eq_Some_conv split: if_splits option.splits prod.splits sum.splits)

lemma bind_virq_table:
  assumes "evtchn_bind_virq env cur vi vc w = Some (Inr port, w')"
  obtains d x where "w' cur = Some d" "vcpu d vc = Some x" "virq_to_evtchn x vi = port"
    "\<exists>d0 d1. w cur = Some d0 \<and> get_free_port env d0 = (Inr port, d1)"
proof (rule bind_virq_result [OF assms])
  fix d1 d2 d3
  assume u: "upd_vcpu d2 vc (\<lambda>v. v\<lparr>virq_to_evtchn := (virq_to_evtchn v)(vi := port)\<rparr>) = Some d3" "w' = w(cur \<mapsto> d3)"
    "\<exists>d. get_free_port env d = (Inr port, d1) \<and> w cur = Some d"
  obtain x where "vcpu d3 vc = Some (x\<lparr>virq_to_evtchn := (virq_to_evtchn x)(vi := port)\<rparr>)"
    using upd_vcpu_at [OF u(1)] by blast
  with u show thesis by (intro that) auto
qed

lemma free_port_nonzero:
  assumes "xsm_alloc_ok env" "dom_inv d" "get_free_port env d = (Inr port, d')"
  shows "port \<noteq> 0"
proof
  assume "port = 0"
  moreover obtain c where "chan d' port = Some c" "ec_state c = ECS_FREE" "dom_inv d'"
    using get_free_port_inv [OF assms] by auto
  ultimately show False by (auto simp: dom_inv_def view_inv_def inv_port0_def)
qed

end
