(* ===== verification/Evtchn_Props.thy ===== *)
theory Evtchn_Props
  imports Evtchn_Steps
begin

text \<open>
  The properties of event channels, with an example of two connected domains at which they are
  applied.
\<close>

section \<open>Examples\<close>

text \<open>
  Two domains with one vcpu each; domain 0 offers a port to domain 1, which binds it.
\<close>

definition ex_env :: ev_env where
  "ex_env = \<lparr>xmalloc_ok = True, poll_mask_xmalloc_ok = True, xsm_alloc_security_evtchn = (\<lambda>_. False),
     freed_bucket = (\<lambda>_. zero_evtchn), xsm_evtchn_unbound = (\<lambda>_ _ _. None), xsm_evtchn_interdomain = (\<lambda>_ _ _ _. None),
     xsm_evtchn_send = (\<lambda>_ _. None), xsm_evtchn_status = (\<lambda>_ _. None), xsm_evtchn_reset = (\<lambda>_ _. None),
     is_priv_for = (\<lambda>_ _. True), pirq_guest_bind = (\<lambda>_ _ _. None), domain_pirq_to_irq = (\<lambda>_ _. 0),
     dom_before = (\<lambda>i j. i < j)\<rparr>"

definition ex_vcpu :: ev_vcpu where
  "ex_vcpu = \<lparr>virq_to_evtchn = (\<lambda>_. 0), pirq_evtchn_head = 0, poll_evtchn = 0, evtchn_pending_sel = (\<lambda>_. False),
     evtchn_upcall_pending = False, blocked_in_xen = False, processor = 0\<rparr>"

definition ex_dom :: ev_domain where
  "ex_dom = \<lparr>is_dying = False, is_hvm_domain = False, has_32bit_shinfo = False, buckets = (\<lambda>_. None),
     evtchn_pending = (\<lambda>_. False), evtchn_mask = (\<lambda>_. False), poll_mask = (\<lambda>_. False), max_vcpus = 1,
     vcpu = [0 \<mapsto> ex_vcpu], pirq_to_evtchn = (\<lambda>_. 0), io_caps = example_domain\<lparr>irq_caps := example_caps\<rparr>, trace = []\<rparr>"

definition ex_new :: ev_domain where
  "ex_new = snd (the (evtchn_init ex_env ex_dom))"

definition ex_world :: ev_world where
  "ex_world = ((\<lambda>_. None)(0 \<mapsto> ex_new))(1 \<mapsto> ex_new)"

lemma find_free_hit:
  "port_is_valid d p \<Longrightarrow> map_option ec_state (evtchn_from_port d p) = Some ECS_FREE \<Longrightarrow> find_free_port d p = Inl p"
  by (subst find_free_port.simps) simp

lemma find_free_next:
  "port_is_valid d p \<Longrightarrow> map_option ec_state (evtchn_from_port d p) \<noteq> Some ECS_FREE \<Longrightarrow>
    find_free_port d p = find_free_port d (Suc p)"
  by (subst find_free_port.simps) auto

lemma find_free_none: "\<not> port_is_valid d p \<Longrightarrow> find_free_port d p = Inr p"
  by (subst find_free_port.simps) simp

lemmas ev_simps = port_is_valid_def MAX_EVTCHNS_def BITS_PER_EVTCHN_WORD_def bucket_from_port_def
  EVTCHNS_PER_BUCKET_def evtchn_from_port_def upd_evtchn_def upd_vcpu_def on_domain_def emit_def zero_evtchn_def DOMID_SELF_def

lemma ex_new_eq: "ex_new = ex_dom\<lparr>buckets := [0 \<mapsto> (\<lambda>_. zero_evtchn)(0 := zero_evtchn\<lparr>ec_state := ECS_RESERVED\<rparr>)]\<rparr>"
  by (simp add: ex_new_def evtchn_init_def get_free_port_def find_free_none ev_simps ex_dom_def ex_env_def)

lemma ex_free: "find_free_port ex_new 0 = Inl 1"
  by (simp add: find_free_next find_free_hit ex_new_eq ev_simps ex_dom_def)

text \<open>A domain whose first bucket holds channel \<open>c\<close> at port 1.\<close>

definition ex_with :: "evtchn \<Rightarrow> ev_domain" where
  "ex_with c = ex_dom\<lparr>buckets := [0 \<mapsto> (\<lambda>_. zero_evtchn)(0 := zero_evtchn\<lparr>ec_state := ECS_RESERVED\<rparr>, 1 := c)]\<rparr>"

lemma ex_new_upd: "upd_evtchn ex_new 1 f = Some (ex_with (f zero_evtchn))"
  by (simp add: ex_new_eq ex_with_def ex_dom_def ev_simps)

lemma ex_get_free: "get_free_port ex_env ex_new = (Inr 1, ex_new)"
  by (simp add: get_free_port_def ex_free) (simp add: ex_new_eq ex_dom_def)

lemma ex_with_1:
  "evtchn_from_port (ex_with c) 1 = Some c" "port_is_valid (ex_with c) 1" "upd_evtchn (ex_with c) 1 f = Some (ex_with (f c))"
  by (simp_all add: ex_with_def ex_dom_def ev_simps)

lemma ex_fields:
  "max_vcpus ex_new = 1" "vcpu ex_new 0 = Some ex_vcpu" "vcpu (ex_with c) 0 = Some ex_vcpu" "virq_to_evtchn ex_vcpu vi = 0"
  by (simp_all add: ex_new_eq ex_with_def ex_dom_def ex_vcpu_def)

lemma ex_env_simps [simp]:
  "xsm_evtchn_unbound ex_env i p j = None" "xsm_evtchn_interdomain ex_env i p j q = None" "xsm_evtchn_send ex_env i p = None"
  "xsm_evtchn_status ex_env i p = None" "xsm_evtchn_reset ex_env i j = None" "is_priv_for ex_env i j"
  "pirq_guest_bind ex_env i irq s = None"
  by (simp_all add: ex_env_def)

lemma zero_simps [simp]: "ec_state zero_evtchn = ECS_FREE" "notify_vcpu_id zero_evtchn = 0" "\<not> consumer_is_xen zero_evtchn"
  by (simp_all add: zero_evtchn_def)

lemma ex_alloc: "do_event_channel_op ex_env 0 (EVTCHNOP_alloc_unbound DOMID_SELF 1) True True ex_world =
   Some (Inr (Out_port 1), ex_world(0 \<mapsto> ex_with (zero_evtchn\<lparr>ec_state := ECS_UNBOUND 1\<rparr>)))"
  by (simp add: do_event_channel_op_def copy_out_def evtchn_alloc_unbound_def rcu_lock_target_domain_by_id_def
     ex_world_def ex_get_free ex_new_upd DOMID_SELF_def del: One_nat_def)

lemma ex_pending: "\<exists>d'. evtchn_set_pending (ex_with c) 0 1 = Some (False, d')"
  by (simp add: evtchn_set_pending_def select_word_def vcpu_mark_events_pending_def ex_with_def ex_dom_def ev_simps
      ex_vcpu_def)

definition ex_offered :: ev_world where
  "ex_offered = ex_world(0 \<mapsto> ex_with (zero_evtchn\<lparr>ec_state := ECS_UNBOUND 1\<rparr>))"

lemma ex_bind: "\<exists>w'. evtchn_bind_interdomain ex_env 1 0 1 ex_offered = Some (Inr 1, w')"
  using ex_pending [of "zero_evtchn\<lparr>ec_state := ECS_INTERDOMAIN 0 1\<rparr>"]
  by (auto simp: evtchn_bind_interdomain_def rcu_lock_target_domain_by_id_def on_domain_def set_pending_at_def ex_offered_def
     ex_world_def ex_get_free ex_new_upd ex_with_1 DOMID_SELF_def simp del: One_nat_def)
definition ex_bound :: ev_world where
  "ex_bound = snd (the (evtchn_bind_interdomain ex_env 1 0 1 ex_offered))"

lemma ex_bound_eq: "evtchn_bind_interdomain ex_env 1 0 1 ex_offered = Some (Inr 1, ex_bound)"
  using ex_bind by (auto simp: ex_bound_def)

lemma ex_bound_doms:
  obtains d where "ex_bound 0 = Some (ex_with (zero_evtchn\<lparr>ec_state := ECS_INTERDOMAIN 1 1\<rparr>))" "ex_bound 1 = Some d"
    "chan d 1 = Some (zero_evtchn\<lparr>ec_state := ECS_INTERDOMAIN 0 1\<rparr>)"
proof -
  let ?d = "ex_with (zero_evtchn\<lparr>ec_state := ECS_INTERDOMAIN 0 1\<rparr>)"
  have "vcpu ?d 0 \<noteq> None" "inv_vcpus (view ?d)"
    by (auto simp: ex_with_def ex_dom_def inv_vcpus_def split: if_splits)
  then obtain b d' where d': "evtchn_set_pending ?d 0 1 = Some (b, d')" "quiet ?d d'" by (rule set_pending_quiet)
  then have "evtchn_bind_interdomain ex_env 1 0 1 ex_offered =
      Some (Inr 1, ex_world(0 \<mapsto> ex_with (zero_evtchn\<lparr>ec_state := ECS_INTERDOMAIN 1 1\<rparr>), 1 \<mapsto> d'))"
    by (auto simp: evtchn_bind_interdomain_def on_domain_def set_pending_at_def ex_offered_def
      ex_world_def ex_get_free ex_new_upd ex_with_1 DOMID_SELF_def fun_upd_twist simp del: One_nat_def)
  then have b: "ex_bound = ex_world(0 \<mapsto> ex_with (zero_evtchn\<lparr>ec_state := ECS_INTERDOMAIN 1 1\<rparr>), 1 \<mapsto> d')"
    by (simp add: ex_bound_def)
  moreover have "chan d' 1 = Some (zero_evtchn\<lparr>ec_state := ECS_INTERDOMAIN 0 1\<rparr>)"
    using quiet_chan [OF d'(2)] by (simp add: chan_def ex_with_1 del: One_nat_def)
  ultimately show ?thesis by (intro that [of d']) (simp_all add: b del: One_nat_def)
qed

lemma ex_env_ok [simp]: "xsm_alloc_ok ex_env"
  by (simp add: xsm_alloc_ok_def ex_env_def)

lemma ex_reach: "ev_reach ex_world"
proof -
  have "fresh ex_dom" by (simp add: fresh_def ex_dom_def ex_vcpu_def)
  moreover have "xmalloc_ok ex_env" "poll_mask_xmalloc_ok ex_env" by (simp_all add: ex_env_def)
  ultimately have "evtchn_init ex_env ex_dom = Some (None, ex_new)"
    using init_effect [of ex_env ex_dom] by (auto simp: ex_new_def)
  note create = Create [OF ex_env_ok _ \<open>fresh ex_dom\<close> this]
  have "ev_reach ((\<lambda>_. None)(0 \<mapsto> ex_new))" by (rule Step [OF Start create]) simp
  then show ?thesis unfolding ex_world_def by (rule Step [OF _ create]) simp
qed

lemma reach_op:
  "ev_reach w \<Longrightarrow> xsm_alloc_ok env \<Longrightarrow> w cur \<noteq> None \<Longrightarrow> do_event_channel_op env cur cmd f t w = Some (r, w') \<Longrightarrow>
    ev_reach w'"
  by (rule Step, assumption) (rule Hypercall)

lemma ex_offered_reach: "ev_reach ex_offered"
proof (rule reach_op [OF ex_reach ex_env_ok])
  show "do_event_channel_op ex_env 0 (EVTCHNOP_alloc_unbound DOMID_SELF 1) True True ex_world =
      Some (Inr (Out_port 1), ex_offered)" unfolding ex_offered_def by (rule ex_alloc)
qed (simp add: ex_world_def)

lemma ex_bound_reach: "ev_reach ex_bound"
proof (rule reach_op [OF ex_offered_reach ex_env_ok])
  show "do_event_channel_op ex_env 1 (EVTCHNOP_bind_interdomain 0 1) True True ex_offered =
      Some (Inr (Out_port 1), ex_bound)"
    by (simp add: do_event_channel_op_def copy_out_def ex_bound_eq del: One_nat_def)
qed (simp add: ex_offered_def ex_world_def)

section \<open>Properties\<close>





text \<open>C7: In a reachable state the remote end of an interdomain channel exists, is an interdomain
  channel and points back.\<close>

theorem evtchn_ends_agree:
  assumes "ev_reach w" "w i = Some d" "port_is_valid d p" "evtchn_from_port d p = Some c"
    "ec_state c = ECS_INTERDOMAIN j q"
  shows "\<exists>rd rc. w j = Some rd \<and> port_is_valid rd q \<and> evtchn_from_port rd q = Some rc \<and>
    ec_state rc = ECS_INTERDOMAIN i p"
proof -
  have c: "chan d p = Some c" using assms(3,4) by (simp add: chan_def)
  obtain rd rc where "w j = Some rd" "chan rd q = Some rc" "ec_state rc = ECS_INTERDOMAIN i p"
    by (rule peer_channel [OF reach_inv [OF assms(1)] assms(2) c assms(5)])
  then show ?thesis using chan_valid chan_from_port by blast
qed

theorem evtchn_ends_agree_witness:
  "\<exists>rd rc. ex_bound 1 = Some rd \<and> evtchn_from_port rd 1 = Some rc \<and> ec_state rc = ECS_INTERDOMAIN 0 1"
proof -
  obtain d where "ex_bound 0 = Some (ex_with (zero_evtchn\<lparr>ec_state := ECS_INTERDOMAIN 1 1\<rparr>))" by (rule ex_bound_doms)
  from evtchn_ends_agree [OF ex_bound_reach this ex_with_1(2,1), of 1 1] show ?thesis by auto
qed

text \<open>C8: A successful EVTCHNOP_bind_interdomain connects the new local port and the remote port in
  both directions and raises the event of the local port, so that the binding domain looks at the
  channel once.\<close>

theorem bind_interdomain_connects:
  assumes "ev_reach w" "w cur \<noteq> None" "xsm_alloc_ok env"
    "evtchn_bind_interdomain env cur remote_id rport w = Some (Inr lport, w')"
  shows "let rdom = (if remote_id = DOMID_SELF then cur else remote_id) in
    \<exists>ld lc rd rc. w' cur = Some ld \<and> evtchn_from_port ld lport = Some lc \<and> ec_state lc = ECS_INTERDOMAIN rdom rport \<and>
      evtchn_pending ld lport \<and>
      w' rdom = Some rd \<and> evtchn_from_port rd rport = Some rc \<and> ec_state rc = ECS_INTERDOMAIN cur lport"
proof -
  define rdom where "rdom = (if remote_id = DOMID_SELF then cur else remote_id)"
  obtain ld where l: "links w' cur lport = Some (rdom, rport)" "links w' rdom rport = Some (cur, lport)"
    "w' cur = Some ld" "evtchn_pending ld lport"
    using bind_interdomain_effect [OF reach_inv [OF assms(1)] assms(3,2), of remote_id rport] assms(4)
    by (auto simp: Let_def rdom_def)
  have ch: "\<exists>d c. w' i = Some d \<and> evtchn_from_port d p = Some c \<and> ec_state c = ECS_INTERDOMAIN j q"
    if "links w' i p = Some (j, q)" for i p j q
    using that chan_from_port
    by (fastforce simp: links_def dlinks_def bind_eq_Some_conv dest!: link_of_SomeD)
  from ch [OF l(1)] ch [OF l(2)] l(3,4) show ?thesis by (auto simp: Let_def rdom_def)
qed

theorem bind_interdomain_connects_witness:
  "\<exists>rd rc. ex_bound 0 = Some rd \<and> evtchn_from_port rd 1 = Some rc \<and> ec_state rc = ECS_INTERDOMAIN 1 1"
proof -
  have "ex_offered 1 \<noteq> None" by (simp add: ex_offered_def ex_world_def)
  from bind_interdomain_connects [OF ex_offered_reach this ex_env_ok ex_bound_eq] show ?thesis
    by (auto simp: Let_def DOMID_SELF_def)
qed



text \<open>C10: Closing a port that is in use and not owned by Xen frees it and clears its pending event;
  if the port was one end of an interdomain channel, the other end becomes an unbound port that
  waits for the same domain.\<close>

theorem evtchn_close_frees:
  assumes "ev_reach w" "w i = Some d" "port_is_valid d p" "evtchn_from_port d p = Some c"
    "\<not> consumer_is_xen c" "ec_state c \<noteq> ECS_FREE" "ec_state c \<noteq> ECS_RESERVED"
  shows "\<exists>w' d' c'. evtchn_close_at env i p w = Some (None, w') \<and> w' i = Some d' \<and>
    evtchn_from_port d' p = Some c' \<and> ec_state c' = ECS_FREE \<and> notify_vcpu_id c' = 0 \<and> \<not> evtchn_pending d' p \<and>
    (\<forall>j q. ec_state c = ECS_INTERDOMAIN j q \<and> (j, q) \<noteq> (i, p) \<longrightarrow>
      (\<exists>rd rc. w' j = Some rd \<and> evtchn_from_port rd q = Some rc \<and> ec_state rc = ECS_UNBOUND i))"
proof -
  have inv: "world_inv w" by (rule reach_inv [OF assms(1)])
  have c: "chan d p = Some c" "closable c" using assms by (simp_all add: chan_def closable_def shut_def)
  obtain w' where w': "evtchn_close_at env i p w = Some (None, w')" "closes w i p w'"
    using close_at_cases [OF inv assms(2), of p env] c by auto
  obtain d' c' where d': "w' i = Some d'" "chan d' p = Some c'" "ec_state c' = ECS_FREE" "notify_vcpu_id c' = 0"
    "\<not> evtchn_pending d' p" using w'(2) by (auto simp: closes_def port_closed_def)
  moreover have "\<exists>rd rc. w' j = Some rd \<and> evtchn_from_port rd q = Some rc \<and> ec_state rc = ECS_UNBOUND i"
    if I: "ec_state c = ECS_INTERDOMAIN j q" and ne: "(j, q) \<noteq> (i, p)" for j q
    using close_at_peer [OF inv assms(2) c I ne w'(1)] chan_from_port by blast
  ultimately show ?thesis using w'(1) chan_from_port by blast
qed

theorem evtchn_close_frees_witness:
  "\<exists>w' rd rc. evtchn_close_at ex_env 0 1 ex_bound = Some (None, w') \<and> w' 1 = Some rd \<and>
    evtchn_from_port rd 1 = Some rc \<and> ec_state rc = ECS_UNBOUND 0"
proof -
  let ?c = "zero_evtchn\<lparr>ec_state := ECS_INTERDOMAIN 1 1\<rparr>"
  obtain d where d: "ex_bound 0 = Some (ex_with ?c)" by (rule ex_bound_doms)
  have "\<not> consumer_is_xen ?c" "ec_state ?c \<noteq> ECS_FREE" "ec_state ?c \<noteq> ECS_RESERVED" by simp_all
  from evtchn_close_frees [OF ex_bound_reach d ex_with_1(2,1) this, of ex_env] show ?thesis by auto
qed

text \<open>C11: The lock-order path of __evtchn_close: whatever happened while the lock was not held, the
  second pass returns to its caller and never reaches one of its BUG checks.\<close>

theorem evtchn_close_race_safe:
  assumes "ev_reach w" "evtchn_close_body env i p None w = Some (Again j)" "ev_reach w'" "w' i \<noteq> None"
  shows "\<exists>rc w''. evtchn_close_body env i p (Some j) w' = Some (Closed rc w'') \<and> ev_reach w''"
proof -
  obtain d where "w' i = Some d" using assms(4) by blast
  with close_body_cases [OF reach_inv [OF assms(3)], of i d env p "Some j"]
  obtain rc w'' where r: "evtchn_close_body env i p (Some j) w' = Some (Closed rc w'')" by auto
  then show ?thesis using Step [OF assms(3)] Close_again assms(4) by blast
qed

theorem evtchn_close_race_safe_witness:
  "\<exists>rc w''. evtchn_close_body ex_env 1 1 (Some 0) ex_world = Some (Closed rc w'') \<and> ev_reach w''"
proof -
  let ?c = "zero_evtchn\<lparr>ec_state := ECS_INTERDOMAIN 0 1\<rparr>"
  obtain d where d: "ex_bound 0 \<noteq> None" "ex_bound 1 = Some d" "chan d 1 = Some ?c" using ex_bound_doms by (metis option.distinct(1))
  have "evtchn_close_body ex_env 1 1 None ex_bound = Some (Again 0)"
    using d chan_valid [OF d(3)] chan_from_port [OF d(3)] by (auto simp: evtchn_close_body_def ex_env_def)
  from evtchn_close_race_safe [OF ex_bound_reach this ex_reach] show ?thesis by (simp add: ex_world_def)
qed

text \<open>C12: Destroying the channels of a dying domain leaves no port of it valid, none of its
  interrupt tables pointing at a port, and no channel of any domain connected to it.\<close>

theorem evtchn_destroy_clean:
  assumes "ev_reach w" "w i = Some d" "is_dying d"
  shows "\<exists>w' d'. evtchn_destroy env i w = Some w' \<and> w' i = Some d' \<and> (\<forall>p. \<not> port_is_valid d' p) \<and>
    (\<forall>irq. pirq_to_evtchn d' irq = 0) \<and>
    (\<forall>v x vi. vcpu d' v = Some x \<longrightarrow> virq_to_evtchn x vi = 0 \<and> pirq_evtchn_head x = 0) \<and>
    (\<forall>j rd q rc p. w' j = Some rd \<and> port_is_valid rd q \<and> evtchn_from_port rd q = Some rc \<longrightarrow>
      ec_state rc \<noteq> ECS_INTERDOMAIN i p)"
proof -
  obtain w' d' where w': "evtchn_destroy env i w = Some w'" "w' i = Some d'" "\<forall>q. chan d' q = None"
    "\<forall>irq. pirq_to_evtchn d' irq = 0"
    "\<forall>v x vi. vcpu d' v = Some x \<longrightarrow> virq_to_evtchn x vi = 0 \<and> pirq_evtchn_head x = 0"
    "\<forall>j rd q rc p. w' j = Some rd \<and> chan rd q = Some rc \<longrightarrow> ec_state rc \<noteq> ECS_INTERDOMAIN i p"
    using destroy_effect [OF reach_inv [OF assms(1)] assms(2,3), of env] by blast
  then have "\<forall>p. \<not> port_is_valid d' p" by (simp add: port_is_valid_iff)
  moreover have "\<forall>j rd q rc p. w' j = Some rd \<and> port_is_valid rd q \<and> evtchn_from_port rd q = Some rc \<longrightarrow>
      ec_state rc \<noteq> ECS_INTERDOMAIN i p"
    using w'(6) by (simp only: chan_eq conj_assoc)
  ultimately show ?thesis using w'(1,2,4,5) by blast
qed

theorem evtchn_destroy_clean_witness:
  "\<exists>w' d'. evtchn_destroy ex_env 0 (ex_bound(0 \<mapsto> (the (ex_bound 0))\<lparr>is_dying := True\<rparr>)) = Some w' \<and> w' 0 = Some d' \<and>
    (\<forall>p. \<not> port_is_valid d' p)"
proof -
  obtain d where d: "ex_bound 0 = Some d" using ex_bound_doms by metis
  let ?w = "ex_bound(0 \<mapsto> d\<lparr>is_dying := True\<rparr>)"
  have "ev_reach ?w" by (rule Step [OF ex_bound_reach Kill [of ex_bound 0 d, OF d]])
  moreover have "?w 0 = Some (d\<lparr>is_dying := True\<rparr>)" "is_dying (d\<lparr>is_dying := True\<rparr>)" by simp_all
  ultimately have "\<exists>w' d'. evtchn_destroy ex_env 0 ?w = Some w' \<and> w' 0 = Some d' \<and> (\<forall>p. \<not> port_is_valid d' p)"
    using evtchn_destroy_clean [of ?w 0 "d\<lparr>is_dying := True\<rparr>" ex_env] by blast
  with d show ?thesis by simp
qed

text \<open>C13: evtchn_move_pirqs ends in a reachable state, and sets the affinity of exactly the physical
  interrupts delivered to the vcpu, each once, to the processor the vcpu runs on.\<close>

theorem evtchn_move_pirqs_exact:
  assumes "ev_reach w" "w i = Some d" "vcpu d v = Some x"
  shows "\<exists>d' irqs. evtchn_move_pirqs d v = Some d' \<and>
    trace d' = trace d @ map (\<lambda>irq. Pirq_set_affinity irq (processor x)) irqs \<and> distinct irqs \<and>
    set irqs = {irq. \<exists>p c n a. port_is_valid d p \<and> evtchn_from_port d p = Some c \<and> ec_state c = ECS_PIRQ irq n a \<and>
      notify_vcpu_id c = v}"
proof -
  have di: "dom_inv d" by (rule world_invD [OF reach_inv [OF assms(1)] assms(2)])
  obtain d' ps where d': "evtchn_move_pirqs d v = Some d'" "distinct ps" "set ps = pirq_ports (chan d) v"
    "trace d' = trace d @ map (\<lambda>p. Pirq_set_affinity (pirq_irq (ec_state (the (chan d p)))) (processor x)) ps"
    using move_pirqs_effect [OF di assms(3)] by blast
  let ?f = "\<lambda>p. pirq_irq (ec_state (the (chan d p)))"
  have mem: "p \<in> set ps \<longleftrightarrow> (\<exists>c irq n a. chan d p = Some c \<and> ec_state c = ECS_PIRQ irq n a \<and> notify_vcpu_id c = v)" for p
    unfolding d'(3) pirq_ports_def is_PIRQ_iff by auto
  have ip: "inv_pirq (view d)" using di by (simp add: dom_inv_def view_inv_def)
  have port: "pirq_to_evtchn d (?f p) = p" if p: "p \<in> set ps" for p
  proof -
    obtain c irq n a where c: "chan d p = Some c" "ec_state c = ECS_PIRQ irq n a" using p mem by blast
    then have "vw_pirq (view d) irq = p" using inv_pirqD(2) [OF ip, of p c irq n a] by simp
    with c show ?thesis by simp
  qed
  have "inj_on ?f (set ps)" by (rule inj_onI) (metis port)
  then have "distinct (map ?f ps)" using d'(2) by (simp add: distinct_map)
  moreover have "set (map ?f ps) = {irq. \<exists>p c n a. chan d p = Some c \<and> ec_state c = ECS_PIRQ irq n a \<and> notify_vcpu_id c = v}"
  proof (rule set_eqI)
    fix irq
    have "irq \<in> set (map ?f ps) \<longleftrightarrow> (\<exists>p. p \<in> set ps \<and> irq = ?f p)" by auto
    also have "\<dots> \<longleftrightarrow> (\<exists>p c n a. chan d p = Some c \<and> ec_state c = ECS_PIRQ irq n a \<and> notify_vcpu_id c = v)"
      unfolding mem by (metis ecs.inject(3) ecs.sel(4) option.sel)
    finally show "irq \<in> set (map ?f ps) \<longleftrightarrow>
      irq \<in> {irq. \<exists>p c n a. chan d p = Some c \<and> ec_state c = ECS_PIRQ irq n a \<and> notify_vcpu_id c = v}" by simp
  qed
  ultimately show ?thesis
    using d'(1,4) by (intro exI [of _ d'] exI [of _ "map ?f ps"]) (simp add: chan_eq o_def)
qed

theorem evtchn_move_pirqs_exact_witness:
  "\<exists>d' irqs. evtchn_move_pirqs ex_new 0 = Some d' \<and>
    trace d' = trace ex_new @ map (\<lambda>irq. Pirq_set_affinity irq (processor ex_vcpu)) irqs"
proof -
  have "ex_world 0 = Some ex_new" "vcpu ex_new 0 = Some ex_vcpu" by (simp_all add: ex_world_def ex_new_eq ex_dom_def)
  from evtchn_move_pirqs_exact [OF ex_reach this] show ?thesis by blast
qed

text \<open>C14: A successful EVTCHNOP_reset closes every port of the target domain except those that Xen
  itself consumes.\<close>

theorem evtchn_reset_closes:
  assumes "ev_reach w" "w cur \<noteq> None" "rcu_lock_target_domain_by_id env cur w dom_id = Inr i"
    "xsm_evtchn_reset env cur i = None"
  shows "\<exists>w' d'. evtchn_reset env cur dom_id w = Some (None, w') \<and> w' i = Some d' \<and>
    (\<forall>p c. port_is_valid d' p \<and> evtchn_from_port d' p = Some c \<longrightarrow>
      ec_state c = ECS_FREE \<or> ec_state c = ECS_RESERVED \<or> consumer_is_xen c)"
proof -
  have inv: "world_inv w" by (rule reach_inv [OF assms(1)])
  obtain d where d: "w i = Some d" using lock_target_cases [of w cur env dom_id i] assms(2,3) by blast
  obtain w' d' where w': "close_all env i (MAX_EVTCHNS d) w 0 = Some w'" "wshrinks w w'" "w' i = Some d'" "world_inv w'"
    "\<forall>q c. 0 \<le> q \<and> q < MAX_EVTCHNS d \<and> chan d' q = Some c \<longrightarrow> xen_owned c"
    using close_all_effect [OF inv d, of 0 "MAX_EVTCHNS d" env] by blast
  have "MAX_EVTCHNS d' = MAX_EVTCHNS d"
    using wshrinksD [OF w'(2) d] w'(3) by (metis option.inject shrinks_def)
  then have "xen_owned c" if "chan d' p = Some c" for p c
    using w'(5) [rule_format, of p c] MAX_le [OF world_invD [OF w'(4,3)] that] that by simp
  then have "\<forall>p c. port_is_valid d' p \<and> evtchn_from_port d' p = Some c \<longrightarrow>
      ec_state c = ECS_FREE \<or> ec_state c = ECS_RESERVED \<or> consumer_is_xen c"
    by (auto simp: chan_eq xen_owned_def shut_def)
  with assms(3,4) d w'(1,3) show ?thesis by (auto simp: evtchn_reset_def)
qed

theorem evtchn_reset_closes_witness:
  "\<exists>w' d'. evtchn_reset ex_env 0 DOMID_SELF ex_bound = Some (None, w') \<and> w' 0 = Some d' \<and>
    (\<forall>p c. port_is_valid d' p \<and> evtchn_from_port d' p = Some c \<longrightarrow>
      ec_state c = ECS_FREE \<or> ec_state c = ECS_RESERVED \<or> consumer_is_xen c)"
proof -
  have "ex_bound 0 \<noteq> None" using ex_bound_doms by (metis option.distinct(1))
  moreover have "rcu_lock_target_domain_by_id ex_env 0 ex_bound DOMID_SELF = Inr 0"
    by (simp add: rcu_lock_target_domain_by_id_def)
  ultimately show ?thesis by (rule evtchn_reset_closes [OF ex_bound_reach]) simp
qed

text \<open>C15: A paravirtual domain binds a physical interrupt only if its interrupt capabilities contain
  it; the interrupt is below the number the domain may use and was not bound before.\<close>

theorem evtchn_bind_pirq_permitted:
  assumes "w cur = Some d" "evtchn_bind_pirq env cur pirq will_share w = Some (Inr port, w')" "\<not> is_hvm_domain d"
  shows "irq_access_permitted (io_caps d) (of_nat pirq) \<and> pirq < unat (nr_pirqs (io_caps d)) \<and> pirq_to_evtchn d pirq = 0"
  using assms by (auto simp: evtchn_bind_pirq_def split: if_splits)

theorem evtchn_bind_pirq_permitted_witness:
  "(\<exists>port w'. evtchn_bind_pirq ex_env 0 8 False ex_world = Some (Inr port, w')) \<and>
   irq_access_permitted (io_caps ex_new) 8"
proof -
  have w: "ex_world 0 = Some ex_new" "\<not> is_hvm_domain ex_new" by (simp_all add: ex_world_def ex_new_eq ex_dom_def)
  have "irq_access_permitted (example_domain\<lparr>irq_caps := example_caps\<rparr>) 8" by code_simp
  then have "irq_access_permitted (io_caps ex_new) 8" by (simp add: ex_new_eq ex_dom_def)
  then have "\<exists>port w'. evtchn_bind_pirq ex_env 0 8 False ex_world = Some (Inr port, w')"
    using w ex_get_free
    by (auto simp: evtchn_bind_pirq_def link_pirq_port_def ev_simps set_next_port_def set_prev_port_def example_domain_def
        Let_def ex_vcpu_def ex_new_eq ex_dom_def)
  then obtain port w' where r: "evtchn_bind_pirq ex_env 0 8 False ex_world = Some (Inr port, w')" by blast
  from evtchn_bind_pirq_permitted [OF w(1) r w(2)] r show ?thesis by auto
qed


lemma ex_new_inv: "dom_inv ex_new"
proof -
  have "ex_world 0 = Some ex_new" by (simp add: ex_world_def)
  then show ?thesis by (rule world_invD [OF reach_inv [OF ex_reach]])
qed






end
