(* ===== verification/Mig_Queue.thy ===== *)
theory Mig_Queue
  imports Xen_Prelude "HOL-Library.Monad_Syntax"
begin

text \<open>
  The queues through which the threads of a parallel migration exchange work: the linked lists of
  \<^verbatim>\<open>tools/libxl/mc_migration_helper.c\<close> (pages to send, page buffers received, buffers to apply, the pool of
  free page buffers), their initialisation in \<^verbatim>\<open>tools/libxl/xl_cmdimpl.c\<close> and \<^verbatim>\<open>tools/libxc/xc_domain_restore.c\<close>,
  and the array queue of \<^verbatim>\<open>tools/libxc/mc_queue.c\<close> with its atomic counters.

  A list item is a record in a heap of items, a pointer is its address. Every operation runs under the
  mutex of its list and is one step. An operation returns None where the code would follow a null or
  dangling pointer. What the lists promise is the interface \<open>fifo\<close>: a family of queues, each a list, with
  operations that do not disturb the other queues.
\<close>

section \<open>Lists\<close>

type_synonym addr = nat
type_synonym ptr = nat

record list_item =
  li_item :: ptr
  li_next :: addr
  li_prev :: addr

type_synonym item_heap = "addr \<rightharpoonup> list_item"

definition init_list_head :: "item_heap \<Rightarrow> addr \<Rightarrow> item_heap option" where
  "init_list_head h list_head = do {
     _ \<leftarrow> h list_head;
     Some (h(list_head \<mapsto> \<lparr>li_item = 0, li_next = list_head, li_prev = list_head\<rparr>))
   }"

definition list_push :: "item_heap \<Rightarrow> addr \<Rightarrow> addr option \<Rightarrow> ptr \<Rightarrow> item_heap option" where
  "list_push h head m x = do {
     item \<leftarrow> m;
     hn \<leftarrow> h head;
     let nxt = li_next hn;
     let h = h(item \<mapsto> \<lparr>li_item = x, li_next = nxt, li_prev = head\<rparr>);
     n \<leftarrow> h nxt;
     let h = h(nxt \<mapsto> n\<lparr>li_prev := item\<rparr>);
     hn \<leftarrow> h head;
     Some (h(head \<mapsto> hn\<lparr>li_next := item\<rparr>))
   }"

definition list_pop :: "item_heap \<Rightarrow> addr \<Rightarrow> (ptr option \<times> item_heap) option" where
  "list_pop h head = do {
     hn \<leftarrow> h head;
     if li_next hn = head then Some (None, h)
     else do {
       let item = li_prev hn;
       it \<leftarrow> h item;
       let h = h(head \<mapsto> hn\<lparr>li_prev := li_prev it\<rparr>);
       p \<leftarrow> h (li_prev it);
       let h = h(li_prev it \<mapsto> p\<lparr>li_next := head\<rparr>);
       Some (Some (li_item it), h(item := None))
     }
   }"

record mig_queues =
  qheap :: item_heap
  send_argu_head :: addr
  send_argu_head_cnt :: ulong
  recv_pagebuf_head :: addr
  apply_queue_head :: addr
  pagebuf_pool :: addr

definition send_argu_enqueue :: "addr option \<Rightarrow> ptr \<Rightarrow> mig_queues \<Rightarrow> mig_queues option" where
  "send_argu_enqueue m argu s = do {
     h \<leftarrow> list_push (qheap s) (send_argu_head s) m argu;
     Some (s\<lparr>qheap := h, send_argu_head_cnt := send_argu_head_cnt s + 1\<rparr>)
   }"

definition send_argu_dequeue :: "mig_queues \<Rightarrow> (ptr option \<times> mig_queues) option" where
  "send_argu_dequeue s = do {
     (r, h) \<leftarrow> list_pop (qheap s) (send_argu_head s);
     case r of
       None \<Rightarrow> Some (None, s)
     | Some argu \<Rightarrow> Some (Some argu, s\<lparr>qheap := h, send_argu_head_cnt := send_argu_head_cnt s - 1\<rparr>)
   }"

definition recv_pagebuf_enqueue :: "addr option \<Rightarrow> ptr \<Rightarrow> mig_queues \<Rightarrow> mig_queues option" where
  "recv_pagebuf_enqueue m pagebuf s = do {
     h \<leftarrow> list_push (qheap s) (recv_pagebuf_head s) m pagebuf;
     Some (s\<lparr>qheap := h\<rparr>)
   }"

definition recv_pagebuf_dequeue :: "mig_queues \<Rightarrow> (ptr option \<times> mig_queues) option" where
  "recv_pagebuf_dequeue s = do {
     (r, h) \<leftarrow> list_pop (qheap s) (recv_pagebuf_head s);
     Some (r, s\<lparr>qheap := h\<rparr>)
   }"

definition apply_enqueue :: "addr option \<Rightarrow> ptr \<Rightarrow> mig_queues \<Rightarrow> mig_queues option" where
  "apply_enqueue m argu s = do {
     h \<leftarrow> list_push (qheap s) (apply_queue_head s) m argu;
     Some (s\<lparr>qheap := h\<rparr>)
   }"

definition apply_dequeue :: "mig_queues \<Rightarrow> (ptr option \<times> mig_queues) option" where
  "apply_dequeue s = do {
     (r, h) \<leftarrow> list_pop (qheap s) (apply_queue_head s);
     Some (r, s\<lparr>qheap := h\<rparr>)
   }"

definition pagebuf_pool_enqueue :: "addr option \<Rightarrow> ptr \<Rightarrow> mig_queues \<Rightarrow> mig_queues option" where
  "pagebuf_pool_enqueue m pagebuf s = do {
     h \<leftarrow> list_push (qheap s) (pagebuf_pool s) m pagebuf;
     Some (s\<lparr>qheap := h\<rparr>)
   }"

definition pagebuf_pool_dequeue :: "mig_queues \<Rightarrow> (ptr option \<times> mig_queues) option" where
  "pagebuf_pool_dequeue s = do {
     (r, h) \<leftarrow> list_pop (qheap s) (pagebuf_pool s);
     Some (r, s\<lparr>qheap := h\<rparr>)
   }"

text \<open>
  \<^verbatim>\<open>init_pagebuf_pool\<close> of the receiver: ten page buffers for every slave. The allocator gives the buffer
  of round \<open>i\<close> and its list item.
\<close>

fun pool_fill :: "(nat \<Rightarrow> ptr option \<times> addr option) \<Rightarrow> nat list \<Rightarrow> mig_queues \<Rightarrow> mig_queues option" where
  "pool_fill mem [] s = Some s"
| "pool_fill mem (i # is) s = do {
     pagebuf \<leftarrow> fst (mem i);
     s \<leftarrow> pagebuf_pool_enqueue (snd (mem i)) pagebuf s;
     pool_fill mem is s
   }"

definition init_pagebuf_pool :: "(nat \<Rightarrow> ptr option \<times> addr option) \<Rightarrow> int \<Rightarrow> mig_queues \<Rightarrow> mig_queues option" where
  "init_pagebuf_pool mem slave_cnt s = pool_fill mem [0..<nat (slave_cnt * 10)] s"

text \<open>
  The list heads that the two ends of a migration set up (\<^verbatim>\<open>migrate_domain\<close> and \<^verbatim>\<open>migrate_receive\<close> of
  \<^verbatim>\<open>xl_cmdimpl.c\<close>); a new block of memory holds whatever was there before.
\<close>

definition new_head :: "list_item \<Rightarrow> addr option \<Rightarrow> item_heap \<Rightarrow> (addr \<times> item_heap) option" where
  "new_head junk m h = do {
     a \<leftarrow> m;
     h \<leftarrow> init_list_head (h(a \<mapsto> junk)) a;
     Some (a, h)
   }"

definition sender_lists :: "list_item \<Rightarrow> addr option \<Rightarrow> addr option \<Rightarrow> mig_queues \<Rightarrow> mig_queues option" where
  "sender_lists junk m1 m2 s = do {
     (a, h) \<leftarrow> new_head junk m1 (qheap s);
     (b, h) \<leftarrow> new_head junk m2 h;
     Some (s\<lparr>qheap := h, send_argu_head := a, pagebuf_pool := b, send_argu_head_cnt := 0\<rparr>)
   }"

definition receiver_lists ::
    "list_item \<Rightarrow> addr option \<Rightarrow> addr option \<Rightarrow> addr option \<Rightarrow> mig_queues \<Rightarrow> mig_queues option" where
  "receiver_lists junk m1 m2 m3 s = do {
     (a, h) \<leftarrow> new_head junk m1 (qheap s);
     (b, h) \<leftarrow> new_head junk m2 h;
     (c, h) \<leftarrow> new_head junk m3 h;
     Some (s\<lparr>qheap := h, recv_pagebuf_head := a, apply_queue_head := b, pagebuf_pool := c\<rparr>)
   }"

section \<open>Rings\<close>

definition lnk :: "item_heap \<Rightarrow> addr \<Rightarrow> addr \<Rightarrow> bool" where
  "lnk h u v \<longleftrightarrow> map_option li_prev (h u) = Some v \<and> map_option li_next (h v) = Some u"

definition ring :: "item_heap \<Rightarrow> addr \<Rightarrow> addr list \<Rightarrow> bool" where
  "ring h r as \<longleftrightarrow> distinct (r # as) \<and> successively (lnk h) (r # as @ [r])"

definition items :: "item_heap \<Rightarrow> addr list \<Rightarrow> ptr option list" where
  "items h as = map (\<lambda>a. map_option li_item (h a)) as"

lemma ring_cong:
  assumes "\<And>b. b \<in> set (r # as) \<Longrightarrow> h' b = h b"
  shows "ring h' r as \<longleftrightarrow> ring h r as" "items h' as = items h as"
proof -
  have "successively (lnk h') (r # as @ [r]) \<longleftrightarrow> successively (lnk h) (r # as @ [r])"
    by (rule successively_cong) (use assms in \<open>auto simp: lnk_def\<close>)
  then show "ring h' r as \<longleftrightarrow> ring h r as" by (simp add: ring_def)
  show "items h' as = items h as" using assms by (auto simp: items_def)
qed

lemma ring_alive:
  assumes "ring h r as" "b \<in> set (r # as)"
  shows "h b \<noteq> None"
proof -
  have "successively (lnk h) (r # as @ [r])" using assms(1) by (simp add: ring_def)
  moreover have "\<exists>v. lnk h b v" if "successively (lnk h) (xs @ [y])" "b \<in> set xs" for xs y
    using that
    by (induction xs) (auto simp: successively_Cons split: list.splits)
  ultimately have "\<exists>v. lnk h b v" using assms(2) by (metis append_Cons)
  then show ?thesis by (auto simp: lnk_def)
qed

text \<open>The links of a chain that neither starts at \<open>u\<close> nor ends at \<open>v\<close> do not see a change of \<open>u\<close>'s
  predecessor and \<open>v\<close>'s successor.\<close>

lemma succ_upd:
  assumes "successively (lnk h) xs" "u \<notin> set (butlast xs)" "v \<notin> set (tl xs)"
    and "\<And>b. b \<noteq> u \<Longrightarrow> map_option li_prev (h' b) = map_option li_prev (h b) \<or> b \<notin> set xs"
    and "\<And>b. b \<noteq> v \<Longrightarrow> map_option li_next (h' b) = map_option li_next (h b) \<or> b \<notin> set xs"
  shows "successively (lnk h') xs"
  using assms
proof (induction xs)
  case (Cons x xs)
  show ?case
  proof (cases xs)
    case Nil
    then show ?thesis by simp
  next
    case xs: (Cons y ys)
    have "lnk h x y" "successively (lnk h) xs" using Cons.prems(1) xs by auto
    have "x \<noteq> u" "y \<noteq> v" using Cons.prems(2,3) xs by auto
    then have l: "lnk h' x y" using \<open>lnk h x y\<close> Cons.prems(4) [of x] Cons.prems(5) [of y] xs by (auto simp: lnk_def)
    have "successively (lnk h') xs"
    proof (rule Cons.IH)
      show "successively (lnk h) xs" by fact
      show "u \<notin> set (butlast xs)" using Cons.prems(2) xs by auto
      show "v \<notin> set (tl xs)" using Cons.prems(3) xs by auto
    qed (use Cons.prems(4,5) in auto)
    with l xs show ?thesis by simp
  qed
qed simp

lemma ring_last_link:
  assumes "ring h r as"
  shows "lnk h (last (r # as)) r" "successively (lnk h) (r # as)"
proof -
  have "successively (lnk h) ((r # as) @ [r])" using assms by (simp add: ring_def)
  then show "lnk h (last (r # as)) r" "successively (lnk h) (r # as)"
    by (simp_all only: successively_append_iff) simp_all
qed

lemma last_notin_butlast: "distinct xs \<Longrightarrow> xs \<noteq> [] \<Longrightarrow> last xs \<notin> set (butlast xs)"
  by (metis append_butlast_last_id distinct_append disjoint_iff list.set_intros(1))

lemma push_ring:
  assumes ring: "ring h r as" and a: "h a = None"
  obtains h' where "list_push h r (Some a) x = Some h'" "ring h' r (as @ [a])" "items h' (as @ [a]) = items h as @ [Some x]"
    "\<forall>c. c \<notin> set (r # a # as) \<longrightarrow> h' c = h c" "\<forall>c. h' c = None \<longleftrightarrow> h c = None \<and> c \<noteq> a"
proof -
  define b where b: "b = last (r # as)"
  have d: "distinct (r # as)" using ring by (simp add: ring_def)
  have an: "a \<notin> set (r # as)" using ring_alive [OF ring] a by blast
  note ll = ring_last_link [OF ring, folded b]
  obtain hn where hn: "h r = Some hn" "li_next hn = b" using ll(1) by (auto simp: lnk_def)
  have bm: "b \<in> set (r # as)" unfolding b by (rule last_in_set) simp
  then have ba: "b \<noteq> a" using an by blast
  obtain n where n: "h b = Some n" using ring_alive [OF ring bm] by blast
  let ?it = "\<lparr>li_item = x, li_next = b, li_prev = r\<rparr>"
  let ?h1 = "(h(a \<mapsto> ?it))(b \<mapsto> n\<lparr>li_prev := a\<rparr>)"
  obtain hn1 where hn1: "?h1 r = Some hn1" "li_item hn1 = li_item hn" "li_prev hn1 = (if b = r then a else li_prev hn)"
    using hn n an by (cases "b = r") auto
  define h' where h': "h' = ?h1(r \<mapsto> hn1\<lparr>li_next := a\<rparr>)"
  have run: "list_push h r (Some a) x = Some h'"
    using hn n ba an hn1(1) by (auto simp: h' list_push_def Let_def split: if_splits)
  have fields: "map_option li_prev (h' c) = (if c = b then Some a else if c = a then Some r else map_option li_prev (h c))"
    "map_option li_next (h' c) = (if c = r then Some a else if c = a then Some b else map_option li_next (h c))"
    "map_option li_item (h' c) = (if c = a then Some x else map_option li_item (h c))" for c
    using hn n an bm hn1 by (auto simp: h')
  have "successively (lnk h') (r # as)"
  proof (rule succ_upd [OF ll(2)])
    show "b \<notin> set (butlast (r # as))" unfolding b by (rule last_notin_butlast [OF d]) simp
    show "r \<notin> set (tl (r # as))" using d by simp
  qed (use fields an in auto)
  moreover have "lnk h' b a" "lnk h' a r" using fields an bm by (auto simp: lnk_def)
  ultimately have "successively (lnk h') ((r # as) @ [a, r])" by (simp only: successively_append_iff) (simp add: b)
  then have "ring h' r (as @ [a])" using d an by (simp add: ring_def)
  moreover have "items h' (as @ [a]) = items h as @ [Some x]"
    using fields(3) an by (auto simp: items_def)
  moreover have "\<forall>c. c \<notin> set (r # a # as) \<longrightarrow> h' c = h c" using bm by (auto simp: h')
  moreover have "\<forall>c. h' c = None \<longleftrightarrow> h c = None \<and> c \<noteq> a" using hn n an bm a by (auto simp: h')
  ultimately show ?thesis using run that by blast
qed

lemma pop_ring:
  assumes ring: "ring h r (a # as)"
  obtains h' where "list_pop h r = Some (map_option li_item (h a), h')" "ring h' r as" "items h' as = items h as"
    "\<forall>b. b \<notin> set (r # a # as) \<longrightarrow> h' b = h b" "\<forall>b. h' b = None \<longleftrightarrow> h b = None \<or> b = a"
proof -
  define c where c: "c = List.hd (as @ [r])"
  have d: "distinct (r # a # as)" using ring by (simp add: ring_def)
  have ra: "lnk h r a" and ac: "lnk h a c" and rest: "successively (lnk h) (as @ [r])"
    using ring by (auto simp: c ring_def successively_Cons split: if_splits)
  obtain hn it where hn: "h r = Some hn" "li_prev hn = a" and it: "h a = Some it" "li_prev it = c"
    using ra ac by (auto simp: lnk_def)
  have "lnk h (last (r # a # as)) r" by (rule ring_last_link [OF ring])
  then have "li_next hn = last (a # as)" using hn by (auto simp: lnk_def)
  moreover have "last (a # as) \<in> set (a # as)" by (rule last_in_set) simp
  ultimately have ne: "li_next hn \<noteq> r" using d by auto
  have cm: "c \<in> set (r # as)" by (cases as) (auto simp: c)
  have ca: "c \<noteq> a" using cm d by auto
  obtain n where n: "h c = Some n" using ac by (auto simp: lnk_def)
  let ?h1 = "h(r \<mapsto> hn\<lparr>li_prev := c\<rparr>)"
  obtain p where p: "?h1 c = Some p" "li_item p = li_item n" "li_prev p = (if c = r then c else li_prev n)"
    using n hn by (cases "c = r") auto
  define h' where h': "h' = (?h1(c \<mapsto> p\<lparr>li_next := r\<rparr>))(a := None)"
  have run: "list_pop h r = Some (map_option li_item (h a), h')"
    using hn it ne p(1) by (auto simp: h' list_pop_def Let_def split: if_splits)
  have fields: "e \<noteq> a \<Longrightarrow> map_option li_prev (h' e) = (if e = r then Some c else map_option li_prev (h e))"
    "e \<noteq> a \<Longrightarrow> map_option li_next (h' e) = (if e = c then Some r else map_option li_next (h e))"
    "e \<noteq> a \<Longrightarrow> map_option li_item (h' e) = map_option li_item (h e)" for e
    using hn n p by (auto simp: h')
  have "successively (lnk h') (as @ [r])"
  proof (rule succ_upd [OF rest])
    show "r \<notin> set (butlast (as @ [r]))" using d by simp
    show "c \<notin> set (tl (as @ [r]))" using d by (cases as) (auto simp: c)
    show "map_option li_prev (h' b) = map_option li_prev (h b) \<or> b \<notin> set (as @ [r])" if "b \<noteq> r" for b
      using fields(1) [of b] that d by (cases "b = a") auto
    show "map_option li_next (h' b) = map_option li_next (h b) \<or> b \<notin> set (as @ [r])" if "b \<noteq> c" for b
      using fields(2) [of b] that d by (cases "b = a") auto
  qed
  moreover have "lnk h' r c" using fields(1) [of r] fields(2) [of c] ca d by (simp add: lnk_def)
  ultimately have "ring h' r as" using d by (cases as) (auto simp: ring_def c)
  moreover have "items h' as = items h as" unfolding items_def by (intro map_cong [OF refl] fields(3)) (use d in auto)
  moreover have "\<forall>b. b \<notin> set (r # a # as) \<longrightarrow> h' b = h b" using cm by (auto simp: h')
  moreover have "\<forall>b. h' b = None \<longleftrightarrow> h b = None \<or> b = a" using hn n by (auto simp: h')
  ultimately show ?thesis using run that by blast
qed

lemma pop_empty: "ring h r [] \<Longrightarrow> list_pop h r = Some (None, h)"
  by (auto simp: ring_def lnk_def list_pop_def)

lemma push_none: "list_push h r (Some a) x = Some h' \<Longrightarrow> h b = None \<Longrightarrow> b \<noteq> a \<Longrightarrow> h' b = None"
  by (auto simp: list_push_def Let_def bind_eq_Some_conv split: if_splits)

section \<open>Queues that several threads share\<close>

text \<open>
  What the threads of the migration rely on: each queue of a family represents a list, enqueueing
  appends at its end, dequeueing takes from its front, and neither touches the other queues. Memory
  for an item is an argument of the enqueueing operation, since the allocator is not part of the
  queue.
\<close>

datatype ('q, 'm, 'a) qop = Enq 'q 'm 'a | Deq 'q

fun run_ops :: "('q \<Rightarrow> 'm \<Rightarrow> 'a \<Rightarrow> 's \<Rightarrow> 's option) \<Rightarrow> ('q \<Rightarrow> 's \<Rightarrow> ('a option \<times> 's) option) \<Rightarrow>
    ('q, 'm, 'a) qop list \<Rightarrow> 's \<Rightarrow> (('q \<times> 'a) list \<times> 's) option" where
  "run_ops enq deq [] s = Some ([], s)"
| "run_ops enq deq (Enq q m x # ops) s = do { s \<leftarrow> enq q m x s; run_ops enq deq ops s }"
| "run_ops enq deq (Deq q # ops) s = do {
     (r, s) \<leftarrow> deq q s;
     (ys, s) \<leftarrow> run_ops enq deq ops s;
     Some (case r of None \<Rightarrow> ys | Some x \<Rightarrow> (q, x) # ys, s)
   }"

text \<open>Every allocation on the way succeeds.\<close>

fun allocs_ok :: "('q \<Rightarrow> 'm \<Rightarrow> 'a \<Rightarrow> 's \<Rightarrow> 's option) \<Rightarrow> ('q \<Rightarrow> 's \<Rightarrow> ('a option \<times> 's) option) \<Rightarrow> ('m \<Rightarrow> 's \<Rightarrow> bool) \<Rightarrow>
    ('q, 'm, 'a) qop list \<Rightarrow> 's \<Rightarrow> bool" where
  "allocs_ok enq deq fresh [] s \<longleftrightarrow> True"
| "allocs_ok enq deq fresh (Enq q m x # ops) s \<longleftrightarrow>
     fresh m s \<and> (case enq q m x s of None \<Rightarrow> True | Some s' \<Rightarrow> allocs_ok enq deq fresh ops s')"
| "allocs_ok enq deq fresh (Deq q # ops) s \<longleftrightarrow>
     (case deq q s of None \<Rightarrow> True | Some (_, s') \<Rightarrow> allocs_ok enq deq fresh ops s')"

fun sent :: "'q \<Rightarrow> ('q, 'm, 'a) qop list \<Rightarrow> 'a list" where
  "sent q [] = []"
| "sent q (Enq q' m x # ops) = (if q' = q then x # sent q ops else sent q ops)"
| "sent q (Deq q' # ops) = sent q ops"

fun got :: "'q \<Rightarrow> ('q \<times> 'a) list \<Rightarrow> 'a list" where
  "got q [] = []"
| "got q ((q', x) # ys) = (if q' = q then x # got q ys else got q ys)"

fun op_queue :: "('q, 'm, 'a) qop \<Rightarrow> 'q" where
  "op_queue (Enq q m x) = q"
| "op_queue (Deq q) = q"

locale fifo =
  fixes Q :: "'q set"
    and rep :: "'s \<Rightarrow> ('q \<Rightarrow> 'a list) \<Rightarrow> bool"
    and enq :: "'q \<Rightarrow> 'm \<Rightarrow> 'a \<Rightarrow> 's \<Rightarrow> 's option"
    and deq :: "'q \<Rightarrow> 's \<Rightarrow> ('a option \<times> 's) option"
    and fresh :: "'m \<Rightarrow> 's \<Rightarrow> bool"
  assumes enq_rep: "q \<in> Q \<Longrightarrow> rep s c \<Longrightarrow> fresh m s \<Longrightarrow> \<exists>s'. enq q m x s = Some s' \<and> rep s' (c(q := c q @ [x]))"
    and deq_empty: "q \<in> Q \<Longrightarrow> rep s c \<Longrightarrow> c q = [] \<Longrightarrow> deq q s = Some (None, s)"
    and deq_rep: "q \<in> Q \<Longrightarrow> rep s c \<Longrightarrow> c q = x # xs \<Longrightarrow> \<exists>s'. deq q s = Some (Some x, s') \<and> rep s' (c(q := xs))"
begin

text \<open>
  Any sequence of operations, in whatever way the threads interleave them, runs to its end; for
  every queue, what was taken out followed by what is left is what was there followed by what was
  put in.
\<close>

lemma run_fifo:
  assumes "rep s c" "op_queue ` set ops \<subseteq> Q" "allocs_ok enq deq fresh ops s"
  shows "\<exists>ys s' c'. run_ops enq deq ops s = Some (ys, s') \<and> rep s' c' \<and> (\<forall>q. c q @ sent q ops = got q ys @ c' q)"
  using assms
proof (induction ops arbitrary: s c)
  case (Cons op ops)
  show ?case
  proof (cases op)
    case (Enq q m x)
    then have q: "q \<in> Q" "op_queue ` set ops \<subseteq> Q" using Cons.prems(2) by auto
    from Enq obtain s' where s': "enq q m x s = Some s'" "rep s' (c(q := c q @ [x]))"
      using enq_rep [OF q(1) Cons.prems(1), of m x] Cons.prems(3) by auto
    then obtain ys s'' c' where "run_ops enq deq ops s' = Some (ys, s'')" "rep s'' c'"
      "\<forall>p. (c(q := c q @ [x])) p @ sent p ops = got p ys @ c' p"
      using Cons.IH [OF s'(2) q(2)] Cons.prems(3) Enq s'(1) by auto
    with Enq s'(1) show ?thesis by (intro exI [of _ ys] exI [of _ s''] exI [of _ c']) (auto split: if_splits)
  next
    case (Deq q)
    then have q: "q \<in> Q" "op_queue ` set ops \<subseteq> Q" using Cons.prems(2) by auto
    show ?thesis
    proof (cases "c q")
      case Nil
      with Cons.IH [OF Cons.prems(1) q(2)] Cons.prems(3) Deq show ?thesis using deq_empty [OF q(1) Cons.prems(1) Nil] by auto
    next
      case cq: (Cons x xs)
      then obtain s' where s': "deq q s = Some (Some x, s')" "rep s' (c(q := xs))" using deq_rep [OF q(1) Cons.prems(1)] by blast
      then obtain ys s'' c' where "run_ops enq deq ops s' = Some (ys, s'')" "rep s'' c'"
        "\<forall>p. (c(q := xs)) p @ sent p ops = got p ys @ c' p"
        using Cons.IH [OF s'(2) q(2)] Cons.prems(3) Deq by auto
      with Deq s'(1) cq show ?thesis by (intro exI [of _ "(q, x) # ys"] exI [of _ s''] exI [of _ c']) (auto split: if_splits)
    qed
  qed
qed auto

end

section \<open>The four queues of the migration\<close>

datatype queue = SendQ | RecvQ | ApplyQ | PoolQ

fun enqueue_on :: "queue \<Rightarrow> addr option \<Rightarrow> ptr \<Rightarrow> mig_queues \<Rightarrow> mig_queues option" where
  "enqueue_on SendQ = send_argu_enqueue"
| "enqueue_on RecvQ = recv_pagebuf_enqueue"
| "enqueue_on ApplyQ = apply_enqueue"
| "enqueue_on PoolQ = pagebuf_pool_enqueue"

fun dequeue_on :: "queue \<Rightarrow> mig_queues \<Rightarrow> (ptr option \<times> mig_queues) option" where
  "dequeue_on SendQ = send_argu_dequeue"
| "dequeue_on RecvQ = recv_pagebuf_dequeue"
| "dequeue_on ApplyQ = apply_dequeue"
| "dequeue_on PoolQ = pagebuf_pool_dequeue"

fun head_of :: "mig_queues \<Rightarrow> queue \<Rightarrow> addr" where
  "head_of s SendQ = send_argu_head s"
| "head_of s RecvQ = recv_pagebuf_head s"
| "head_of s ApplyQ = apply_queue_head s"
| "head_of s PoolQ = pagebuf_pool s"

text \<open>
  A process uses the queues that it has initialised: the sender two of them, the receiver three.
  Their rings live in one heap and share no item; the counter of the send queue is its length
  modulo the word size.
\<close>

definition rings :: "queue set \<Rightarrow> item_heap \<Rightarrow> (queue \<Rightarrow> addr) \<Rightarrow> (queue \<Rightarrow> ptr list) \<Rightarrow> bool" where
  "rings Q h r c \<longleftrightarrow> (\<exists>as. (\<forall>q\<in>Q. ring h (r q) (as q) \<and> items h (as q) = map Some (c q)) \<and>
     (\<forall>p\<in>Q. \<forall>q\<in>Q. p \<noteq> q \<longrightarrow> set (r p # as p) \<inter> set (r q # as q) = {}))"

definition queues_rep :: "queue set \<Rightarrow> mig_queues \<Rightarrow> (queue \<Rightarrow> ptr list) \<Rightarrow> bool" where
  "queues_rep Q s c \<longleftrightarrow> rings Q (qheap s) (head_of s) c \<and> (SendQ \<in> Q \<longrightarrow> send_argu_head_cnt s = of_nat (length (c SendQ)))"

definition malloc_fresh :: "addr option \<Rightarrow> mig_queues \<Rightarrow> bool" where
  "malloc_fresh m s \<longleftrightarrow> (case m of None \<Rightarrow> False | Some a \<Rightarrow> qheap s a = None)"

lemma rings_push:
  assumes "rings Q h r c" "q \<in> Q" "h a = None"
  obtains h' where "list_push h (r q) (Some a) x = Some h'" "rings Q h' r (c(q := c q @ [x]))"
proof -
  obtain as where as: "\<And>q. q \<in> Q \<Longrightarrow> ring h (r q) (as q)" "\<And>q. q \<in> Q \<Longrightarrow> items h (as q) = map Some (c q)"
    and dis: "\<And>p q. p \<in> Q \<Longrightarrow> q \<in> Q \<Longrightarrow> p \<noteq> q \<Longrightarrow> set (r p # as p) \<inter> set (r q # as q) = {}"
    using assms(1) unfolding rings_def by blast
  obtain h' where h': "list_push h (r q) (Some a) x = Some h'" "ring h' (r q) (as q @ [a])"
    "items h' (as q @ [a]) = items h (as q) @ [Some x]" "\<forall>c. c \<notin> set (r q # a # as q) \<longrightarrow> h' c = h c"
    by (rule push_ring [OF as(1) [OF assms(2)] assms(3)])
  have an: "a \<notin> set (r p # as p)" if "p \<in> Q" for p using ring_alive [OF as(1) [OF that]] assms(3) by blast
  have other: "h' b = h b" if "b \<in> set (r p # as p)" "p \<in> Q" "p \<noteq> q" for p b
    using h'(4) [rule_format, of b] that an [of p] dis [OF that(2) assms(2) that(3)] by auto
  let ?as = "as(q := as q @ [a])"
  have "ring h' (r p) (?as p) \<and> items h' (?as p) = map Some ((c(q := c q @ [x])) p)" if "p \<in> Q" for p
    using h' as [OF that] as [OF assms(2)] ring_cong [of "r p" "as p" h' h] other [OF _ that] by (cases "p = q") auto
  moreover have "set (r p # ?as p) \<inter> set (r p' # ?as p') = {}" if "p \<in> Q" "p' \<in> Q" "p \<noteq> p'" for p p'
    using dis [OF that] an [of p] an [of p'] that by auto
  ultimately have "rings Q h' r (c(q := c q @ [x]))" unfolding rings_def by blast
  with h'(1) that show ?thesis by blast
qed

lemma rings_pop:
  assumes "rings Q h r c" "q \<in> Q" "c q = x # xs"
  obtains h' where "list_pop h (r q) = Some (Some x, h')" "rings Q h' r (c(q := xs))"
proof -
  obtain as where as: "\<And>q. q \<in> Q \<Longrightarrow> ring h (r q) (as q)" "\<And>q. q \<in> Q \<Longrightarrow> items h (as q) = map Some (c q)"
    and dis: "\<And>p q. p \<in> Q \<Longrightarrow> q \<in> Q \<Longrightarrow> p \<noteq> q \<Longrightarrow> set (r p # as p) \<inter> set (r q # as q) = {}"
    using assms(1) unfolding rings_def by blast
  obtain a bs where q: "as q = a # bs" using as(2) [OF assms(2)] assms(3) by (cases "as q") (auto simp: items_def)
  have x: "map_option li_item (h a) = Some x" "items h bs = map Some xs"
    using as(2) [OF assms(2)] assms(3) q by (auto simp: items_def)
  obtain h' where h': "list_pop h (r q) = Some (map_option li_item (h a), h')" "ring h' (r q) bs" "items h' bs = items h bs"
    "\<forall>b. b \<notin> set (r q # a # bs) \<longrightarrow> h' b = h b"
    by (rule pop_ring [OF as(1) [OF assms(2), unfolded q]])
  have other: "h' b = h b" if "b \<in> set (r p # as p)" "p \<in> Q" "p \<noteq> q" for p b
    using h'(4) [rule_format, of b] that dis [OF that(2) assms(2) that(3)] q by auto
  let ?as = "as(q := bs)"
  have "ring h' (r p) (?as p) \<and> items h' (?as p) = map Some ((c(q := xs)) p)" if "p \<in> Q" for p
    using h' as [OF that] x ring_cong [of "r p" "as p" h' h] other [OF _ that] by (cases "p = q") auto
  moreover have "set (r p # ?as p) \<inter> set (r p' # ?as p') = {}" if "p \<in> Q" "p' \<in> Q" "p \<noteq> p'" for p p'
    using dis [OF that] q that by auto
  ultimately have "rings Q h' r (c(q := xs))" unfolding rings_def by blast
  with h'(1) x(1) that show ?thesis by simp
qed

lemma rings_empty:
  assumes "rings Q h r c" "q \<in> Q" "c q = []"
  shows "list_pop h (r q) = Some (None, h)"
proof -
  obtain as where "ring h (r q) (as q)" "items h (as q) = map Some (c q)" using assms(1,2) unfolding rings_def by blast
  then show ?thesis using assms(3) pop_empty by (auto simp: items_def)
qed

lemmas queue_op_defs = send_argu_enqueue_def recv_pagebuf_enqueue_def apply_enqueue_def pagebuf_pool_enqueue_def
  send_argu_dequeue_def recv_pagebuf_dequeue_def apply_dequeue_def pagebuf_pool_dequeue_def

lemma head_of_heap [simp]: "head_of (s\<lparr>qheap := h\<rparr>) = head_of s" "head_of (s\<lparr>send_argu_head_cnt := n\<rparr>) = head_of s"
  by (rule ext, rename_tac q, case_tac q; simp)+

interpretation mq: fifo Q "queues_rep Q" enqueue_on dequeue_on malloc_fresh for Q
proof
  fix s c m q x
  assume q: "q \<in> Q" and rep: "queues_rep Q s c" and "malloc_fresh m s"
  then obtain a where a: "m = Some a" "qheap s a = None" by (auto simp: malloc_fresh_def split: option.splits)
  obtain h' where "list_push (qheap s) (head_of s q) (Some a) x = Some h'" "rings Q h' (head_of s) (c(q := c q @ [x]))"
    using rings_push [of Q "qheap s" "head_of s" c q a x] q a(2) rep unfolding queues_rep_def by blast
  with rep a show "\<exists>s'. enqueue_on q m x s = Some s' \<and> queues_rep Q s' (c(q := c q @ [x]))"
    by (cases q) (auto simp: queues_rep_def queue_op_defs)
next
  fix s c q
  assume "q \<in> Q" "queues_rep Q s c" "c q = []"
  then have "list_pop (qheap s) (head_of s q) = Some (None, qheap s)"
    using rings_empty [of Q "qheap s" "head_of s" c q] by (simp add: queues_rep_def)
  then show "dequeue_on q s = Some (None, s)" by (cases q) (auto simp: queue_op_defs)
next
  fix s c q x xs
  assume q: "q \<in> Q" and rep: "queues_rep Q s c" and c: "c q = x # xs"
  obtain h' where "list_pop (qheap s) (head_of s q) = Some (Some x, h')" "rings Q h' (head_of s) (c(q := xs))"
    using rings_pop [of Q "qheap s" "head_of s" c q x xs] q c rep unfolding queues_rep_def by blast
  with rep c show "\<exists>s'. dequeue_on q s = Some (Some x, s') \<and> queues_rep Q s' (c(q := xs))"
    by (cases q) (auto simp: queues_rep_def queue_op_defs)
qed

lemma new_head_ring:
  assumes "h a = None"
  obtains h' where "new_head junk (Some a) h = Some (a, h')" "ring h' a []" "\<forall>b. b \<noteq> a \<longrightarrow> h' b = h b"
proof (rule that)
  let ?h = "h(a \<mapsto> \<lparr>li_item = 0, li_next = a, li_prev = a\<rparr>)"
  show "new_head junk (Some a) h = Some (a, ?h)" by (simp add: new_head_def init_list_head_def)
qed (auto simp: ring_def lnk_def)

lemma sender_lists_rep:
  assumes "qheap s a = None" "qheap s b = None" "a \<noteq> b"
  shows "\<exists>s'. sender_lists junk (Some a) (Some b) s = Some s' \<and> queues_rep {SendQ, PoolQ} s' (\<lambda>_. [])"
proof -
  obtain h1 where h1: "new_head junk (Some a) (qheap s) = Some (a, h1)" "ring h1 a []" "\<forall>c. c \<noteq> a \<longrightarrow> h1 c = qheap s c"
    by (rule new_head_ring [of "qheap s" a junk]) (use assms in auto)
  obtain h2 where h2: "new_head junk (Some b) h1 = Some (b, h2)" "ring h2 b []" "\<forall>c. c \<noteq> b \<longrightarrow> h2 c = h1 c"
    by (rule new_head_ring [of h1 b junk]) (use assms h1(3) in auto)
  have "ring h2 a []" using h2(3) h1(2) assms(3) ring_cong [of a "[]" h2 h1] by simp
  then show ?thesis using h1 h2 assms(3)
    by (auto simp: sender_lists_def queues_rep_def rings_def items_def intro!: exI [of _ "\<lambda>_. []"])
qed

lemma receiver_lists_rep:
  assumes "qheap s a = None" "qheap s b = None" "qheap s c = None" "distinct [a, b, c]"
  shows "\<exists>s'. receiver_lists junk (Some a) (Some b) (Some c) s = Some s' \<and> queues_rep {RecvQ, ApplyQ, PoolQ} s' (\<lambda>_. [])"
proof -
  obtain h1 where h1: "new_head junk (Some a) (qheap s) = Some (a, h1)" "ring h1 a []" "\<forall>d. d \<noteq> a \<longrightarrow> h1 d = qheap s d"
    by (rule new_head_ring [of "qheap s" a junk]) (use assms in auto)
  obtain h2 where h2: "new_head junk (Some b) h1 = Some (b, h2)" "ring h2 b []" "\<forall>d. d \<noteq> b \<longrightarrow> h2 d = h1 d"
    by (rule new_head_ring [of h1 b junk]) (use assms h1(3) in auto)
  obtain h3 where h3: "new_head junk (Some c) h2 = Some (c, h3)" "ring h3 c []" "\<forall>d. d \<noteq> c \<longrightarrow> h3 d = h2 d"
    by (rule new_head_ring [of h2 c junk]) (use assms h1(3) h2(3) in auto)
  have "ring h3 a []" "ring h3 b []"
    using h3(3) h2(3) h1(2) h2(2) assms(4) ring_cong [of a "[]" h3 h1] ring_cong [of b "[]" h3 h2] by simp_all
  then show ?thesis using h1 h2 h3 assms(4)
    by (auto simp: receiver_lists_def queues_rep_def rings_def items_def intro!: exI [of _ "\<lambda>_. []"])
qed

text \<open>The pool of the receiver, filled: as many buffers as there were rounds, in order.\<close>

lemma pool_fill_rep:
  assumes "queues_rep Q s c" "PoolQ \<in> Q"
    and "\<And>i. i \<in> set is \<Longrightarrow> mem i = (Some (buf i), Some (blk i)) \<and> qheap s (blk i) = None"
    and "distinct (map blk is)"
  shows "\<exists>s'. pool_fill mem is s = Some s' \<and> queues_rep Q s' (c(PoolQ := c PoolQ @ map buf is))"
  using assms
proof (induction "is" arbitrary: s c)
  case Nil
  then show ?case by simp
next
  case (Cons i "is")
  have i: "mem i = (Some (buf i), Some (blk i))" "qheap s (blk i) = None" using Cons.prems(3) by auto
  let ?c = "c(PoolQ := c PoolQ @ [buf i])"
  obtain s' where s': "enqueue_on PoolQ (Some (blk i)) (buf i) s = Some s'" "queues_rep Q s' ?c"
    using mq.enq_rep [OF Cons.prems(2,1), of "Some (blk i)" "buf i"] i(2) by (auto simp: malloc_fresh_def)
  have "qheap s' (blk k) = None" if "k \<in> set is" for k
  proof -
    have "blk k \<in> blk ` set is" using that by simp
    then have "blk k \<noteq> blk i" using Cons.prems(4) by auto
    moreover have "qheap s (blk k) = None" using Cons.prems(3) [of k] that by simp
    ultimately show ?thesis using push_none s'(1) by (auto simp: pagebuf_pool_enqueue_def bind_eq_Some_conv)
  qed
  then have "\<exists>s''. pool_fill mem is s' = Some s'' \<and> queues_rep Q s'' (?c(PoolQ := ?c PoolQ @ map buf is))"
    using Cons.prems by (intro Cons.IH [OF s'(2)]) auto
  with s' i show ?case by (simp add: fun_upd_def cong: if_cong)
qed

section \<open>The work queue of the multi-core library\<close>

text \<open>
  \<^verbatim>\<open>mc_queue.c\<close> and \<^verbatim>\<open>mc_atomic.h\<close>. The counters are \<^verbatim>\<open>int\<close>s that the processor increments with
  wrap-around; a pointer to an entry is its index in \<^verbatim>\<open>sync_list\<close>.
\<close>

type_synonym atomic_t = "32 word"

definition atomic_read :: "atomic_t \<Rightarrow> int" where
  "atomic_read v = sint v"

definition atomic_set :: "int \<Rightarrow> atomic_t" where
  "atomic_set i = word_of_int i"

definition atomic_inc :: "atomic_t \<Rightarrow> atomic_t" where
  "atomic_inc v = v + 1"

text \<open>\<^verbatim>\<open>xaddl\<close> leaves the old value in the register that is returned.\<close>

definition atomic_return_and_inc :: "atomic_t \<Rightarrow> int \<times> atomic_t" where
  "atomic_return_and_inc v = (sint v, v + 1)"

record sync_entry =
  last_iter :: int
  iter :: int
  start_pfn :: int
  len :: int

record sync_queue =
  total_index :: atomic_t
  consume_index :: atomic_t
  sync_list :: "sync_entry list"

text \<open>The block is not cleared: the counters and the entries are what the memory held.\<close>

definition alloc_queue :: "(int \<Rightarrow> sync_queue option) \<Rightarrow> int \<Rightarrow> sync_queue option" where
  "alloc_queue malloc num_entries = malloc (2 * 4 + 16 * num_entries)"

definition enqueue :: "sync_queue \<Rightarrow> int \<Rightarrow> sync_queue" where
  "enqueue queue l = queue"

definition dequeue :: "sync_queue \<Rightarrow> int option \<times> sync_queue" where
  "dequeue queue =
     (let (work_index, c) = atomic_return_and_inc (consume_index queue);
          queue = queue\<lparr>consume_index := c\<rparr>;
          total = atomic_read (total_index queue)
      in (if work_index \<le> total then Some work_index else None, queue))"

definition has_obj :: "sync_queue \<Rightarrow> bool" where
  "has_obj queue \<longleftrightarrow> atomic_read (consume_index queue) < atomic_read (total_index queue)"

primrec dequeues :: "nat \<Rightarrow> sync_queue \<Rightarrow> int option list \<times> sync_queue" where
  "dequeues 0 queue = ([], queue)"
| "dequeues (Suc k) queue =
     (let (e, queue) = dequeue queue; (es, queue) = dequeues k queue in (e # es, queue))"

lemma sint_Suc:
  fixes v :: "32 word"
  assumes "sint v < 2 ^ 31 - 1"
  shows "sint (v + 1) = sint v + 1"
proof -
  have "- (2 ^ 31) \<le> sint v" using sint_ge [of v] by simp
  then show ?thesis using assms signed_take_bit_int_eq_self [of 31 "sint v + 1"] by (simp add: sint_word_ariths)
qed

text \<open>
  Consumers that run one after the other, or interleaved at their atomic increments, get the
  consecutive entries from the consumption counter up to and including the one at the total.
\<close>

lemma dequeues_entries:
  assumes "sint (consume_index queue) + int k < 2 ^ 31"
  shows "fst (dequeues k queue) = map (\<lambda>i. if i \<le> sint (total_index queue) then Some i else None)
      [sint (consume_index queue)..sint (consume_index queue) + int k - 1]"
  using assms
proof (induction k arbitrary: queue)
  case (Suc k)
  let ?q = "queue\<lparr>consume_index := consume_index queue + 1\<rparr>"
  have s: "sint (consume_index ?q) = sint (consume_index queue) + 1" using Suc.prems by (simp add: sint_Suc)
  have "fst (dequeues k ?q) = map (\<lambda>i. if i \<le> sint (total_index queue) then Some i else None)
      [sint (consume_index queue) + 1..sint (consume_index queue) + 1 + int k - 1]"
    using Suc.IH [of ?q] Suc.prems s by simp
  moreover have "[sint (consume_index queue)..sint (consume_index queue) + int (Suc k) - 1] =
      sint (consume_index queue) # [sint (consume_index queue) + 1..sint (consume_index queue) + 1 + int k - 1]"
    by (subst upto_rec1) (simp_all add: algebra_simps)
  ultimately show ?case
    by (simp add: dequeue_def atomic_return_and_inc_def atomic_read_def Let_def split: prod.split)
      (metis fst_conv)
qed simp

section \<open>Properties\<close>

text \<open>C23: The queues of a migration are first-in first-out, whatever the interleaving. Take the queues
  that a process has initialised and any sequence of enqueue and dequeue operations on them, with
  every list item allocated from free memory. The sequence runs to its end without touching freed
  or foreign memory, the rings stay disjoint and well linked with the counter of the send queue
  equal to its length, and for every queue what was taken out followed by what remains is what was
  there followed by what was put in.
\<close>

theorem queues_fifo:
  assumes "queues_rep Q s c" "op_queue ` set ops \<subseteq> Q" "allocs_ok enqueue_on dequeue_on malloc_fresh ops s"
  shows "\<exists>ys s' c'. run_ops enqueue_on dequeue_on ops s = Some (ys, s') \<and> queues_rep Q s' c' \<and>
    (\<forall>q. c q @ sent q ops = got q ys @ c' q)"
  by (rule mq.run_fifo [OF assms])

definition ex_queues :: mig_queues where
  "ex_queues = \<lparr>qheap = [0 \<mapsto> \<lparr>li_item = 0, li_next = 0, li_prev = 0\<rparr>, 1 \<mapsto> \<lparr>li_item = 0, li_next = 1, li_prev = 1\<rparr>],
     send_argu_head = 0, send_argu_head_cnt = 0, recv_pagebuf_head = 9, apply_queue_head = 9, pagebuf_pool = 1\<rparr>"

definition ex_qops :: "(queue, addr option, ptr) qop list" where
  "ex_qops = [Enq SendQ (Some 2) 100, Enq PoolQ (Some 3) 200, Enq SendQ (Some 4) 101, Deq SendQ, Deq PoolQ]"

lemma ex_queues_rep: "queues_rep {SendQ, PoolQ} ex_queues (\<lambda>_. [])"
  by (auto simp: queues_rep_def rings_def ring_def lnk_def items_def ex_queues_def intro!: exI [of _ "\<lambda>_. []"])

lemmas ex_queue_simps = ex_qops_def ex_queues_def queue_op_defs malloc_fresh_def list_push_def list_pop_def Let_def

theorem queues_fifo_witness:
  "\<exists>ys s' c'. run_ops enqueue_on dequeue_on ex_qops ex_queues = Some (ys, s') \<and> queues_rep {SendQ, PoolQ} s' c' \<and>
    (\<forall>q. sent q ex_qops = got q ys @ c' q) \<and> ys = [(SendQ, 100), (PoolQ, 200)]"
proof -
  have a: "allocs_ok enqueue_on dequeue_on malloc_fresh ex_qops ex_queues" by (simp add: ex_queue_simps)
  have r: "map_option fst (run_ops enqueue_on dequeue_on ex_qops ex_queues) = Some [(SendQ, 100), (PoolQ, 200)]"
    by (simp add: ex_queue_simps)
  have "op_queue ` set ex_qops \<subseteq> {SendQ, PoolQ}" by (simp add: ex_qops_def)
  from queues_fifo [OF ex_queues_rep this a] obtain ys s' c' where *:
    "run_ops enqueue_on dequeue_on ex_qops ex_queues = Some (ys, s')" "queues_rep {SendQ, PoolQ} s' c'"
    "\<forall>q. sent q ex_qops = got q ys @ c' q" by auto
  moreover have "ys = [(SendQ, 100), (PoolQ, 200)]" using r unfolding *(1) by simp
  ultimately show ?thesis by blast
qed

text \<open>C26: The consumers of the work queue get each entry at most once, but one entry too many: as long
  as the counter does not wrap, \<open>k\<close> dequeue operations return the consecutive indices from the
  consumption counter up to and including the total counter, and NULL afterwards. The entry at the
  total counter is handed out although \<^verbatim>\<open>has_obj\<close> says that the queue is empty.
\<close>

theorem dequeue_one_too_many:
  assumes "sint (consume_index queue) + int k < 2 ^ 31"
  shows "fst (dequeues k queue) = map (\<lambda>i. if i \<le> sint (total_index queue) then Some i else None)
      [sint (consume_index queue)..sint (consume_index queue) + int k - 1] \<and>
    (consume_index queue = total_index queue \<longrightarrow> \<not> has_obj queue \<and> fst (dequeue queue) = Some (sint (total_index queue)))"
  using dequeues_entries [OF assms] by (auto simp: has_obj_def dequeue_def atomic_return_and_inc_def atomic_read_def)

theorem dequeue_one_too_many_witness:
  "fst (dequeues 4 \<lparr>total_index = 2, consume_index = 0, sync_list = []\<rparr>) = [Some 0, Some 1, Some 2, None]"
  using dequeue_one_too_many [of "\<lparr>total_index = 2, consume_index = 0, sync_list = []\<rparr>" 4] by (simp add: upto_rec1)

end
