(* ===== verification/Mig_Stream.thy ===== *)
theory Mig_Stream
  imports Xen_Prelude "HOL-Library.Monad_Syntax"
begin

text \<open>
  The byte streams between the two ends of a migration: pipes, \<^verbatim>\<open>libxl_read_exactly\<close> and \<^verbatim>\<open>libxl_write_exactly\<close>
  of \<^verbatim>\<open>tools/libxl/libxl_utils.c\<close>, and the header with the domain's configuration that
  \<^verbatim>\<open>save_domain_core_writeconfig\<close> of \<^verbatim>\<open>tools/libxl/xl_cmdimpl.c\<close> writes and \<^verbatim>\<open>create_domain\<close> reads back.
\<close>

section \<open>Pipes\<close>

text \<open>
  A pipe between the two ends of a migration: every byte the writer has put in, how many of them the
  reader has taken, and whether the end is reached (the writer has closed its end, or the connection
  is gone).
\<close>

record pipe =
  written :: "byte list"
  pos :: nat
  eof :: bool

definition pipe0 :: pipe where
  "pipe0 = \<lparr>written = [], pos = 0, eof = False\<rparr>"

definition avail :: "pipe \<Rightarrow> byte list" where
  "avail p = drop (pos p) (written p)"

definition close_pipe :: "pipe \<Rightarrow> pipe" where
  "close_pipe p = p\<lparr>eof := True\<rparr>"

text \<open>
  One \<^verbatim>\<open>read\<close> or \<^verbatim>\<open>write\<close> system call: it moves some bytes, is interrupted, or fails with an error
  number. A call that would move no byte although there is something to move is not made; a read at
  the end of the pipe returns 0, a write after it fails.
\<close>

datatype sysres = Chunk nat | Interrupted | Failed int

definition EPROTO :: int where
  "EPROTO = 71"

definition EPIPE :: int where
  "EPIPE = 32"

text \<open>
  \<^verbatim>\<open>libxl_read_exactly\<close>: the answers of the system calls come from a list; None is a call that waits.
\<close>

fun libxl_read_exactly :: "sysres list \<Rightarrow> pipe \<Rightarrow> nat \<Rightarrow> byte list \<Rightarrow> (int \<times> byte list \<times> pipe) option" where
  "libxl_read_exactly rs p 0 data = Some (0, data, p)"
| "libxl_read_exactly [] p (Suc sz) data = None"
| "libxl_read_exactly (Interrupted # rs) p (Suc sz) data = libxl_read_exactly rs p (Suc sz) data"
| "libxl_read_exactly (Failed e # rs) p (Suc sz) data = Some (e, data, p)"
| "libxl_read_exactly (Chunk n # rs) p (Suc sz) data =
     (let got = min (max 1 n) (min (Suc sz) (length (avail p)))
      in if got = 0 then if eof p then Some (EPROTO, data, p) else None
         else libxl_read_exactly rs (p\<lparr>pos := pos p + got\<rparr>) (Suc sz - got) (data @ take got (avail p)))"

text \<open>
  \<^verbatim>\<open>libxl_write_exactly\<close>: a write to a pipe whose other end is gone fails with \<^verbatim>\<open>EPIPE\<close> (the signal is
  ignored).
\<close>

fun libxl_write_exactly :: "sysres list \<Rightarrow> pipe \<Rightarrow> byte list \<Rightarrow> (int \<times> pipe) option" where
  "libxl_write_exactly rs p [] = Some (0, p)"
| "libxl_write_exactly [] p (b # bs) = None"
| "libxl_write_exactly (Interrupted # rs) p (b # bs) = libxl_write_exactly rs p (b # bs)"
| "libxl_write_exactly (Failed e # rs) p (b # bs) = Some (e, p)"
| "libxl_write_exactly (Chunk n # rs) p (b # bs) =
     (if eof p then Some (EPIPE, p)
      else let got = min (max 1 n) (Suc (length bs))
           in libxl_write_exactly rs (p\<lparr>written := written p @ take got (b # bs)\<rparr>) (drop got (b # bs)))"

text \<open>
  The same, seen from outside: a read waits until all bytes are there or the end is reached; a write
  puts everything in unless the connection breaks in the middle of it, \<open>n\<close> bytes having passed.
\<close>

definition pipe_read :: "nat \<Rightarrow> pipe \<Rightarrow> (int \<times> byte list \<times> pipe) option" where
  "pipe_read sz p =
     (if sz \<le> length (avail p) then Some (0, take sz (avail p), p\<lparr>pos := pos p + sz\<rparr>)
      else if eof p then Some (EPROTO, avail p, p\<lparr>pos := pos p + length (avail p)\<rparr>)
      else None)"

definition pipe_write :: "nat \<Rightarrow> byte list \<Rightarrow> pipe \<Rightarrow> int \<times> pipe" where
  "pipe_write n bs p =
     (if bs = [] then (0, p)
      else if eof p then (EPIPE, p)
      else if n < length bs then (EPIPE, p\<lparr>written := written p @ take n bs, eof := True\<rparr>)
      else (0, p\<lparr>written := written p @ bs\<rparr>))"

lemma avail_pos: "n \<le> length (avail p) \<Longrightarrow> avail (p\<lparr>pos := pos p + n\<rparr>) = drop n (avail p)"
  by (simp add: avail_def add.commute)

lemma pipe_read_split:
  assumes "n \<le> sz" "n \<le> length (avail p)" "pipe_read (sz - n) (p\<lparr>pos := pos p + n\<rparr>) = Some (rc, d, p')"
  shows "pipe_read sz p = Some (rc, take n (avail p) @ d, p')"
proof -
  have a: "avail (p\<lparr>pos := pos p + n\<rparr>) = drop n (avail p)" by (rule avail_pos [OF assms(2)])
  have "take n (avail p) @ take (sz - n) (drop n (avail p)) = take sz (avail p)"
    using assms(1) by (metis le_add_diff_inverse take_add)
  then show ?thesis using assms by (auto simp: pipe_read_def a split: if_splits)
qed

lemma read_exactly_pipe:
  assumes "libxl_read_exactly rs p sz data = Some (rc, data', p')" "\<forall>e. Failed e \<notin> set rs"
  shows "\<exists>d. pipe_read sz p = Some (rc, d, p') \<and> data' = data @ d"
  using assms
proof (induction rs p sz data rule: libxl_read_exactly.induct)
  case (5 n rs p sz data)
  define got where got: "got = min (max 1 n) (min (Suc sz) (length (avail p)))"
  show ?case
  proof (cases "got = 0")
    case True
    then have "avail p = []" by (auto simp: got min_def split: if_splits)
    then show ?thesis using "5.prems" by (auto simp: pipe_read_def Let_def split: if_splits)
  next
    case False
    have g: "got \<le> length (avail p)" "got \<le> Suc sz" by (auto simp: got)
    have "libxl_read_exactly rs (p\<lparr>pos := pos p + got\<rparr>) (Suc sz - got) (data @ take got (avail p)) = Some (rc, data', p')"
      using "5.prems"(1) False unfolding libxl_read_exactly.simps libxl_write_exactly.simps Let_def got [symmetric] by simp
    then obtain d where d: "pipe_read (Suc sz - got) (p\<lparr>pos := pos p + got\<rparr>) = Some (rc, d, p')"
      "data' = data @ take got (avail p) @ d"
      using "5.IH" [OF got False] "5.prems"(2) by auto
    then show ?thesis using pipe_read_split [OF g(2,1) d(1)] by simp
  qed
qed (auto simp: pipe_read_def)

lemma write_exactly_pipe:
  assumes "libxl_write_exactly rs p bs = Some (rc, p')" "\<forall>e. Failed e \<notin> set rs"
  shows "pipe_write (length bs) bs p = (rc, p')"
  using assms
proof (induction rs p bs rule: libxl_write_exactly.induct)
  case (5 n rs p b bs)
  define got where got: "got = min (max 1 n) (Suc (length bs))"
  show ?case
  proof (cases "eof p")
    case False
    let ?p = "p\<lparr>written := written p @ take got (b # bs)\<rparr>"
    have "libxl_write_exactly rs ?p (drop got (b # bs)) = Some (rc, p')"
      using "5.prems"(1) False unfolding libxl_read_exactly.simps libxl_write_exactly.simps Let_def got [symmetric] by simp
    then have "pipe_write (length (drop got (b # bs))) (drop got (b # bs)) ?p = (rc, p')"
      using "5.IH" [OF False got] "5.prems"(2) by auto
    then show ?thesis using False by (auto simp: pipe_write_def split: if_splits)
  qed (use "5.prems" in \<open>simp add: pipe_write_def\<close>)
qed (auto simp: pipe_write_def)

section \<open>The configuration at the head of the stream\<close>

definition le32 :: "32 word \<Rightarrow> byte list" where
  "le32 w = (let n = unat w in map (\<lambda>i. word_of_nat (n div 256 ^ i)) [0, 1, 2, 3])"

definition of_le32 :: "byte list \<Rightarrow> 32 word" where
  "of_le32 bs = word_of_nat (foldr (\<lambda>b n. unat b + 256 * n) (take 4 bs) 0)"

definition chars :: "string \<Rightarrow> byte list" where
  "chars s = map of_char s"

text \<open>The bytes 10, 0 and 13 of the magic number are a line feed, the null character and a carriage return.\<close>

definition savefileheader_magic :: "byte list" where
  "savefileheader_magic = chars ''Xen saved domain, xl format'' @ [10, 32, 0, 32, 13]"

definition SAVEFILE_BYTEORDER_VALUE :: "32 word" where
  "SAVEFILE_BYTEORDER_VALUE = 0x01020304"

record save_file_header =
  magic :: "byte list"
  byteorder :: "32 word"
  mandatory_flags :: "32 word"
  optional_flags :: "32 word"
  optional_data_len :: "32 word"

definition header_bytes :: "save_file_header \<Rightarrow> byte list" where
  "header_bytes hdr = magic hdr @ le32 (byteorder hdr) @ le32 (mandatory_flags hdr) @ le32 (optional_flags hdr) @
     le32 (optional_data_len hdr)"

definition header_of :: "byte list \<Rightarrow> save_file_header" where
  "header_of bs = \<lparr>magic = take 32 bs, byteorder = of_le32 (drop 32 bs), mandatory_flags = of_le32 (drop 36 bs),
     optional_flags = of_le32 (drop 40 bs), optional_data_len = of_le32 (drop 44 bs)\<rparr>"

text \<open>The macro \<^verbatim>\<open>ADD_OPTDATA\<close>.\<close>

definition add_optdata :: "byte list \<Rightarrow> save_file_header \<times> byte list \<Rightarrow> save_file_header \<times> byte list" where
  "add_optdata d h =
     (if length d = 0 then h
      else ((fst h)\<lparr>optional_data_len := optional_data_len (fst h) + word_of_nat (length d)\<rparr>, snd h @ d))"

definition config_header :: "byte list \<Rightarrow> save_file_header \<times> byte list" where
  "config_header config =
     (let hdr = \<lparr>magic = savefileheader_magic, byteorder = SAVEFILE_BYTEORDER_VALUE, mandatory_flags = 0,
                optional_flags = 0, optional_data_len = 0\<rparr>
      in add_optdata config (add_optdata (le32 (word_of_nat (length config))) (hdr, [])))"

text \<open>
  \<^verbatim>\<open>CHK_ERRNO\<close> leaves the program when its argument is negative; \<open>n\<close> and \<open>m\<close> say where the connection
  breaks, if it does.
\<close>

definition save_domain_core_writeconfig :: "nat \<Rightarrow> nat \<Rightarrow> byte list \<Rightarrow> pipe \<Rightarrow> int option \<times> pipe" where
  "save_domain_core_writeconfig n m config p =
     (let (hdr, optdata) = config_header config;
          (r, p) = pipe_write n (header_bytes hdr) p
      in if r < 0 then (Some 3, p)
         else let (r, p) = pipe_write m optdata p
              in if r < 0 then (Some 3, p) else (None, p))"

definition config_bytes :: "byte list \<Rightarrow> byte list" where
  "config_bytes config = (let (hdr, optdata) = config_header config in header_bytes hdr @ optdata)"

text \<open>
  The first part of \<^verbatim>\<open>create_domain\<close>, which reads the configuration back. A read that fails leaves the
  rest of its buffer as it was (\<open>junk\<close>); only a negative result is noticed.
\<close>

datatype load_err = Return int | Exit int

definition ERROR_INVAL :: int where
  "ERROR_INVAL = - 6"

definition fill :: "(nat \<Rightarrow> byte) \<Rightarrow> nat \<Rightarrow> byte list \<Rightarrow> byte list" where
  "fill junk n got = got @ map junk [length got..<n]"

definition with_optdata :: "32 word \<Rightarrow> byte list \<Rightarrow> load_err + byte list" where
  "with_optdata len optdata =
     (if len = 0 then Inl (Return ERROR_INVAL)
      else if uint len < 4 then Inl (Return ERROR_INVAL)
      else let config_len = sint (of_le32 optdata)
           in if uint len - 4 < config_len then Inl (Return ERROR_INVAL)
              else if config_len < 0 then Inl (Exit 3)
              else Inr (take (nat config_len) (drop 4 optdata)))"

definition load_config :: "(nat \<Rightarrow> byte) \<Rightarrow> (nat \<Rightarrow> byte) \<Rightarrow> pipe \<Rightarrow> ((load_err + byte list) \<times> pipe) option" where
  "load_config junk junk' p = do {
     (r, got, p) \<leftarrow> pipe_read 48 p;
     if r < 0 then Some (Inl (Exit 3), p)
     else let hdr = header_of (fill junk 48 got) in
       if magic hdr \<noteq> savefileheader_magic then Some (Inl (Return ERROR_INVAL), p)
       else if byteorder hdr \<noteq> SAVEFILE_BYTEORDER_VALUE then Some (Inl (Return ERROR_INVAL), p)
       else if mandatory_flags hdr \<noteq> 0 then Some (Inl (Return ERROR_INVAL), p)
       else if optional_data_len hdr = 0 then Some (with_optdata 0 [], p)
       else do {
         (r, got, p) \<leftarrow> pipe_read (unat (optional_data_len hdr)) p;
         if r < 0 then Some (Inl (Exit 3), p)
         else Some (with_optdata (optional_data_len hdr) (fill junk' (unat (optional_data_len hdr)) got), p)
       }
   }"

lemma le32_length [simp]: "length (le32 w) = 4"
  by (simp add: le32_def Let_def)

lemma digits_256:
  fixes n :: nat
  assumes "n < 256 ^ 4"
  shows "n mod 256 + 256 * (n div 256 mod 256 + 256 * (n div 65536 mod 256 + 256 * (n div 16777216 mod 256))) = n"
proof -
  have d: "n div 65536 = n div 256 div 256" "n div 16777216 = n div 65536 div 256"
    by (simp_all add: div_mult2_eq [symmetric])
  have "n div 16777216 < 256" using assms by (simp add: less_mult_imp_div_less)
  then have "n div 16777216 mod 256 = n div 65536 div 256" by (simp add: d(2))
  moreover have "n div 65536 mod 256 + 256 * (n div 65536 div 256) = n div 65536" by simp
  moreover have "n div 256 mod 256 + 256 * (n div 65536) = n div 256" by (simp add: d(1))
  ultimately show ?thesis by simp
qed

lemma digits_word:
  "n < 256 ^ 4 \<Longrightarrow> foldr (\<lambda>b n. unat b + 256 * n) (map (\<lambda>i. word_of_nat (n div 256 ^ i) :: byte) [0, 1, 2, 3]) 0 = n"
  using digits_256 [of n] by (simp add: unat_of_nat)

lemma of_le32_le32 [simp]: "of_le32 (le32 w @ bs) = w"
proof -
  have "unat w < 256 ^ 4" by (rule order_less_le_trans [OF unsigned_less]) simp
  then have "foldr (\<lambda>b n. unat b + 256 * n) (le32 w) 0 = unat w" unfolding le32_def Let_def by (rule digits_word)
  then show ?thesis by (simp add: of_le32_def)
qed

lemma magic_length [simp]: "length savefileheader_magic = 32"
  by (simp add: savefileheader_magic_def chars_def)

lemma header_bytes_length: "length (header_bytes hdr) = length (magic hdr) + 16"
  by (simp add: header_bytes_def)

lemma header_of_bytes [simp]: "length (magic hdr) = 32 \<Longrightarrow> header_of (header_bytes hdr @ bs) = hdr"
  by (simp add: header_of_def header_bytes_def)

lemma config_header_eq:
  "config_header config = (\<lparr>magic = savefileheader_magic, byteorder = SAVEFILE_BYTEORDER_VALUE, mandatory_flags = 0,
     optional_flags = 0, optional_data_len = 4 + word_of_nat (length config)\<rparr>, le32 (word_of_nat (length config)) @ config)"
  by (auto simp: config_header_def add_optdata_def Let_def)

lemma config_bytes_eq:
  "config_bytes config = savefileheader_magic @ le32 SAVEFILE_BYTEORDER_VALUE @ le32 0 @ le32 0 @
     le32 (4 + word_of_nat (length config)) @ le32 (word_of_nat (length config)) @ config"
  by (simp add: config_bytes_def config_header_eq header_bytes_def)

lemma config_bytes_length: "length (config_bytes config) = 52 + length config"
  by (simp add: config_bytes_eq)

lemma optlen_unat:
  assumes "length config < 2 ^ 31"
  shows "unat (4 + word_of_nat (length config) :: 32 word) = 4 + length config"
    "4 + word_of_nat (length config) \<noteq> (0 :: 32 word)"
proof -
  have w: "unat (word_of_nat n :: 32 word) = n" if "n < 2 ^ 32" for n using that by (simp add: unat_of_nat)
  have "4 + length config < 2 ^ 32" using assms by simp
  then have "unat (word_of_nat (4 + length config) :: 32 word) = 4 + length config" by (rule w)
  then show u: "unat (4 + word_of_nat (length config) :: 32 word) = 4 + length config" by simp
  show "4 + word_of_nat (length config) \<noteq> (0 :: 32 word)"
  proof
    assume z: "4 + word_of_nat (length config) = (0 :: 32 word)"
    show False using u unfolding z by simp
  qed
qed

lemma with_optdata_config:
  assumes "length config < 2 ^ 31"
  shows "with_optdata (4 + word_of_nat (length config)) (le32 (word_of_nat (length config)) @ config) = Inr config"
proof -
  have "uint W = int (unat W)" for W :: "32 word" by simp
  from this [of "4 + word_of_nat (length config)"] have u: "uint (4 + word_of_nat (length config) :: 32 word) = 4 + int (length config)"
    unfolding optlen_unat(1) [OF assms] by (simp only: of_nat_add of_nat_numeral)
  have s: "sint (word_of_nat (length config) :: 32 word) = int (length config)"
    using assms by (simp add: signed_of_nat signed_take_bit_int_eq_self)
  show ?thesis using optlen_unat(2) [OF assms] by (simp add: with_optdata_def u s Let_def)
qed

text \<open>What was written is read back, and nothing more is taken from the pipe.\<close>

lemma load_config_bytes:
  assumes "length config < 2 ^ 31" "avail p = config_bytes config @ rest"
  shows "load_config junk junk' p = Some (Inr config, p\<lparr>pos := pos p + 52 + length config\<rparr>)"
proof -
  let ?len = "4 + word_of_nat (length config) :: 32 word"
  let ?opt = "le32 (word_of_nat (length config)) @ config"
  obtain hdr where hdr: "config_header config = (hdr, ?opt)" "optional_data_len hdr = ?len" "magic hdr = savefileheader_magic"
      "byteorder hdr = SAVEFILE_BYTEORDER_VALUE" "mandatory_flags hdr = 0"
    by (simp add: config_header_eq)
  let ?h = "header_bytes hdr" and ?p = "p\<lparr>pos := pos p + 48\<rparr>"
  have av: "avail p = ?h @ ?opt @ rest" using assms(2) hdr(1) by (simp add: config_bytes_def)
  have h: "length ?h = 48" using hdr(3) by (simp add: header_bytes_length)
  have r1: "pipe_read 48 p = Some (0, ?h, ?p)" using av h by (simp add: pipe_read_def)
  have av': "avail ?p = ?opt @ rest" using av h avail_pos [of 48 p] by simp
  have r2: "pipe_read (unat ?len) ?p = Some (0, ?opt, ?p\<lparr>pos := pos ?p + unat ?len\<rparr>)"
    using av' optlen_unat(1) [OF assms(1)] by (simp add: pipe_read_def)
  have f: "header_of (fill junk 48 ?h) = hdr" "fill junk' (unat ?len) ?opt = ?opt"
    using h header_of_bytes [of hdr "[]"] hdr(3) optlen_unat(1) [OF assms(1)] by (simp_all add: fill_def)
  show ?thesis unfolding load_config_def r1
    using f hdr r2 optlen_unat [OF assms(1)] with_optdata_config [OF assms(1)] by simp
qed

end
