(* ===== verification/Mig_Handshake.thy ===== *)
theory Mig_Handshake
  imports Mig_Stream
begin

text \<open>
  The handshake of a migration: \<^verbatim>\<open>migrate_domain\<close> at the sender and \<^verbatim>\<open>migrate_receive\<close> at the receiver
  (\<^verbatim>\<open>tools/libxl/xl_cmdimpl.c\<close>), as two programs that step through their program points and talk over two
  pipes. The answers of the toolstack library to a program (suspend, rename, unpause, destroy) and the places
  where the connection breaks come from outside with each step.
\<close>

section \<open>The two programs\<close>

definition migrate_receiver_banner :: "byte list" where
  "migrate_receiver_banner = chars ''xl migration receiver ready, send binary domain data.'' @ [10]"

definition migrate_receiver_ready :: "byte list" where
  "migrate_receiver_ready = chars ''domain received, ready to unpause'' @ [0]"

definition migrate_permission_to_go :: "byte list" where
  "migrate_permission_to_go = chars ''domain is yours, you are cleared to unpause'' @ [0]"

definition migrate_report :: "byte list" where
  "migrate_report = chars ''my copy unpause results are as follows'' @ [0]"

definition ERROR_FAIL :: int where
  "ERROR_FAIL = - 3"

definition ERROR_BADFAIL :: int where
  "ERROR_BADFAIL = - 7"

definition ERROR_GUEST_TIMEDOUT :: int where
  "ERROR_GUEST_TIMEDOUT = - 8"

definition ERROR_NI :: int where
  "ERROR_NI = - 4"

definition migrate_read_fixedmessage :: "byte list \<Rightarrow> pipe \<Rightarrow> (int \<times> pipe) option" where
  "migrate_read_fixedmessage msg p = do {
     (rc, buf, p) \<leftarrow> pipe_read (length msg) p;
     if rc \<noteq> 0 then Some (ERROR_FAIL, p)
     else if buf \<noteq> msg then Some (ERROR_FAIL, p)
     else Some (0, p)
   }"

datatype domstate = NoDomain | Running | Suspended | Destroyed

text \<open>
  \<^verbatim>\<open>libxl_domain_resume\<close>: the result of the two library calls inside it, and what is returned.
\<close>

definition libxl_domain_resume :: "bool \<Rightarrow> int \<Rightarrow> bool \<Rightarrow> domstate \<Rightarrow> int \<times> domstate" where
  "libxl_domain_resume hvm xc_resume xs_resume d =
     (let (rc, d) =
        (if hvm then (ERROR_NI, d)
         else if xc_resume \<noteq> 0 then (ERROR_FAIL, d)
         else (if \<not> xs_resume then ERROR_FAIL else 0, Running))
      in (0, d))"

datatype spc =
  S_Begin | S_Banner | S_Config | S_Suspend | S_Ready | S_Rename | S_Go | S_Report | S_Status | S_Perm
| S_Back | S_FailedSuspend | S_FailedResume | S_Resume | S_FailedBadly | S_Exit int

datatype rpc =
  R_None | R_Slaves | R_Banner | R_Create | R_Ready | R_Go | R_Rename | R_Unpause | R_Report int | R_Status int
| R_Destroy | R_Perm | R_Exit int

record hs =
  data :: pipe
  ack :: pipe
  spc :: spc
  sdom :: domstate
  away :: bool
  rpc :: rpc
  rdom :: domstate

text \<open>
  What the rest of the system answers at a step: the result of a library call, a second one, where
  the connection breaks during a write, and the state in which a failed call leaves the domain.
\<close>

record answer =
  result :: int
  result2 :: int
  brk :: nat
  brk2 :: nat
  left_dom :: domstate
  hvm :: bool
  named :: bool
  junk :: "nat \<Rightarrow> byte"
  junk2 :: "nat \<Rightarrow> byte"

text \<open>Leaving the program closes its ends of the two pipes.\<close>

definition s_exit :: "int \<Rightarrow> hs \<Rightarrow> hs" where
  "s_exit code s = s\<lparr>spc := S_Exit code, data := close_pipe (data s), ack := close_pipe (ack s)\<rparr>"

definition r_exit :: "int \<Rightarrow> hs \<Rightarrow> hs" where
  "r_exit code s = s\<lparr>rpc := R_Exit code, data := close_pipe (data s), ack := close_pipe (ack s)\<rparr>"

text \<open>
  \<^verbatim>\<open>migrate_domain\<close>, one step for every call that the other end or the rest of the system can see. The
  stream that \<^verbatim>\<open>libxl_domain_suspend\<close> writes is \<open>img\<close>; it returns 0 only after having written all of it and
  with the domain suspended, and \<^verbatim>\<open>ERROR_GUEST_TIMEDOUT\<close> only when the guest did not suspend.
\<close>

fun migrate_domain :: "byte list \<Rightarrow> byte list \<Rightarrow> answer \<Rightarrow> hs \<Rightarrow> spc \<Rightarrow> hs option" where
  "migrate_domain config img a s S_Begin =
     (if result a \<noteq> 0 then Some (s_exit 2 s)
      else if length config = 0 then Some (s_exit 1 s)
      else if result2 a < 0 then Some (s_exit (- result2 a) s)
      else if result2 a = 1 then Some (s_exit 1 s)
      else Some (s\<lparr>spc := S_Banner, rpc := R_Slaves\<rparr>))"
| "migrate_domain config img a s S_Banner = do {
     (rc, p) \<leftarrow> migrate_read_fixedmessage migrate_receiver_banner (ack s);
     let s = s\<lparr>ack := p\<rparr>;
     if rc \<noteq> 0 then Some (s_exit (- rc) s) else Some (s\<lparr>spc := S_Config\<rparr>)
   }"
| "migrate_domain config img a s S_Config =
     (let (x, p) = save_domain_core_writeconfig (brk a) (brk2 a) config (data s); s = s\<lparr>data := p\<rparr>
      in case x of Some code \<Rightarrow> Some (s_exit code s) | None \<Rightarrow> Some (s\<lparr>spc := S_Suspend\<rparr>))"
| "migrate_domain config img a s S_Suspend =
     (let (w, p) = pipe_write (brk a) img (data s); s = s\<lparr>data := p\<rparr>
      in if result a = 0 \<and> w = 0 then Some (s\<lparr>sdom := Suspended, spc := S_Ready\<rparr>)
         else if result a = ERROR_GUEST_TIMEDOUT then Some (s\<lparr>spc := S_FailedSuspend\<rparr>)
         else Some (s\<lparr>sdom := left_dom a, spc := S_FailedResume\<rparr>))"
| "migrate_domain config img a s S_Ready = do {
     (rc, p) \<leftarrow> migrate_read_fixedmessage migrate_receiver_ready (ack s);
     let s = s\<lparr>ack := p\<rparr>;
     Some (s\<lparr>spc := if rc \<noteq> 0 then S_FailedResume else S_Rename\<rparr>)
   }"
| "migrate_domain config img a s S_Rename =
     (if named a
      then if result2 a < 0 then Some (s\<lparr>spc := S_FailedResume\<rparr>)
           else if result a \<noteq> 0 then Some (s\<lparr>spc := S_FailedResume\<rparr>)
           else Some (s\<lparr>away := True, spc := S_Go\<rparr>)
      else Some (s\<lparr>spc := S_Go\<rparr>))"
| "migrate_domain config img a s S_Go =
     (let (rc, p) = pipe_write (brk a) migrate_permission_to_go (data s); s = s\<lparr>data := p\<rparr>
      in Some (s\<lparr>spc := if rc \<noteq> 0 then S_FailedBadly else S_Report\<rparr>))"
| "migrate_domain config img a s S_Report = do {
     (rc, p) \<leftarrow> migrate_read_fixedmessage migrate_report (ack s);
     let s = s\<lparr>ack := p\<rparr>;
     Some (s\<lparr>spc := if rc \<noteq> 0 then S_FailedBadly else S_Status\<rparr>)
   }"
| "migrate_domain config img a s S_Status = do {
     (rc, rc_buf, p) \<leftarrow> pipe_read 1 (ack s);
     let s = s\<lparr>ack := p\<rparr>;
     if rc \<noteq> 0 then Some (s\<lparr>spc := S_FailedBadly\<rparr>)
     else if rc_buf \<noteq> [0] then Some (s\<lparr>spc := S_Perm\<rparr>)
     else Some (s_exit 0 (if result a = 0 then s\<lparr>sdom := Destroyed\<rparr> else s))
   }"
| "migrate_domain config img a s S_Perm = do {
     (rc, p) \<leftarrow> migrate_read_fixedmessage migrate_permission_to_go (ack s);
     let s = s\<lparr>ack := p\<rparr>;
     Some (s\<lparr>spc := if rc \<noteq> 0 then S_FailedBadly else S_Back\<rparr>)
   }"
| "migrate_domain config img a s S_Back =
     (let s = (if named a \<and> result a = 0 then s\<lparr>away := False\<rparr> else s);
          (rc, d) = libxl_domain_resume (hvm a) (result2 a) (named a) (sdom s)
      in Some (s_exit (- ERROR_FAIL) (s\<lparr>sdom := d\<rparr>)))"
| "migrate_domain config img a s S_FailedSuspend = Some (s_exit (- ERROR_FAIL) s)"
| "migrate_domain config img a s S_FailedResume = Some (s\<lparr>data := close_pipe (data s), spc := S_Resume\<rparr>)"
| "migrate_domain config img a s S_Resume =
     (let (rc, d) = libxl_domain_resume (hvm a) (result2 a) (named a) (sdom s)
      in Some (s_exit (- ERROR_FAIL) (s\<lparr>sdom := d\<rparr>)))"
| "migrate_domain config img a s S_FailedBadly = Some (s_exit (- ERROR_BADFAIL) s)"
| "migrate_domain config img a s (S_Exit code) = None"

text \<open>
  \<^verbatim>\<open>migrate_receive\<close>. The rest of \<^verbatim>\<open>create_domain\<close>, after the configuration, succeeds only when it has taken
  from the pipe the stream that the other end's suspend wrote; the domain is created paused.
\<close>

definition create_domain :: "byte list \<Rightarrow> answer \<Rightarrow> hs \<Rightarrow> hs option" where
  "create_domain img a s = do {
     (r, p) \<leftarrow> load_config (junk a) (junk2 a) (data s);
     let s = s\<lparr>data := p\<rparr>;
     case r of
       Inl (Exit code) \<Rightarrow> Some (r_exit code s)
     | Inl (Return rc) \<Rightarrow> Some (r_exit (- rc) s)
     | Inr config \<Rightarrow>
         if result a < 0 then Some (r_exit (- result a) s)
         else if take (length img) (avail p) = img
         then Some (s\<lparr>data := p\<lparr>pos := pos p + length img\<rparr>, rdom := Suspended, rpc := R_Ready\<rparr>)
         else None
   }"

fun migrate_receive :: "byte list \<Rightarrow> int \<Rightarrow> answer \<Rightarrow> hs \<Rightarrow> rpc \<Rightarrow> hs option" where
  "migrate_receive img recv_slave_cnt a s R_None = None"
| "migrate_receive img recv_slave_cnt a s R_Slaves =
     (if result a = recv_slave_cnt then Some (s\<lparr>rpc := R_Banner\<rparr>) else Some s)"
| "migrate_receive img recv_slave_cnt a s R_Banner =
     (let (r, p) = pipe_write (brk a) migrate_receiver_banner (ack s); s = s\<lparr>ack := p\<rparr>
      in if r < 0 then Some (r_exit (- ERROR_FAIL) s) else Some (s\<lparr>rpc := R_Create\<rparr>))"
| "migrate_receive img recv_slave_cnt a s R_Create = create_domain img a s"
| "migrate_receive img recv_slave_cnt a s R_Ready =
     (let (rc, p) = pipe_write (brk a) migrate_receiver_ready (ack s); s = s\<lparr>ack := p\<rparr>
      in if rc \<noteq> 0 then Some (r_exit (- rc) s) else Some (s\<lparr>rpc := R_Go\<rparr>))"
| "migrate_receive img recv_slave_cnt a s R_Go = do {
     (rc, p) \<leftarrow> migrate_read_fixedmessage migrate_permission_to_go (data s);
     let s = s\<lparr>data := p\<rparr>;
     Some (s\<lparr>rpc := if rc \<noteq> 0 then R_Report rc else R_Rename\<rparr>)
   }"
| "migrate_receive img recv_slave_cnt a s R_Rename =
     (if named a \<and> result a \<noteq> 0 then Some (s\<lparr>rpc := R_Report (result a)\<rparr>) else Some (s\<lparr>rpc := R_Unpause\<rparr>))"
| "migrate_receive img recv_slave_cnt a s R_Unpause =
     (if result a \<noteq> 0 then Some (s\<lparr>rdom := left_dom a, rpc := R_Report (result a)\<rparr>)
      else Some (s\<lparr>rdom := Running, rpc := R_Report 0\<rparr>))"
| "migrate_receive img recv_slave_cnt a s (R_Report rc) =
     (let (rc2, p) = pipe_write (brk a) migrate_report (ack s); s = s\<lparr>ack := p\<rparr>
      in if rc2 \<noteq> 0 then Some (r_exit (- ERROR_BADFAIL) s) else Some (s\<lparr>rpc := R_Status rc\<rparr>))"
| "migrate_receive img recv_slave_cnt a s (R_Status rc) =
     (let rc_buf = word_of_int (- rc)
      in if (rc_buf = 0) \<noteq> (rc = 0) then Some (r_exit 134 s)
         else let (rc2, p) = pipe_write (brk a) [rc_buf] (ack s); s = s\<lparr>ack := p\<rparr>
              in if rc2 \<noteq> 0 then Some (r_exit (- ERROR_BADFAIL) s)
                 else if rc \<noteq> 0 then Some (s\<lparr>rpc := R_Destroy\<rparr>)
                 else Some (r_exit 0 s))"
| "migrate_receive img recv_slave_cnt a s R_Destroy =
     (if result a \<noteq> 0
      then Some (r_exit (- ERROR_BADFAIL) (if left_dom a = Destroyed then s\<lparr>rdom := Destroyed\<rparr> else s))
      else Some (s\<lparr>rdom := Destroyed, rpc := R_Perm\<rparr>))"
| "migrate_receive img recv_slave_cnt a s R_Perm =
     (let (rc2, p) = pipe_write (brk a) migrate_permission_to_go (ack s); s = s\<lparr>ack := p\<rparr>
      in if rc2 \<noteq> 0 then Some (r_exit (- ERROR_BADFAIL) s) else Some (r_exit 0 s))"
| "migrate_receive img recv_slave_cnt a s (R_Exit code) = None"

text \<open>
  The system: either program makes a step, the connection breaks and loses some of what is in
  transit, or a running program is killed.
\<close>

definition cut_pipe :: "nat \<Rightarrow> pipe \<Rightarrow> pipe" where
  "cut_pipe n p = p\<lparr>written := take (pos p + n) (written p), eof := True\<rparr>"

definition s_alive :: "hs \<Rightarrow> bool" where
  "s_alive s \<longleftrightarrow> (case spc s of S_Exit _ \<Rightarrow> False | _ \<Rightarrow> True)"

definition r_alive :: "hs \<Rightarrow> bool" where
  "r_alive s \<longleftrightarrow> (case rpc s of R_Exit _ \<Rightarrow> False | R_None \<Rightarrow> False | _ \<Rightarrow> True)"

inductive hs_step :: "byte list \<Rightarrow> byte list \<Rightarrow> int \<Rightarrow> hs \<Rightarrow> hs \<Rightarrow> bool" for config img n where
  sender: "migrate_domain config img a s (spc s) = Some s' \<Longrightarrow> hs_step config img n s s'"
| receiver: "migrate_receive img n a s (rpc s) = Some s' \<Longrightarrow> hs_step config img n s s'"
| cut_data: "hs_step config img n s (s\<lparr>data := cut_pipe k (data s)\<rparr>)"
| cut_ack: "hs_step config img n s (s\<lparr>ack := cut_pipe k (ack s)\<rparr>)"
| sender_killed: "s_alive s \<Longrightarrow> code \<noteq> 0 \<Longrightarrow> hs_step config img n s (s_exit code s)"
| receiver_killed: "r_alive s \<Longrightarrow> code \<noteq> 0 \<Longrightarrow> hs_step config img n s (r_exit code s)"

definition hs_init :: hs where
  "hs_init = \<lparr>data = pipe0, ack = pipe0, spc = S_Begin, sdom = Running, away = False, rpc = R_None, rdom = NoDomain\<rparr>"

definition hs_reach :: "byte list \<Rightarrow> byte list \<Rightarrow> int \<Rightarrow> hs \<Rightarrow> bool" where
  "hs_reach config img n s \<longleftrightarrow> (hs_step config img n)\<^sup>*\<^sup>* hs_init s"

end
