(* ===== verification/Mig_Handshake_Inv.thy ===== *)
theory Mig_Handshake_Inv
  imports Mig_Handshake "HOL-Library.Sublist"
begin

text \<open>
  The invariant of the handshake: how much each program has written and read at each of its points, and
  what that says about the two copies of the domain. Every step of either program, every break of the
  connection and the death of either program keep it.
\<close>

section \<open>Pipes under the operations\<close>

lemma pipe_write_cases:
  assumes "pipe_write n bs p = (rc, p')" "bs \<noteq> []"
  shows "pos p' = pos p" "0 \<le> rc"
    "rc \<noteq> 0 \<and> eof p' \<and> (\<exists>k. k < length bs \<and> written p' = written p @ take k bs) \<or>
     rc = 0 \<and> \<not> eof p \<and> \<not> eof p' \<and> written p' = written p @ bs"
    "eof p \<Longrightarrow> written p' = written p \<and> eof p' \<and> rc \<noteq> 0"
  using assms by (auto simp: pipe_write_def EPIPE_def intro: exI [of _ 0] exI [of _ n] split: if_splits)

lemma pipe_read_cases:
  assumes "pipe_read sz p = Some (rc, d, p')"
  shows "written p' = written p" "eof p' = eof p" "0 \<le> rc" "pos p \<le> pos p'" "rc = 0 \<Longrightarrow> pos p' = pos p + sz"
    "rc = 0 \<Longrightarrow> d = take sz (drop (pos p) (written p))"
    "rc = 0 \<Longrightarrow> sz \<le> length (written p) - pos p"
    "pos p \<le> length (written p) \<Longrightarrow> pos p' \<le> length (written p)"
    "rc \<noteq> 0 \<Longrightarrow> avail p' = []"
proof -
  consider "rc = 0" "d = take sz (avail p)" "p' = p\<lparr>pos := pos p + sz\<rparr>" "sz \<le> length (avail p)"
    | "rc = EPROTO" "p' = p\<lparr>pos := pos p + length (avail p)\<rparr>"
    using assms unfolding pipe_read_def by (auto split: if_splits)
  then have *: "written p' = written p \<and> eof p' = eof p \<and> 0 \<le> rc \<and> pos p \<le> pos p' \<and> (rc = 0 \<longrightarrow> pos p' = pos p + sz) \<and>
    (rc = 0 \<longrightarrow> d = take sz (avail p)) \<and> (rc = 0 \<longrightarrow> sz \<le> length (avail p)) \<and>
    (pos p \<le> length (written p) \<longrightarrow> pos p' \<le> length (written p)) \<and> (rc \<noteq> 0 \<longrightarrow> avail p' = [])"
    by cases (simp_all add: EPROTO_def avail_def, arith)
  show "written p' = written p" "eof p' = eof p" "0 \<le> rc" "pos p \<le> pos p'" "rc = 0 \<Longrightarrow> pos p' = pos p + sz"
    "rc = 0 \<Longrightarrow> d = take sz (drop (pos p) (written p))"
    "rc = 0 \<Longrightarrow> sz \<le> length (written p) - pos p"
    "pos p \<le> length (written p) \<Longrightarrow> pos p' \<le> length (written p)"
    using * by (simp_all only: avail_def length_drop simp_thms)
  show "rc \<noteq> 0 \<Longrightarrow> avail p' = []" using * by (simp only: simp_thms)
qed

lemma fixedmessage_cases:
  assumes "migrate_read_fixedmessage msg p = Some (rc, p')" "pos p \<le> length (written p)"
  shows "written p' = written p" "eof p' = eof p" "pos p' \<le> length (written p)" "rc \<le> 0"
    "rc = 0 \<Longrightarrow> pos p' = pos p + length msg" "rc = 0 \<Longrightarrow> pos p + length msg \<le> length (written p)"
proof -
  obtain r d where r: "pipe_read (length msg) p = Some (r, d, p')" and rc: "rc = 0 \<or> rc = ERROR_FAIL" "rc = 0 \<Longrightarrow> r = 0"
    using assms(1) by (auto simp: migrate_read_fixedmessage_def ERROR_FAIL_def bind_eq_Some_conv split: if_splits)
  note c = pipe_read_cases [OF r]
  show "written p' = written p" "eof p' = eof p" "pos p' \<le> length (written p)" using c(1,2) c(8) [OF assms(2)] by simp_all
  show "rc \<le> 0" using rc(1) by (auto simp: ERROR_FAIL_def)
  show "rc = 0 \<Longrightarrow> pos p' = pos p + length msg" using rc(2) c(5) by simp
  show "rc = 0 \<Longrightarrow> pos p + length msg \<le> length (written p)" using rc(2) c(7) assms(2) by fastforce
qed

lemma messages_nonempty [simp]:
  "migrate_receiver_banner \<noteq> []" "migrate_receiver_ready \<noteq> []" "migrate_permission_to_go \<noteq> []" "migrate_report \<noteq> []"
  by (simp_all add: migrate_receiver_banner_def migrate_receiver_ready_def migrate_permission_to_go_def migrate_report_def)

text \<open>The configuration is written in two parts; the second one is lost if the first one is cut.\<close>

lemma writeconfig_cases:
  assumes "save_domain_core_writeconfig n m config p = (x, p')"
  shows "x = None" "pos p' = pos p"
    "eof p' \<and> (\<exists>k. written p' = written p @ take k (config_bytes config)) \<or>
     \<not> eof p' \<and> \<not> eof p \<and> written p' = written p @ config_bytes config"
proof -
  obtain hdr opt where h: "config_header config = (hdr, opt)" by (cases "config_header config")
  have ne: "header_bytes hdr \<noteq> []" "opt \<noteq> []"
    using h by (auto simp: config_header_eq header_bytes_def dest: arg_cong [of _ "[]" length])
  obtain r q where q: "pipe_write n (header_bytes hdr) p = (r, q)" by fastforce
  obtain r2 q2 where q2: "pipe_write m opt q = (r2, q2)" by fastforce
  note w1 = pipe_write_cases [OF q ne(1)] and w2 = pipe_write_cases [OF q2 ne(2)]
  have x: "x = None" "p' = q2" using assms q q2 h w1(2) w2(2) by (auto simp: save_domain_core_writeconfig_def)
  then show "x = None" "pos p' = pos p" using w1(1) w2(1) by auto
  have cb: "config_bytes config = header_bytes hdr @ opt" using h by (simp add: config_bytes_def)
  show "eof p' \<and> (\<exists>k. written p' = written p @ take k (config_bytes config)) \<or>
     \<not> eof p' \<and> \<not> eof p \<and> written p' = written p @ config_bytes config"
  proof (cases "r = 0")
    case True
    then have "written q = written p @ header_bytes hdr" "\<not> eof p" using w1(3) by auto
    then have wq: "written q @ take k opt = written p @ take (length (header_bytes hdr) + k) (config_bytes config)" for k
      by (simp add: cb)
    from w2(3) show ?thesis
    proof (elim disjE conjE exE)
      fix k assume "eof q2" "written q2 = written q @ take k opt"
      then show ?thesis unfolding x(2) wq by blast
    next
      assume "\<not> eof q2" "written q2 = written q @ opt"
      then show ?thesis using True w1(3) x(2) cb by simp
    qed
  next
    case False
    then obtain k where k: "eof q" "k < length (header_bytes hdr)" "written q = written p @ take k (header_bytes hdr)"
      using w1(3) by auto
    then have "take k (header_bytes hdr) = take k (config_bytes config)" by (simp add: cb)
    then show ?thesis using w2(4) [OF k(1)] k x(2) by auto
  qed
qed

text \<open>A configuration that did not arrive completely leaves nothing in the pipe.\<close>

lemma load_config_reads:
  assumes "load_config j j' p = Some (r, p')"
  obtains rc d q where "pipe_read 48 p = Some (rc, d, q)" "p' = q"
  | rc d q rc2 d2 where "pipe_read 48 p = Some (rc, d, q)"
      "pipe_read (unat (optional_data_len (header_of (fill j 48 d)))) q = Some (rc2, d2, p')"
  using assms unfolding load_config_def by (auto simp: bind_eq_Some_conv Let_def split: if_splits)

lemma load_config_pipe:
  assumes "load_config j j' p = Some (r, p')" "pos p \<le> length (written p)"
  shows "written p' = written p" "eof p' = eof p" "pos p' \<le> length (written p)"
proof -
  have "written p' = written p \<and> eof p' = eof p \<and> pos p' \<le> length (written p)"
    using assms(1)
  proof (cases rule: load_config_reads)
    case (1 rc d q)
    then show ?thesis using pipe_read_cases(1,2) [OF 1(1)] pipe_read_cases(8) [OF 1(1) assms(2)] by simp
  next
    case (2 rc d q rc2 d2)
    note c = pipe_read_cases [OF 2(1)] and c2 = pipe_read_cases [OF 2(2)]
    show ?thesis using c(1,2) c(8) [OF assms(2)] c2(1,2) c2(8) by simp
  qed
  then show "written p' = written p" "eof p' = eof p" "pos p' \<le> length (written p)" by blast+
qed

lemma load_config_short:
  assumes "load_config j j' p = Some (Inr c, p')" "length config < 2 ^ 31"
    and "avail p = take n (config_bytes config)" "n < length (config_bytes config)"
  shows "avail p' = []"
proof -
  have empty: "avail q' = []" if "pipe_read sz q = Some (r, e, q')" "length (avail q) < sz" for sz q r e q'
    using that by (auto simp: pipe_read_def avail_def split: if_splits)
  have empty2: "avail q' = []" if "pipe_read sz q = Some (r, e, q')" "avail q = []" for sz q r e q'
    using that by (auto simp: pipe_read_def avail_def split: if_splits)
  obtain hdr opt where h: "config_header config = (hdr, opt)" by (cases "config_header config")
  have cb: "config_bytes config = header_bytes hdr @ opt" using h by (simp add: config_bytes_def)
  have hl: "length (header_bytes hdr) = 48" "length opt = 4 + length config"
    "optional_data_len hdr = 4 + word_of_nat (length config)" "magic hdr = savefileheader_magic"
    using h by (auto simp: config_header_eq header_bytes_length)
  have hdr: "header_of (fill j 48 d) = hdr \<and> length (avail q) < unat (optional_data_len hdr)"
    if q: "pipe_read 48 p = Some (0, d, q)" for d q
  proof -
    have n: "48 \<le> n" "d = take 48 (avail p)" "avail q = drop 48 (avail p)"
      using q assms(3,4) avail_pos [of 48 p] by (auto simp: pipe_read_def EPROTO_def split: if_splits)
    then have "d = header_bytes hdr" using assms(3) hl(1) by (simp add: cb min_def)
    moreover have "length (avail q) < unat (optional_data_len hdr)"
      using n assms(3,4) hl optlen_unat(1) [OF assms(2)] by (simp add: cb)
    ultimately show ?thesis using header_of_bytes [of hdr "[]"] hl by (simp add: fill_def)
  qed
  from assms(1) show ?thesis
  proof (cases rule: load_config_reads)
    case (1 rc d q)
    show ?thesis
    proof (cases "rc = 0")
      case True
      then have "header_of (fill j 48 d) = hdr" using hdr 1(1) by blast
      then show ?thesis using assms(1) 1 True hl(3) optlen_unat(2) [OF assms(2)] hdr [of d q]
        by (auto simp: load_config_def bind_eq_Some_conv Let_def split: if_splits dest: empty)
    qed (use 1 pipe_read_cases(9) [OF 1(1)] in simp)
  next
    case (2 rc d q rc2 d2)
    show ?thesis
    proof (cases "rc = 0")
      case True
      with 2(1) hdr have "header_of (fill j 48 d) = hdr" "length (avail q) < unat (optional_data_len hdr)" by blast+
      then show ?thesis using empty 2(2) by simp
    qed (use 2 pipe_read_cases(9) [OF 2(1)] empty2 in blast)
  qed
qed

section \<open>The invariant of the handshake\<close>

text \<open>Positions in the two streams: after the banner, the ready message, the report, the status byte.\<close>

definition a1 :: nat where "a1 = length migrate_receiver_banner"
definition a2 :: nat where "a2 = a1 + length migrate_receiver_ready"
definition a3 :: nat where "a3 = a2 + length migrate_report"
definition a4 :: nat where "a4 = a3 + 1"
definition a5 :: nat where "a5 = a4 + length migrate_permission_to_go"

lemma positions: "a1 < a2" "a2 < a3" "a3 < a4" "a4 < a5" "0 < a1"
  by (simp_all add: a1_def a2_def a3_def a4_def a5_def)

text \<open>What the sender has written at most when it is at a program point.\<close>

fun dmax :: "byte list \<Rightarrow> byte list \<Rightarrow> spc \<Rightarrow> byte list" where
  "dmax config img S_Begin = []"
| "dmax config img S_Banner = []"
| "dmax config img S_Config = []"
| "dmax config img S_Suspend = config_bytes config"
| "dmax config img S_Ready = config_bytes config @ img"
| "dmax config img S_Rename = config_bytes config @ img"
| "dmax config img S_Go = config_bytes config @ img"
| "dmax config img S_FailedSuspend = config_bytes config @ img"
| "dmax config img S_FailedResume = config_bytes config @ img"
| "dmax config img S_Resume = config_bytes config @ img"
| "dmax config img _ = config_bytes config @ img @ migrate_permission_to_go"

fun amax :: "rpc \<Rightarrow> nat" where
  "amax R_None = 0"
| "amax R_Slaves = 0"
| "amax R_Banner = 0"
| "amax R_Create = a1"
| "amax R_Ready = a1"
| "amax R_Go = a2"
| "amax R_Rename = a2"
| "amax R_Unpause = a2"
| "amax (R_Report rc) = a2"
| "amax (R_Status rc) = a3"
| "amax R_Destroy = a4"
| "amax R_Perm = a4"
| "amax (R_Exit code) = a5"

text \<open>How far a program has read.\<close>

fun apos :: "spc \<Rightarrow> nat option" where
  "apos S_Begin = Some 0"
| "apos S_Banner = Some 0"
| "apos S_Config = Some a1"
| "apos S_Suspend = Some a1"
| "apos S_Ready = Some a1"
| "apos S_Rename = Some a2"
| "apos S_Go = Some a2"
| "apos S_Report = Some a2"
| "apos S_Status = Some a3"
| "apos S_Perm = Some a4"
| "apos _ = None"

fun dpos :: "nat \<Rightarrow> rpc \<Rightarrow> nat option" where
  "dpos d R_None = Some 0"
| "dpos d R_Slaves = Some 0"
| "dpos d R_Banner = Some 0"
| "dpos d R_Create = Some 0"
| "dpos d R_Ready = Some d"
| "dpos d R_Go = Some d"
| "dpos d R_Rename = Some (d + length migrate_permission_to_go)"
| "dpos d R_Unpause = Some (d + length migrate_permission_to_go)"
| "dpos d _ = None"

fun s_done :: "spc \<Rightarrow> bool" where
  "s_done (S_Exit code) = True"
| "s_done _ = False"

fun r_done :: "rpc \<Rightarrow> bool" where
  "r_done (R_Exit code) = True"
| "r_done _ = False"

text \<open>The program points at which the domain may still, or again, run at the sender.\<close>

fun at_source :: "spc \<Rightarrow> bool" where
  "at_source S_Ready = False"
| "at_source S_Rename = False"
| "at_source S_Go = False"
| "at_source S_Report = False"
| "at_source S_Status = False"
| "at_source S_Perm = False"
| "at_source S_Back = False"
| "at_source S_FailedBadly = False"
| "at_source _ = True"

definition data_inv :: "byte list \<Rightarrow> byte list \<Rightarrow> spc \<Rightarrow> pipe \<Rightarrow> bool" where
  "data_inv config img pc p \<longleftrightarrow> prefix (written p) (dmax config img pc) \<and> pos p \<le> length (written p) \<and>
     (eof p \<or> written p = dmax config img pc \<and> \<not> s_done pc)"

definition ack_inv :: "rpc \<Rightarrow> domstate \<Rightarrow> pipe \<Rightarrow> bool" where
  "ack_inv pc d p \<longleftrightarrow> length (written p) \<le> amax pc \<and> pos p \<le> length (written p) \<and>
     (eof p \<or> length (written p) = amax pc \<and> \<not> r_done pc) \<and>
     (a4 < length (written p) \<longrightarrow> d = Destroyed \<and> r_done pc) \<and>
     (a3 < length (written p) \<longrightarrow> written p ! a3 = 0 \<longrightarrow> d = Running \<and> r_done pc)"

definition recv_inv :: "nat \<Rightarrow> rpc \<Rightarrow> domstate \<Rightarrow> pipe \<Rightarrow> bool" where
  "recv_inv n pc d p \<longleftrightarrow> (\<forall>k. dpos n pc = Some k \<longrightarrow> pos p = k) \<and>
     (d = Running \<longrightarrow> n < pos p) \<and> (pc = R_Perm \<longrightarrow> d = Destroyed) \<and>
     (pc = R_Report 0 \<longrightarrow> d = Running) \<and> (pc = R_Status 0 \<longrightarrow> d = Running)"

definition send_inv :: "nat \<Rightarrow> spc \<Rightarrow> domstate \<Rightarrow> rpc \<Rightarrow> domstate \<Rightarrow> pipe \<Rightarrow> pipe \<Rightarrow> bool" where
  "send_inv n pc sd r rd dp ap \<longleftrightarrow> (\<forall>k. apos pc = Some k \<longrightarrow> pos ap = k) \<and>
     (sd = Running \<longrightarrow> at_source pc) \<and> (pc = S_Back \<longrightarrow> rd = Destroyed \<and> r_done r) \<and>
     (s_done pc \<longrightarrow> sd = Running \<longrightarrow> length (written dp) \<le> n \<or> rd = Destroyed \<and> r_done r) \<and>
     (pc = S_Exit 0 \<longrightarrow> sd \<noteq> Running \<and> rd = Running \<and> r_done r)"

definition hs_inv :: "byte list \<Rightarrow> byte list \<Rightarrow> hs \<Rightarrow> bool" where
  "hs_inv config img s \<longleftrightarrow> (let n = length (config_bytes config @ img) in
     data_inv config img (spc s) (data s) \<and> ack_inv (rpc s) (rdom s) (ack s) \<and>
     recv_inv n (rpc s) (rdom s) (data s) \<and> send_inv n (spc s) (sdom s) (rpc s) (rdom s) (data s) (ack s) \<and> 
     (rpc s = R_None \<longrightarrow> spc s = S_Begin \<or> s_done (spc s)) \<and> (spc s = S_Begin \<longrightarrow> rpc s = R_None))"

lemma hs_inv_init: "hs_inv config img hs_init"
  by (simp add: hs_inv_def hs_init_def data_inv_def ack_inv_def recv_inv_def send_inv_def pipe0_def Let_def)

text \<open>Both domains never run.\<close>

lemma dmax_at_source:
  assumes "at_source pc" "\<not> s_done pc" "prefix w (dmax config img pc)"
  shows "length w \<le> length (config_bytes config @ img)"
  using prefix_length_le [OF assms(3)] assms(1,2) by (cases pc) auto

lemma hs_inv_one:
  assumes "hs_inv config img s"
  shows "\<not> (sdom s = Running \<and> rdom s = Running)"
proof
  assume r: "sdom s = Running \<and> rdom s = Running"
  let ?n = "length (config_bytes config @ img)"
  have "?n < length (written (data s))"
    using assms r by (auto simp: hs_inv_def data_inv_def recv_inv_def Let_def)
  moreover have "length (written (data s)) \<le> ?n"
  proof (cases "s_done (spc s)")
    case True
    then show ?thesis using assms r by (auto simp: hs_inv_def send_inv_def Let_def)
  next
    case False
    then show ?thesis using assms r dmax_at_source [of "spc s"] by (auto simp: hs_inv_def send_inv_def data_inv_def Let_def)
  qed
  ultimately show False by simp
qed

section \<open>Every step keeps it\<close>

text \<open>The connection breaks.\<close>

lemma data_inv_cut: "data_inv config img pc p \<Longrightarrow> data_inv config img pc (cut_pipe k p)"
  using prefix_order.trans [OF take_is_prefix, of "written p" "dmax config img pc" "pos p + k"]
  by (simp add: data_inv_def cut_pipe_def)

lemma ack_inv_cut: "ack_inv pc d p \<Longrightarrow> ack_inv pc d (cut_pipe k p)"
  by (simp add: ack_inv_def cut_pipe_def min.coboundedI1)

lemma cut_fields [simp]: "pos (cut_pipe k p) = pos p" "length (written (cut_pipe k p)) = min (length (written p)) (pos p + k)"
  "pos (close_pipe p) = pos p" "written (close_pipe p) = written p" "eof (close_pipe p)" "eof (cut_pipe k p)"
  by (auto simp: cut_pipe_def close_pipe_def)

lemma recv_inv_pos: "pos p' = pos p \<Longrightarrow> recv_inv n pc d p' \<longleftrightarrow> recv_inv n pc d p"
  by (simp add: recv_inv_def)

lemma send_inv_mono:
  assumes "send_inv n pc sd r rd dp ap" "pos ap' = pos ap" "length (written dp') \<le> length (written dp)"
  shows "send_inv n pc sd r rd dp' ap'"
  using assms unfolding send_inv_def by (metis order_trans)

lemma hs_inv_cut:
  assumes "hs_inv config img s"
  shows "hs_inv config img (s\<lparr>data := cut_pipe k (data s)\<rparr>)" "hs_inv config img (s\<lparr>ack := cut_pipe k (ack s)\<rparr>)"
proof -
  have p: "pos (cut_pipe k (data s)) = pos (data s)" by simp
  show "hs_inv config img (s\<lparr>data := cut_pipe k (data s)\<rparr>)" "hs_inv config img (s\<lparr>ack := cut_pipe k (ack s)\<rparr>)"
    using assms unfolding hs_inv_def Let_def
    by (auto simp: data_inv_cut ack_inv_cut recv_inv_pos [OF p] elim: send_inv_mono)
qed

text \<open>Reading moves the position only; writing extends what the reader can see.\<close>

lemma ack_inv_read: "ack_inv pc d p \<Longrightarrow> written p' = written p \<Longrightarrow> eof p' = eof p \<Longrightarrow> pos p' \<le> length (written p) \<Longrightarrow> ack_inv pc d p'"
  by (simp add: ack_inv_def)

lemma data_inv_read:
  "data_inv config img pc p \<Longrightarrow> written p' = written p \<Longrightarrow> eof p' = eof p \<Longrightarrow> pos p' \<le> length (written p) \<Longrightarrow> data_inv config img pc p'"
  by (simp add: data_inv_def)

lemma data_inv_pc:
  "data_inv config img pc p \<Longrightarrow> dmax config img pc' = dmax config img pc \<Longrightarrow> \<not> s_done pc' \<Longrightarrow> data_inv config img pc' p"
  by (auto simp: data_inv_def)

lemma data_inv_close:
  "data_inv config img pc p \<Longrightarrow> prefix (dmax config img pc) (dmax config img pc') \<Longrightarrow> data_inv config img pc' (close_pipe p)"
  by (auto simp: data_inv_def intro: prefix_order.trans)

lemma dmax_exit: "prefix (dmax config img pc) (dmax config img (S_Exit code))"
  by (cases pc) (simp_all add: prefix_def)

lemma data_inv_write:
  assumes "data_inv config img pc p" "pipe_write n bs p = (rc, p')" "bs \<noteq> []"
    and "prefix (dmax config img pc @ bs) (dmax config img pc')"
    and "rc = 0 \<Longrightarrow> dmax config img pc' = dmax config img pc @ bs \<and> \<not> s_done pc'"
  shows "data_inv config img pc' p'"
proof -
  note w = pipe_write_cases [OF assms(2,3)]
  have pre: "prefix (dmax config img pc) (dmax config img pc')" using assms(4) by (rule append_prefixD)
  show ?thesis
  proof (cases "eof p")
    case True
    then show ?thesis using w(1) w(4) assms(1) prefix_order.trans [OF _ pre] by (auto simp: data_inv_def)
  next
    case False
    then have wp: "written p = dmax config img pc" using assms(1) by (simp add: data_inv_def)
    from w(3) show ?thesis
    proof (elim disjE conjE exE)
      fix k assume k: "written p' = written p @ take k bs" "eof p'"
      have "prefix (written p') (dmax config img pc @ bs)" unfolding k(1) wp by (simp add: take_is_prefix)
      then show ?thesis using k assms(1,4) w(1) prefix_order.trans by (fastforce simp: data_inv_def)
    next
      assume "rc = 0" "\<not> eof p'" "written p' = written p @ bs"
      then show ?thesis using assms(1,5) w(1) wp by (simp add: data_inv_def)
    qed
  qed
qed

lemma data_inv_config:
  assumes "data_inv config img S_Config p" "save_domain_core_writeconfig n m config p = (x, p')"
  shows "data_inv config img S_Suspend p'"
proof -
  note w = writeconfig_cases [OF assms(2)]
  have "written p = []" "pos p = 0" using assms(1) by (auto simp: data_inv_def)
  then show ?thesis using w(2,3) by (auto simp: data_inv_def take_is_prefix)
qed

section \<open>Steps of the sender\<close>

lemmas hs_invs = hs_inv_def Let_def

lemma ack_inv_close: "ack_inv pc d p \<Longrightarrow> ack_inv pc d (close_pipe p)"
  by (simp add: ack_inv_def)

lemma started:
  assumes "hs_inv config img s" "spc s \<noteq> S_Begin" "\<not> s_done (spc s)"
  shows "rpc s \<noteq> R_None"
  using assms by (auto simp: hs_invs)

lemma hs_inv_s_exit:
  assumes "hs_inv config img s" "\<not> s_done (spc s)" "code \<noteq> 0"
  shows "hs_inv config img (s_exit code s)"
proof -
  have d: "data_inv config img (spc s) (data s)" and a: "ack_inv (rpc s) (rdom s) (ack s)"
    and r: "recv_inv (length (config_bytes config @ img)) (rpc s) (rdom s) (data s)"
    and sd: "sdom s = Running \<Longrightarrow> at_source (spc s)"
    using assms(1) by (auto simp: hs_invs send_inv_def)
  have "prefix (written (data s)) (dmax config img (spc s))" using d by (simp add: data_inv_def)
  then have len: "sdom s = Running \<longrightarrow> length (written (data s)) \<le> length (config_bytes config @ img)"
    using dmax_at_source [OF sd assms(2)] by blast
  have "recv_inv (length (config_bytes config @ img)) (rpc s) (rdom s) (close_pipe (data s))"
    using r recv_inv_pos [of "close_pipe (data s)" "data s"] by simp
  then show ?thesis
    using data_inv_close [OF d dmax_exit, of code] ack_inv_close [OF a] len assms(3)
    by (simp add: hs_invs s_exit_def send_inv_def)
qed

lemma hs_inv_s_exit_read:
  assumes "hs_inv config img s" "\<not> s_done (spc s)" "code \<noteq> 0" "ack_inv (rpc s) (rdom s) ap"
  shows "hs_inv config img (s_exit code (s\<lparr>ack := ap\<rparr>))"
  using hs_inv_s_exit [OF assms(1-3)] ack_inv_close [OF assms(4)] by (simp add: hs_invs s_exit_def send_inv_def)

lemma hs_inv_sdom:
  assumes "hs_inv config img s" "\<not> s_done (spc s)" "d = Running \<Longrightarrow> at_source (spc s)"
  shows "hs_inv config img (s\<lparr>sdom := d\<rparr>)"
  using assms by (auto simp: hs_invs send_inv_def)

lemma hs_inv_away [simp]: "hs_inv config img (s\<lparr>away := b\<rparr>) \<longleftrightarrow> hs_inv config img s"
  by (simp add: hs_invs)

text \<open>The sender goes on, having read a message or having written.\<close>

lemma hs_inv_sender:
  assumes "hs_inv config img s" "\<not> s_done (spc s)" "spc s \<noteq> S_Begin" "\<not> s_done pc" "pc \<noteq> S_Begin"
    and "data_inv config img pc dp" "pos dp = pos (data s)"
    and "ack_inv (rpc s) (rdom s) ap" "\<And>k. apos pc = Some k \<Longrightarrow> pos ap = k"
    and "sdom s = Running \<Longrightarrow> at_source pc" "pc = S_Back \<Longrightarrow> rdom s = Destroyed \<and> r_done (rpc s)"
  shows "hs_inv config img (s\<lparr>data := dp, ack := ap, spc := pc\<rparr>)"
proof -
  have "recv_inv (length (config_bytes config @ img)) (rpc s) (rdom s) dp"
    using assms(1) recv_inv_pos [OF assms(7)] by (simp add: hs_invs)
  moreover have "pc \<noteq> S_Exit 0" using assms(4) by auto
  ultimately show ?thesis using assms(4-6,8-11) started [OF assms(1) assms(3) assms(2)] by (simp add: hs_invs send_inv_def)
qed

lemma hs_inv_write:
  assumes inv: "hs_inv config img s" "\<not> s_done (spc s)" "spc s \<noteq> S_Begin" "\<not> s_done pc" "pc \<noteq> S_Begin"
    and w: "pipe_write n bs (data s) = (rc, p)" "bs \<noteq> []"
    and d: "prefix (dmax config img (spc s) @ bs) (dmax config img pc)"
      "rc = 0 \<Longrightarrow> dmax config img pc = dmax config img (spc s) @ bs"
    and pc: "apos pc = None \<or> apos pc = apos (spc s)" "sdom s = Running \<Longrightarrow> at_source pc" "pc \<noteq> S_Back"
  shows "hs_inv config img (s\<lparr>data := p, spc := pc\<rparr>)"
proof -
  have "data_inv config img (spc s) (data s)" using inv(1) by (simp add: hs_invs)
  then have "data_inv config img pc p" by (rule data_inv_write) (use w d inv(4) in auto)
  moreover have "apos pc = Some k \<Longrightarrow> pos (ack s) = k" for k using inv(1) pc(1) by (auto simp: hs_invs send_inv_def)
  moreover have "ack_inv (rpc s) (rdom s) (ack s)" using inv(1) by (simp add: hs_invs)
  ultimately show ?thesis
    using hs_inv_sender [OF inv, of p "ack s"] pipe_write_cases(1) [OF w] pc by simp
qed

lemma hs_inv_spc:
  assumes inv: "hs_inv config img s" "\<not> s_done (spc s)" "spc s \<noteq> S_Begin" "\<not> s_done pc" "pc \<noteq> S_Begin"
    and "dmax config img pc = dmax config img (spc s)" "apos pc = None \<or> apos pc = apos (spc s)"
    and "sdom s = Running \<Longrightarrow> at_source pc" "pc \<noteq> S_Back"
  shows "hs_inv config img (s\<lparr>spc := pc\<rparr>)"
proof -
  have "data_inv config img (spc s) (data s)" "ack_inv (rpc s) (rdom s) (ack s)" using inv(1) by (simp_all add: hs_invs)
  moreover from this(1) have "data_inv config img pc (data s)" by (rule data_inv_pc) (use assms in auto)
  moreover have "apos pc = Some k \<Longrightarrow> pos (ack s) = k" for k using inv(1) assms(7) by (auto simp: hs_invs send_inv_def)
  ultimately show ?thesis using hs_inv_sender [OF inv, of "data s" "ack s"] assms(8,9) by simp
qed

lemma hs_inv_message:
  assumes inv: "hs_inv config img s" "\<not> s_done (spc s)" "spc s \<noteq> S_Begin" "\<not> s_done pc" "pc \<noteq> S_Begin"
    and r: "migrate_read_fixedmessage msg (ack s) = Some (rc, p)"
    and "dmax config img pc = dmax config img (spc s)" "rc \<noteq> 0 \<Longrightarrow> apos pc = None"
    and pc: "rc = 0 \<Longrightarrow> apos pc = map_option (\<lambda>k. k + length msg) (apos (spc s)) \<or> apos pc = None"
    and "sdom s = Running \<Longrightarrow> at_source pc" "pc = S_Back \<Longrightarrow> rdom s = Destroyed \<and> r_done (rpc s)"
  shows "hs_inv config img (s\<lparr>ack := p, spc := pc\<rparr>)"
proof -
  have d: "data_inv config img (spc s) (data s)" and a: "ack_inv (rpc s) (rdom s) (ack s)" using inv(1) by (simp_all add: hs_invs)
  have le: "pos (ack s) \<le> length (written (ack s))" using a by (simp add: ack_inv_def)
  note c = fixedmessage_cases [OF r le]
  have "ack_inv (rpc s) (rdom s) p" by (rule ack_inv_read [OF a]) (use c in auto)
  moreover have "data_inv config img pc (data s)" using d by (rule data_inv_pc) (use assms in auto)
  moreover have "pos p = k" if k: "apos pc = Some k" for k
  proof -
    have "rc = 0" using assms(8) k by auto
    then obtain j where j: "apos (spc s) = Some j" "k = j + length msg" using pc k by (cases "apos (spc s)") auto
    have "pos (ack s) = j" using inv(1) j(1) by (simp add: hs_invs send_inv_def)
    then show ?thesis using c(5) \<open>rc = 0\<close> j(2) by simp
  qed
  ultimately show ?thesis using hs_inv_sender [OF inv, of "data s" p] assms(10,11) by simp
qed

lemma hs_inv_begin:
  assumes "hs_inv config img s" "spc s = S_Begin"
  shows "hs_inv config img (s\<lparr>spc := S_Banner, rpc := R_Slaves\<rparr>)"
proof -
  have "rpc s = R_None" using assms by (simp add: hs_invs)
  moreover from this have "pos (data s) = 0" using assms by (simp add: hs_invs recv_inv_def)
  moreover from this have "rdom s \<noteq> Running" using assms by (auto simp: hs_invs recv_inv_def)
  ultimately show ?thesis using assms by (simp add: hs_invs data_inv_def ack_inv_def recv_inv_def send_inv_def)
qed

text \<open>The permission to have the domain back comes after the destruction of the copy.\<close>

lemma permission_read:
  assumes "hs_inv config img s" "spc s = S_Perm" "migrate_read_fixedmessage migrate_permission_to_go (ack s) = Some (0, p)"
  shows "rdom s = Destroyed \<and> r_done (rpc s)"
proof -
  have a: "ack_inv (rpc s) (rdom s) (ack s)" and pos: "pos (ack s) = a4" using assms(1,2) by (simp_all add: hs_invs send_inv_def)
  have "0 < length migrate_permission_to_go" by simp
  moreover have "a4 + length migrate_permission_to_go \<le> length (written (ack s))"
    using fixedmessage_cases(6) [OF assms(3)] a pos by (simp add: ack_inv_def)
  ultimately have "a4 < length (written (ack s))" by linarith
  then show ?thesis using a by (simp add: ack_inv_def)
qed

lemma sender_status:
  assumes inv: "hs_inv config img s" "spc s = S_Status" and r: "pipe_read 1 (ack s) = Some (rc, d, p)"
  shows "hs_inv config img (s\<lparr>ack := p, spc := S_FailedBadly\<rparr>)"
    "rc = 0 \<Longrightarrow> hs_inv config img (s\<lparr>ack := p, spc := S_Perm\<rparr>)"
    "rc = 0 \<Longrightarrow> d = [0] \<Longrightarrow> rdom s = Running \<and> r_done (rpc s)"
proof -
  have a: "ack_inv (rpc s) (rdom s) (ack s)" and d: "data_inv config img (spc s) (data s)" and pos: "pos (ack s) = a3"
    and run: "sdom s \<noteq> Running"
    using inv by (auto simp: hs_invs send_inv_def)
  note c = pipe_read_cases [OF r]
  have a': "ack_inv (rpc s) (rdom s) p" by (rule ack_inv_read [OF a]) (use c(1,2) c(8) a in \<open>auto simp: ack_inv_def\<close>)
  have d': "data_inv config img S_FailedBadly (data s)" "data_inv config img S_Perm (data s)"
    using d inv(2) by (auto intro: data_inv_pc)
  show "hs_inv config img (s\<lparr>ack := p, spc := S_FailedBadly\<rparr>)"
    using hs_inv_sender [OF inv(1) _ _ _ _ d'(1) refl a'] inv(2) run by simp
  show "hs_inv config img (s\<lparr>ack := p, spc := S_Perm\<rparr>)" if "rc = 0"
    using hs_inv_sender [OF inv(1) _ _ _ _ d'(2) refl a'] inv(2) run c(5) [OF that] pos by (simp add: a4_def)
  show "rdom s = Running \<and> r_done (rpc s)" if "rc = 0" "d = [0]"
  proof -
    have "a3 < length (written (ack s))" "written (ack s) ! a3 = 0"
      using c(6,7) [OF that(1)] that(2) pos by (auto simp: take_Suc hd_drop_conv_nth)
    then show ?thesis using a by (simp add: ack_inv_def)
  qed
qed

lemma exit_after_status:
  assumes "hs_inv config img s" "spc s = S_Status" "ack_inv (rpc s) (rdom s) p" "rdom s = Running" "r_done (rpc s)"
    "sd \<noteq> Running"
  shows "hs_inv config img (s_exit 0 (s\<lparr>ack := p, sdom := sd\<rparr>))"
proof -
  have r: "recv_inv (length (config_bytes config @ img)) (rpc s) (rdom s) (close_pipe (data s))"
    and d: "data_inv config img (spc s) (data s)"
    using assms(1) recv_inv_pos [of "close_pipe (data s)" "data s"] by (simp_all add: hs_invs)
  then show ?thesis using data_inv_close [OF d dmax_exit, of 0] ack_inv_close [OF assms(3)] assms(4-6)
    by (simp add: hs_invs s_exit_def send_inv_def)
qed

lemma exit_back:
  assumes "hs_inv config img s" "spc s = S_Back" "code \<noteq> 0"
  shows "hs_inv config img (s_exit code (s\<lparr>sdom := sd\<rparr>))"
proof -
  have "hs_inv config img (s_exit code s)" using hs_inv_s_exit [OF assms(1)] assms(2,3) by simp
  moreover have "rdom s = Destroyed \<and> r_done (rpc s)" using assms(1,2) by (simp add: hs_invs send_inv_def)
  ultimately show ?thesis using assms(3) by (simp add: hs_invs s_exit_def send_inv_def)
qed

lemma hs_inv_config:
  assumes inv: "hs_inv config img s" "spc s = S_Config" and w: "save_domain_core_writeconfig n m config (data s) = (x, p)"
  shows "hs_inv config img (s\<lparr>data := p, spc := S_Suspend\<rparr>)"
proof -
  have d: "data_inv config img S_Config (data s)" and a: "ack_inv (rpc s) (rdom s) (ack s)" "pos (ack s) = a1"
    using inv by (simp_all add: hs_invs send_inv_def)
  show ?thesis
    using hs_inv_sender [OF inv(1) _ _ _ _ data_inv_config [OF d w] writeconfig_cases(2) [OF w] a(1)] inv(2) a(2) by simp
qed

lemma hs_inv_close_data:
  assumes inv: "hs_inv config img s" "spc s = S_FailedResume"
  shows "hs_inv config img (s\<lparr>data := close_pipe (data s), spc := S_Resume\<rparr>)"
proof -
  have d: "data_inv config img (spc s) (data s)" and a: "ack_inv (rpc s) (rdom s) (ack s)" using inv by (simp_all add: hs_invs)
  have "data_inv config img S_Resume (close_pipe (data s))" using data_inv_close [OF d, of S_Resume] inv(2) by simp
  from hs_inv_sender [OF inv(1) _ _ _ _ this _ a] inv(2) show ?thesis by simp
qed

lemma hs_update_order:
  "s\<lparr>sdom := d, data := p, spc := c\<rparr> = s\<lparr>data := p, sdom := d, spc := c\<rparr>"
  "s\<lparr>data := p, spc := c, sdom := d\<rparr> = s\<lparr>data := p, sdom := d, spc := c\<rparr>"
  "s\<lparr>away := b, spc := c\<rparr> = s\<lparr>spc := c, away := b\<rparr>"
  "s\<lparr>ack := q, sdom := d\<rparr> = s\<lparr>sdom := d, ack := q\<rparr>"
  by simp_all

lemma message_ack:
  assumes "hs_inv config img s" "migrate_read_fixedmessage msg (ack s) = Some (rc, p)"
  shows "ack_inv (rpc s) (rdom s) p"
proof -
  have a: "ack_inv (rpc s) (rdom s) (ack s)" using assms(1) by (simp add: hs_invs)
  then have "pos (ack s) \<le> length (written (ack s))" by (simp add: ack_inv_def)
  from fixedmessage_cases [OF assms(2) this] show ?thesis using ack_inv_read [OF a] by simp
qed

lemma not_running:
  assumes "hs_inv config img s" "\<not> at_source (spc s)"
  shows "sdom s \<noteq> Running"
  using assms by (auto simp: hs_invs send_inv_def)

lemma sender_suspend:
  assumes inv: "hs_inv config img s" "spc s = S_Suspend" "img \<noteq> []"
    and step: "migrate_domain config img a s S_Suspend = Some s'"
  shows "hs_inv config img s'"
proof -
  obtain w p where w: "pipe_write (brk a) img (data s) = (w, p)" by fastforce
  have f: "hs_inv config img (s\<lparr>data := p, spc := pc\<rparr>)" if "pc \<in> {S_FailedSuspend, S_FailedResume}" for pc
    by (rule hs_inv_write [OF inv(1) _ _ _ _ w inv(3)]) (use inv(2) that in auto)
  have d: "hs_inv config img ((s\<lparr>data := p, spc := S_FailedResume\<rparr>)\<lparr>sdom := left_dom a\<rparr>)"
    by (rule hs_inv_sdom [OF f]) simp_all
  have r: "hs_inv config img ((s\<lparr>sdom := Suspended\<rparr>)\<lparr>data := p, spc := S_Ready\<rparr>)"
    by (rule hs_inv_write [OF hs_inv_sdom [OF inv(1)]]) (use inv(2,3) w in auto)
  show ?thesis using step w f [of S_FailedSuspend] d r by (auto simp: Let_def hs_update_order split: if_splits)
qed

lemma resumed: "snd (libxl_domain_resume h x y d) \<in> {d, Running}" "fst (libxl_domain_resume h x y d) = 0"
  by (simp_all add: libxl_domain_resume_def)

text \<open>The points at which the sender waits for a message.\<close>

lemma sender_message:
  assumes inv: "hs_inv config img s"
    and step: "migrate_domain config img a s (spc s) = Some s'" and "spc s \<in> {S_Banner, S_Ready, S_Report, S_Perm}"
  shows "hs_inv config img s'"
proof (cases "spc s")
  case S_Banner
  then obtain rc p where r: "migrate_read_fixedmessage migrate_receiver_banner (ack s) = Some (rc, p)"
    and s': "s' = (if rc \<noteq> 0 then s_exit (- rc) (s\<lparr>ack := p\<rparr>) else s\<lparr>ack := p, spc := S_Config\<rparr>)"
    using step by (auto simp: bind_eq_Some_conv Let_def split: if_splits)
  have "hs_inv config img (s\<lparr>ack := p, spc := S_Config\<rparr>)" if "rc = 0"
    by (rule hs_inv_message [OF inv _ _ _ _ r]) (use S_Banner that in \<open>auto simp: a1_def\<close>)
  then show ?thesis using s' hs_inv_s_exit_read [OF inv _ _ message_ack [OF inv r]] S_Banner by simp
next
  case S_Ready
  then obtain rc p where r: "migrate_read_fixedmessage migrate_receiver_ready (ack s) = Some (rc, p)"
    and s': "s' = s\<lparr>ack := p, spc := if rc \<noteq> 0 then S_FailedResume else S_Rename\<rparr>"
    using step by (auto simp: bind_eq_Some_conv Let_def split: if_splits)
  show ?thesis unfolding s' using not_running [OF inv]
    by (intro hs_inv_message [OF inv _ _ _ _ r]) (use S_Ready in \<open>auto simp: a2_def split: if_splits\<close>)
next
  case S_Report
  then obtain rc p where r: "migrate_read_fixedmessage migrate_report (ack s) = Some (rc, p)"
    and s': "s' = s\<lparr>ack := p, spc := if rc \<noteq> 0 then S_FailedBadly else S_Status\<rparr>"
    using step by (auto simp: bind_eq_Some_conv Let_def split: if_splits)
  show ?thesis unfolding s' using not_running [OF inv]
    by (intro hs_inv_message [OF inv _ _ _ _ r]) (use S_Report in \<open>auto simp: a3_def split: if_splits\<close>)
next
  case S_Perm
  then obtain rc p where r: "migrate_read_fixedmessage migrate_permission_to_go (ack s) = Some (rc, p)"
    and s': "s' = s\<lparr>ack := p, spc := if rc \<noteq> 0 then S_FailedBadly else S_Back\<rparr>"
    using step by (auto simp: bind_eq_Some_conv Let_def split: if_splits)
  show ?thesis unfolding s' using not_running [OF inv] permission_read [OF inv S_Perm] r
    by (intro hs_inv_message [OF inv _ _ _ _ r]) (use S_Perm in \<open>auto split: if_splits\<close>)
qed (use assms(3) in simp_all)

text \<open>The points at which it writes, renames the domain or reads the status.\<close>

lemma sender_action:
  assumes inv: "hs_inv config img s"
    and step: "migrate_domain config img a s (spc s) = Some s'" and "spc s \<in> {S_Config, S_Rename, S_Go, S_Status}"
  shows "hs_inv config img s'"
proof (cases "spc s")
  case S_Config
  then show ?thesis using step hs_inv_config [OF inv S_Config] writeconfig_cases(1)
    by (fastforce split: prod.splits option.splits)
next
  case S_Rename
  have "hs_inv config img (s\<lparr>spc := pc\<rparr>)" if "pc \<in> {S_FailedResume, S_Go}" for pc
    by (rule hs_inv_spc [OF inv]) (use S_Rename that not_running [OF inv] in auto)
  then show ?thesis using step S_Rename by (auto simp: hs_update_order split: if_splits)
next
  case S_Go
  obtain rc p where w: "pipe_write (brk a) migrate_permission_to_go (data s) = (rc, p)" by fastforce
  have "s' = s\<lparr>data := p, spc := if rc \<noteq> 0 then S_FailedBadly else S_Report\<rparr>" using step S_Go w by simp
  then show ?thesis using not_running [OF inv]
    by (simp only:) (intro hs_inv_write [OF inv _ _ _ _ w]; use S_Go in \<open>auto split: if_splits\<close>)
next
  case S_Status
  then obtain rc d p where r: "pipe_read 1 (ack s) = Some (rc, d, p)" using step by (auto simp: bind_eq_Some_conv)
  have p: "ack_inv (rpc s) (rdom s) p" using sender_status(1) [OF inv S_Status r] by (simp add: hs_invs)
  have run: "sdom s \<noteq> Running" using not_running [OF inv] S_Status by simp
  show ?thesis using step S_Status r sender_status [OF inv S_Status r] run exit_after_status [OF inv S_Status p, of "sdom s"]
      exit_after_status [OF inv S_Status p, of Destroyed] by (auto simp: Let_def split: if_splits)
qed (use assms(3) in simp_all)

lemma sender_inv:
  assumes inv: "hs_inv config img s" and img: "img \<noteq> []"
    and step: "migrate_domain config img a s (spc s) = Some s'"
  shows "hs_inv config img s'"
proof (cases "spc s")
  case S_Begin
  then show ?thesis using step hs_inv_s_exit [OF inv] hs_inv_begin [OF inv] by (auto split: if_splits)
next
  case S_Suspend
  then show ?thesis using sender_suspend [OF inv S_Suspend img] step by simp
next
  case S_Back
  then show ?thesis using step exit_back [of config img _ 3] inv S_Back
    by (auto simp: ERROR_FAIL_def Let_def split: prod.splits if_splits)
next
  case S_FailedSuspend
  then show ?thesis using step hs_inv_s_exit [OF inv] by (auto simp: ERROR_FAIL_def)
next
  case S_FailedResume
  then show ?thesis using step hs_inv_close_data [OF inv] by auto
next
  case S_Resume
  have "hs_inv config img (s_exit 3 (s\<lparr>sdom := d\<rparr>))" for d
    by (rule hs_inv_s_exit [OF hs_inv_sdom [OF inv]]) (use S_Resume in auto)
  then show ?thesis using step S_Resume by (auto simp: ERROR_FAIL_def Let_def split: prod.splits)
next
  case S_FailedBadly
  then show ?thesis using step hs_inv_s_exit [OF inv] by (auto simp: ERROR_BADFAIL_def)
qed (use step sender_message [OF inv step] sender_action [OF inv step] in simp_all)

section \<open>Steps of the receiver\<close>

lemma hs_inv_receiver:
  assumes inv: "hs_inv config img s" "\<not> r_done (rpc s)" "rpc s \<noteq> R_None" "pc \<noteq> R_None"
    and d: "data_inv config img (spc s) dp" "written dp = written (data s)" "recv_inv (length (config_bytes config @ img)) pc rd dp"
    and a: "ack_inv pc rd ap" "pos ap = pos (ack s)"
  shows "hs_inv config img (s\<lparr>data := dp, ack := ap, rdom := rd, rpc := pc\<rparr>)"
  using assms by (simp add: hs_invs send_inv_def)

lemma hs_inv_r_exit:
  assumes inv: "hs_inv config img s" "\<not> r_done (rpc s)" "rpc s \<noteq> R_None"
    and d: "data_inv config img (spc s) dp" "written dp = written (data s)"
      "rd = Running \<Longrightarrow> length (config_bytes config @ img) < pos dp"
    and a: "ack_inv (R_Exit code) rd (close_pipe ap)" "pos ap = pos (ack s)"
  shows "hs_inv config img (r_exit code (s\<lparr>data := dp, ack := ap, rdom := rd\<rparr>))"
proof -
  have "data_inv config img (spc s) (close_pipe dp)" using data_inv_close [OF d(1)] by simp
  moreover have "recv_inv (length (config_bytes config @ img)) (R_Exit code) rd (close_pipe dp)"
    using d(3) by (simp add: recv_inv_def)
  moreover have "r_exit code (s\<lparr>data := dp, ack := ap, rdom := rd\<rparr>) =
      s\<lparr>data := close_pipe dp, ack := close_pipe ap, rdom := rd, rpc := R_Exit code\<rparr>"
    by (simp add: r_exit_def)
  ultimately show ?thesis
    using hs_inv_receiver [OF inv, of "R_Exit code" "close_pipe dp" rd "close_pipe ap"] d(2) a by simp
qed

text \<open>What a write of the receiver does to its invariant.\<close>

lemma ack_write:
  assumes a: "ack_inv pc d p" "\<not> r_done pc" and w: "pipe_write n bs p = (rc, p')" "bs \<noteq> []"
  shows "pos p' = pos p" "pos p' \<le> length (written p')"
    "rc = 0 \<Longrightarrow> \<not> eof p' \<and> written p' = written p @ bs \<and> length (written p) = amax pc"
    "rc \<noteq> 0 \<Longrightarrow> eof p' \<and> length (written p') < amax pc + length bs"
    "a3 < length (written p') \<Longrightarrow> written p' ! a3 = 0 \<Longrightarrow> a3 < length (written p) \<Longrightarrow> False"
proof -
  note c = pipe_write_cases [OF w]
  have old: "a3 < length (written p) \<Longrightarrow> written p ! a3 \<noteq> 0" "pos p \<le> length (written p)" "length (written p) \<le> amax pc"
    "eof p \<or> length (written p) = amax pc"
    using a by (auto simp: ack_inv_def)
  obtain bs' where bs': "written p' = written p @ bs'" "length bs' \<le> length bs" using c(3) by fastforce
  show "pos p' = pos p" by (rule c(1))
  then show "pos p' \<le> length (written p')" using bs'(1) old(2) by simp
  show "\<not> eof p' \<and> written p' = written p @ bs \<and> length (written p) = amax pc" if "rc = 0" using that c(3) old(4) by auto
  show "eof p' \<and> length (written p') < amax pc + length bs" if "rc \<noteq> 0" using that c(3) old(3) by auto
  show False if "a3 < length (written p')" "written p' ! a3 = 0" "a3 < length (written p)"
    using that old(1) bs'(1) by (simp add: nth_append)
qed

text \<open>The messages before the status byte.\<close>

lemma ack_early:
  assumes a: "ack_inv pc d p" "\<not> r_done pc" and w: "pipe_write n bs p = (rc, p')" "bs \<noteq> []" and m: "amax pc + length bs \<le> a3"
  shows "rc = 0 \<Longrightarrow> amax pc' = amax pc + length bs \<Longrightarrow> \<not> r_done pc' \<Longrightarrow> ack_inv pc' d' p'"
    "rc \<noteq> 0 \<Longrightarrow> ack_inv (R_Exit code) d' (close_pipe p')"
  using ack_write [OF a w] m positions by (auto simp: ack_inv_def)

lemma ack_inv_pc:
  assumes "ack_inv pc d p" "amax pc' = amax pc" "amax pc \<le> a3" "\<not> r_done pc'"
  shows "ack_inv pc' d' p"
  using assms positions by (auto simp: ack_inv_def)

lemma ack_inv_exit:
  assumes "ack_inv pc d p" "\<not> r_done pc"
  shows "ack_inv (R_Exit code) d' (close_pipe p)"
proof -
  have "amax pc \<le> a5" using positions by (cases pc) auto
  then show ?thesis using assms by (auto simp: ack_inv_def)
qed

text \<open>The restored domain: exactly the configuration and the image have been read.\<close>

lemma create_position:
  assumes inv: "hs_inv config img s" "rpc s = R_Create" and img: "img \<noteq> []" and len: "length config < 2 ^ 31"
    and load: "load_config j j' (data s) = Some (Inr c, p)" "take (length img) (avail p) = img"
  shows "pos p = length (config_bytes config)" "c = config"
proof -
  have d: "prefix (written (data s)) (dmax config img (spc s))" "pos (data s) = 0"
    using inv by (auto simp: hs_invs data_inv_def recv_inv_def)
  have "prefix (dmax config img (spc s)) (config_bytes config @ img @ migrate_permission_to_go)"
    by (cases "spc s") (auto simp: prefix_def)
  then have pre: "prefix (written (data s)) (config_bytes config @ img @ migrate_permission_to_go)"
    using d(1) prefix_order.trans by blast
  have av: "avail (data s) = written (data s)" using d(2) by (simp add: avail_def)
  have "length (config_bytes config) \<le> length (written (data s))"
  proof (rule ccontr)
    assume n: "\<not> ?thesis"
    then have "written (data s) = take (length (written (data s))) (config_bytes config)"
      using pre by (metis linorder_le_cases prefix_def prefix_length_prefix take_is_prefix append_eq_conv_conj append_take_drop_id
        prefixI)
    then have "avail p = []" using load_config_short [OF load(1) len] n av by (metis not_le)
    then show False using load(2) img by simp
  qed
  then obtain rest where "avail (data s) = config_bytes config @ rest"
    using pre av prefix_length_prefix [of "config_bytes config" "config_bytes config @ img @ migrate_permission_to_go" "written (data s)"]
    by (auto simp: prefix_def)
  from load_config_bytes [OF len this, of j j'] load(1) d(2) show "pos p = length (config_bytes config)" "c = config"
    by (auto simp: config_bytes_length)
qed

lemma recv_parts:
  assumes "hs_inv config img s"
  shows "data_inv config img (spc s) (data s)" "ack_inv (rpc s) (rdom s) (ack s)"
    "recv_inv (length (config_bytes config @ img)) (rpc s) (rdom s) (data s)" "pos (data s) \<le> length (written (data s))"
  using assms by (simp_all add: hs_invs data_inv_def)

text \<open>A message that the receiver writes before the status byte.\<close>

lemma receiver_write:
  assumes inv: "hs_inv config img s" "\<not> r_done (rpc s)" "rpc s \<noteq> R_None"
    and w: "pipe_write n bs (ack s) = (rc, p)" "bs \<noteq> []" and m: "amax (rpc s) + length bs \<le> a3"
  shows "rc \<noteq> 0 \<Longrightarrow> hs_inv config img (r_exit code (s\<lparr>ack := p\<rparr>))"
    "rc = 0 \<Longrightarrow> amax pc = amax (rpc s) + length bs \<Longrightarrow> \<not> r_done pc \<Longrightarrow> pc \<noteq> R_None \<Longrightarrow>
      recv_inv (length (config_bytes config @ img)) pc (rdom s) (data s) \<Longrightarrow> hs_inv config img (s\<lparr>ack := p, rpc := pc\<rparr>)"
proof -
  note r = recv_parts [OF inv(1)]
  note e = ack_early [OF r(2) inv(2) w m]
  have pos: "pos p = pos (ack s)" by (rule ack_write(1) [OF r(2) inv(2) w])
  have run: "rdom s = Running \<Longrightarrow> length (config_bytes config @ img) < pos (data s)" using r(3) unfolding recv_inv_def by blast
  show "hs_inv config img (r_exit code (s\<lparr>ack := p\<rparr>))" if "rc \<noteq> 0"
    using hs_inv_r_exit [of config img s "data s" "rdom s" code p] inv r(1) run e(2) [OF that] pos by simp
  show "hs_inv config img (s\<lparr>ack := p, rpc := pc\<rparr>)" if "rc = 0" "amax pc = amax (rpc s) + length bs" "\<not> r_done pc" "pc \<noteq> R_None"
      "recv_inv (length (config_bytes config @ img)) pc (rdom s) (data s)"
    using hs_inv_receiver [OF inv that(4) r(1) refl that(5) e(1) [OF that(1-3)] pos] by simp
qed

text \<open>Steps that touch neither pipe.\<close>

lemma receiver_goes_on:
  assumes inv: "hs_inv config img s" "\<not> r_done (rpc s)" "rpc s \<noteq> R_None"
    and pc: "amax pc = amax (rpc s)" "amax (rpc s) \<le> a3" "\<not> r_done pc" "pc \<noteq> R_None"
      "recv_inv (length (config_bytes config @ img)) pc rd (data s)"
  shows "hs_inv config img (s\<lparr>rdom := rd, rpc := pc\<rparr>)"
  using hs_inv_receiver [OF inv pc(4) recv_parts(1) [OF inv(1)] refl pc(5) ack_inv_pc [OF recv_parts(2) [OF inv(1)] pc(1-3)] refl]
  by simp

lemma receiver_leaves:
  assumes inv: "hs_inv config img s" "\<not> r_done (rpc s)" "rpc s \<noteq> R_None"
    and p: "data_inv config img (spc s) p" "written p = written (data s)" "pos (data s) \<le> pos p"
    and rd: "rd = Running \<Longrightarrow> rdom s = Running"
  shows "hs_inv config img (r_exit code (s\<lparr>data := p, rdom := rd\<rparr>))"
proof -
  have "rd = Running \<Longrightarrow> length (config_bytes config @ img) < pos p"
    using rd recv_parts(3) [OF inv(1)] p(3) unfolding recv_inv_def by (meson less_le_trans)
  then show ?thesis
    using hs_inv_r_exit [of config img s p rd code "ack s"] inv p(1,2) ack_inv_exit [OF recv_parts(2) [OF inv(1)] inv(2)] by simp
qed

lemma load_config_pos:
  assumes "load_config j j' p = Some (r, p')"
  shows "pos p \<le> pos p'"
  using assms
proof (cases rule: load_config_reads)
  case (1 rc d q)
  then show ?thesis using pipe_read_cases(4) [OF 1(1)] by simp
next
  case (2 rc d q rc2 d2)
  then show ?thesis using pipe_read_cases(4) [OF 2(1)] pipe_read_cases(4) [OF 2(2)] by simp
qed

lemma receiver_create:
  assumes inv: "hs_inv config img s" "rpc s = R_Create" and img: "img \<noteq> []" and len: "length config < 2 ^ 31"
    and step: "create_domain img a s = Some s'"
  shows "hs_inv config img s'"
proof -
  obtain r p where l: "load_config (junk a) (junk2 a) (data s) = Some (r, p)"
    using step by (auto simp: create_domain_def bind_eq_Some_conv)
  note q = recv_parts [OF inv(1)]
  note lp = load_config_pipe [OF l q(4)]
  have d: "data_inv config img (spc s) p" by (rule data_inv_read [OF q(1) lp])
  have nr: "rdom s \<noteq> Running" using q(3) inv(2) by (auto simp: recv_inv_def)
  have ex: "hs_inv config img (r_exit code (s\<lparr>data := p\<rparr>))" for code
    using receiver_leaves [OF inv(1) _ _ d lp(1) load_config_pos [OF l], of "rdom s" code] inv(2) by simp
  have ok: "hs_inv config img (s\<lparr>data := p\<lparr>pos := pos p + length img\<rparr>, rdom := Suspended, rpc := R_Ready\<rparr>)"
    if c: "r = Inr c" "take (length img) (avail p) = img" for c
  proof -
    let ?p = "p\<lparr>pos := pos p + length img\<rparr>"
    have pos: "pos p = length (config_bytes config)" by (rule create_position(1) [OF inv img len l [unfolded c(1)] c(2)])
    have "length img \<le> length (avail p)" using c(2) by (metis length_take min.cobounded1)
    then have "data_inv config img (spc s) ?p"
      using d lp(3) by (intro data_inv_read [OF d]) (auto simp: avail_def data_inv_def lp(1))
    moreover have "recv_inv (length (config_bytes config @ img)) R_Ready Suspended ?p" by (simp add: recv_inv_def pos)
    moreover have "ack_inv R_Ready Suspended (ack s)" using q(2) inv(2) ack_inv_pc positions by (metis amax.simps(4,5) less_imp_le order_trans r_done.simps(6))
    ultimately show ?thesis using hs_inv_receiver [OF inv(1), of R_Ready ?p Suspended "ack s"] inv(2) lp(1) by simp
  qed
  show ?thesis using step l ex ok
    by (auto simp: create_domain_def bind_eq_Some_conv Let_def split: sum.splits load_err.splits if_splits)
qed

lemma receiver_go:
  assumes inv: "hs_inv config img s" "rpc s = R_Go"
    and r: "migrate_read_fixedmessage migrate_permission_to_go (data s) = Some (rc, p)"
  shows "hs_inv config img (s\<lparr>data := p, rpc := if rc \<noteq> 0 then R_Report rc else R_Rename\<rparr>)"
proof -
  note q = recv_parts [OF inv(1)]
  note c = fixedmessage_cases [OF r q(4)]
  let ?pc = "if rc \<noteq> 0 then R_Report rc else R_Rename"
  have nr: "rdom s \<noteq> Running" "pos (data s) = length (config_bytes config @ img)" using q(3) inv(2) by (auto simp: recv_inv_def)
  have "recv_inv (length (config_bytes config @ img)) ?pc (rdom s) p" using nr c(5) by (simp add: recv_inv_def)
  moreover have "ack_inv ?pc (rdom s) (ack s)"
    by (rule ack_inv_pc [OF q(2)]) (use inv(2) positions in auto)
  moreover have "data_inv config img (spc s) p" by (rule data_inv_read [OF q(1) c(1-3)])
  ultimately show ?thesis using hs_inv_receiver [OF inv(1), of ?pc p "rdom s" "ack s"] inv(2) c(1) by simp
qed

lemma receiver_status:
  assumes inv: "hs_inv config img s" "rpc s = R_Status rc" and c: "(c = 0) = (rc = 0)"
    and w: "pipe_write n [c] (ack s) = (rc2, p)"
  shows "rc2 \<noteq> 0 \<Longrightarrow> hs_inv config img (r_exit code (s\<lparr>ack := p\<rparr>))"
    "rc2 = 0 \<Longrightarrow> rc \<noteq> 0 \<Longrightarrow> hs_inv config img (s\<lparr>ack := p, rpc := R_Destroy\<rparr>)"
    "rc2 = 0 \<Longrightarrow> rc = 0 \<Longrightarrow> hs_inv config img (r_exit code (s\<lparr>ack := p\<rparr>))"
proof -
  note q = recv_parts [OF inv(1)]
  have al: "\<not> r_done (rpc s)" "rpc s \<noteq> R_None" using inv(2) by auto
  note aw = ack_write [OF q(2) al(1) w]
  have run: "rdom s = Running \<Longrightarrow> length (config_bytes config @ img) < pos (data s)" using q(3) unfolding recv_inv_def by blast
  have ex: "hs_inv config img (r_exit code (s\<lparr>ack := p\<rparr>))" if "ack_inv (R_Exit code) (rdom s) (close_pipe p)"
    using hs_inv_r_exit [of config img s "data s" "rdom s" code p] inv(1) al q(1) run that aw(1) by simp
  have st: "length (written p) = a4 \<and> written p ! a3 = c" if "rc2 = 0"
    using aw(3) [OF _ that] inv(2) by (auto simp: nth_append a4_def)
  show "hs_inv config img (r_exit code (s\<lparr>ack := p\<rparr>))" if "rc2 \<noteq> 0"
    by (rule ex) (use aw(2) aw(4) [OF _ that] inv(2) positions in \<open>auto simp: ack_inv_def\<close>)
  show "hs_inv config img (s\<lparr>ack := p, rpc := R_Destroy\<rparr>)" if "rc2 = 0" "rc \<noteq> 0"
  proof -
    have "ack_inv R_Destroy (rdom s) p" using aw(2) st [OF that(1)] c that(2) by (auto simp: ack_inv_def)
    moreover have "recv_inv (length (config_bytes config @ img)) R_Destroy (rdom s) (data s)" using run by (simp add: recv_inv_def)
    ultimately show ?thesis using hs_inv_receiver [OF inv(1) al, of R_Destroy "data s" "rdom s" p] q(1) aw(1) by simp
  qed
  show "hs_inv config img (r_exit code (s\<lparr>ack := p\<rparr>))" if "rc2 = 0" "rc = 0"
  proof (rule ex)
    have "rdom s = Running" using q(3) inv(2) that(2) by (simp add: recv_inv_def)
    then show "ack_inv (R_Exit code) (rdom s) (close_pipe p)" using aw(2) st [OF that(1)] positions by (auto simp: ack_inv_def)
  qed
qed

lemma receiver_destroyed:
  assumes inv: "hs_inv config img s" "rpc s = R_Destroy"
  shows "hs_inv config img (s\<lparr>rdom := Destroyed, rpc := R_Perm\<rparr>)"
proof -
  have "ack_inv R_Perm Destroyed (ack s)" using recv_parts(2) [OF inv(1)] inv(2) by (auto simp: ack_inv_def)
  then show ?thesis
    using hs_inv_receiver [OF inv(1), of R_Perm "data s" Destroyed "ack s"] recv_parts(1) [OF inv(1)] inv(2) by (simp add: recv_inv_def)
qed

text \<open>The result of writing the banner is not looked at.\<close>

lemma receiver_banner:
  assumes inv: "hs_inv config img s" "rpc s = R_Banner" and w: "pipe_write n migrate_receiver_banner (ack s) = (r, p)"
  shows "hs_inv config img (s\<lparr>ack := p, rpc := R_Create\<rparr>)"
proof -
  note q = recv_parts [OF inv(1)]
  have al: "\<not> r_done (rpc s)" using inv(2) by auto
  note aw = ack_write [OF q(2) al w messages_nonempty(1)]
  have "ack_inv R_Create (rdom s) p"
    using aw(2-4) inv(2) positions by (cases "r = 0") (auto simp: ack_inv_def a1_def)
  moreover have "recv_inv (length (config_bytes config @ img)) R_Create (rdom s) (data s)" using q(3) inv(2) by (auto simp: recv_inv_def)
  ultimately show ?thesis
    using hs_inv_receiver [OF inv(1), of R_Create "data s" "rdom s" p] inv(2) q(1) aw(1) by simp
qed

lemma receiver_perm:
  assumes inv: "hs_inv config img s" "rpc s = R_Perm" and w: "pipe_write n migrate_permission_to_go (ack s) = (rc2, p)"
  shows "hs_inv config img (r_exit code (s\<lparr>ack := p\<rparr>))"
proof -
  note q = recv_parts [OF inv(1)]
  have al: "\<not> r_done (rpc s)" using inv(2) by auto
  note aw = ack_write [OF q(2) al w messages_nonempty(3)]
  have d: "rdom s = Destroyed" using q(3) inv(2) by (simp add: recv_inv_def)
  have short: "a3 < length (written (ack s))" if "a3 < length (written p)" "\<not> a3 < length (written (ack s))"
    using that aw(3) inv(2) pipe_write_cases [OF w messages_nonempty(3)] positions q(2)
    by (cases "eof (ack s)") (auto simp: ack_inv_def)
  have "length (written p) \<le> a5" using aw(3,4) inv(2) by (cases "rc2 = 0") (auto simp: a5_def)
  then have "ack_inv (R_Exit code) (rdom s) (close_pipe p)" using aw(2,5) short d by (auto simp: ack_inv_def)
  moreover have "rdom s = Running \<Longrightarrow> length (config_bytes config @ img) < pos (data s)" using d by simp
  ultimately show ?thesis using hs_inv_r_exit [of config img s "data s" "rdom s" code p] inv q(1) aw(1) by simp
qed

text \<open>The points at which the receiver writes.\<close>

lemma receiver_messages:
  assumes inv: "hs_inv config img s"
    and step: "migrate_receive img n a s (rpc s) = Some s'" and "rpc s \<in> {R_Banner, R_Ready, R_Perm} \<union> range R_Report \<union> range R_Status"
  shows "hs_inv config img s'"
proof -
  note q = recv_parts [OF inv]
  note w = receiver_write [OF inv] and l = receiver_leaves [OF inv _ _ q(1) refl order_refl]
  show ?thesis
  proof (cases "rpc s")
    case R_Banner
    obtain r p where p: "pipe_write (brk a) migrate_receiver_banner (ack s) = (r, p)" by fastforce
    have "0 \<le> r" using pipe_write_cases(2) [OF p] by simp
    then have s': "s' = s\<lparr>ack := p, rpc := R_Create\<rparr>" using step R_Banner p by simp
    show ?thesis unfolding s' using receiver_banner [OF inv R_Banner p] .
  next
    case R_Ready
    obtain r p where p: "pipe_write (brk a) migrate_receiver_ready (ack s) = (r, p)" by fastforce
    have "amax (rpc s) + length migrate_receiver_ready \<le> a3" using R_Ready positions by (simp add: a2_def)
    from w [OF _ _ p _ this] show ?thesis using step R_Ready p q(3)
      by (cases "r = 0") (auto simp: a2_def recv_inv_def)
  next
    case (R_Report rc)
    obtain r p where p: "pipe_write (brk a) migrate_report (ack s) = (r, p)" by fastforce
    have "amax (rpc s) + length migrate_report \<le> a3" using R_Report by (simp add: a3_def)
    from w [OF _ _ p _ this] show ?thesis using step R_Report p q(3)
      by (cases "r = 0") (auto simp: a3_def recv_inv_def)
  next
    case (R_Status rc)
    let ?c = "word_of_int (- rc) :: byte"
    obtain r p where p: "pipe_write (brk a) [?c] (ack s) = (r, p)" by fastforce
    show ?thesis using step R_Status p receiver_status [OF inv R_Status _ p] l [of "rdom s" 134]
      by (auto simp: Let_def split: if_splits)
  next
    case R_Perm
    then show ?thesis using step receiver_perm [OF inv R_Perm] by (auto simp: Let_def split: prod.splits if_splits)
  qed (use assms(3) in auto)
qed

lemma receiver_inv:
  assumes inv: "hs_inv config img s" and img: "img \<noteq> []" and len: "length config < 2 ^ 31"
    and step: "migrate_receive img n a s (rpc s) = Some s'"
  shows "hs_inv config img s'"
proof -
  note q = recv_parts [OF inv]
  note g = receiver_goes_on [OF inv] and l = receiver_leaves [OF inv _ _ q(1) refl order_refl]
  show ?thesis
  proof (cases "rpc s")
    case R_Slaves
    then show ?thesis using step g [of R_Banner "rdom s"] q(3) inv by (auto simp: recv_inv_def positions split: if_splits)
  next
    case R_Create
    then show ?thesis using receiver_create [OF inv R_Create img len] step by simp
  next
    case R_Go
    then show ?thesis using step receiver_go [OF inv R_Go] by (auto simp: bind_eq_Some_conv Let_def)
  next
    case R_Rename
    then show ?thesis using step g [of R_Unpause "rdom s"] g [of "R_Report (result a)" "rdom s"] q(3) positions
      by (auto simp: recv_inv_def split: if_splits)
  next
    case R_Unpause
    then show ?thesis using step g [of "R_Report 0" Running] g [of "R_Report (result a)" "left_dom a"] q(3) positions
      by (auto simp: recv_inv_def split: if_splits)
  next
    case R_Destroy
    have "hs_inv config img (s\<lparr>rdom := Destroyed, rpc := R_Perm\<rparr>)" by (rule receiver_destroyed [OF inv R_Destroy])
    then show ?thesis using step R_Destroy l [of "rdom s" 7] l [of Destroyed 7] by (auto simp: ERROR_BADFAIL_def split: if_splits)
  qed (use step receiver_messages [OF inv step] in auto)
qed

end
