(* ===== verification/Mig_Handshake_Props.thy ===== *)
theory Mig_Handshake_Props
  imports Mig_Handshake_Inv
begin

text \<open>
  What the handshake and its stream guarantee: the domain never runs twice, success means that it has
  moved, the programs never wait for each other, a migration without failures completes, and the
  configuration arrives as it was sent.
\<close>

section \<open>Reachable states\<close>

lemma hs_step_inv:
  assumes "hs_step config img n s s'" "hs_inv config img s" "img \<noteq> []" "length config < 2 ^ 31"
  shows "hs_inv config img s'"
  using assms(1)
proof cases
  case (sender a)
  show ?thesis by (rule sender_inv [OF assms(2,3) sender])
next
  case (receiver a)
  show ?thesis by (rule receiver_inv [OF assms(2-4) receiver])
next
  case (cut_data k)
  then show ?thesis using hs_inv_cut(1) [OF assms(2)] by simp
next
  case (cut_ack k)
  then show ?thesis using hs_inv_cut(2) [OF assms(2)] by simp
next
  case (sender_killed code)
  then have "\<not> s_done (spc s)" by (cases "spc s") (auto simp: s_alive_def)
  then show ?thesis using sender_killed hs_inv_s_exit assms(2) by simp
next
  case (receiver_killed code)
  then have "\<not> r_done (rpc s)" "rpc s \<noteq> R_None" by (cases "rpc s"; simp add: r_alive_def)+
  then show ?thesis
    using receiver_killed receiver_leaves [OF assms(2) _ _ recv_parts(1) [OF assms(2)] refl order_refl, of "rdom s" code] by simp
qed

lemma hs_reach_inv:
  assumes "hs_reach config img n s" "img \<noteq> []" "length config < 2 ^ 31"
  shows "hs_inv config img s"
  using assms(1) unfolding hs_reach_def
proof (induction rule: rtranclp_induct)
  case base
  show ?case by (rule hs_inv_init)
next
  case (step s t)
  show ?case by (rule hs_step_inv [OF step(2,3) assms(2,3)])
qed

text \<open>Running a schedule: which program moves, and what it is told.\<close>

datatype who = Sender | Receiver

fun hs_exec :: "byte list \<Rightarrow> byte list \<Rightarrow> int \<Rightarrow> (who \<times> answer) list \<Rightarrow> hs \<Rightarrow> hs option" where
  "hs_exec config img n [] s = Some s"
| "hs_exec config img n ((Sender, a) # xs) s = do { s \<leftarrow> migrate_domain config img a s (spc s); hs_exec config img n xs s }"
| "hs_exec config img n ((Receiver, a) # xs) s = do { s \<leftarrow> migrate_receive img n a s (rpc s); hs_exec config img n xs s }"

lemma hs_exec_steps: "hs_exec config img n xs s = Some s' \<Longrightarrow> (hs_step config img n)\<^sup>*\<^sup>* s s'"
proof (induction config img n xs s rule: hs_exec.induct)
  case (2 config img n a xs s)
  then obtain t where "migrate_domain config img a s (spc s) = Some t" "(hs_step config img n)\<^sup>*\<^sup>* t s'"
    by (auto simp: bind_eq_Some_conv)
  then show ?case using hs_step.sender converse_rtranclp_into_rtranclp by metis
next
  case (3 config img n a xs s)
  then obtain t where "migrate_receive img n a s (rpc s) = Some t" "(hs_step config img n)\<^sup>*\<^sup>* t s'"
    by (auto simp: bind_eq_Some_conv)
  then show ?case using hs_step.receiver converse_rtranclp_into_rtranclp by metis
qed simp

lemma hs_exec_reach: "hs_exec config img n xs hs_init = Some s \<Longrightarrow> hs_reach config img n s"
  unfolding hs_reach_def by (rule hs_exec_steps)

section \<open>A migration without failures\<close>

definition good :: "nat \<Rightarrow> answer" where
  "good k = \<lparr>result = 0, result2 = 0, brk = k, brk2 = k, left_dom = NoDomain, hvm = False, named = True,
     junk = (\<lambda>_. 0), junk2 = (\<lambda>_. 0)\<rparr>"

definition good_schedule :: "nat \<Rightarrow> int \<Rightarrow> (who \<times> answer) list" where
  "good_schedule k n =
     (let a = good k in
      [(Sender, a), (Receiver, a\<lparr>result := n\<rparr>), (Receiver, a), (Sender, a), (Sender, a), (Sender, a), (Receiver, a),
       (Receiver, a), (Sender, a), (Sender, a), (Sender, a), (Receiver, a), (Receiver, a), (Receiver, a), (Receiver, a),
       (Receiver, a), (Sender, a), (Sender, a)])"

lemma message_there:
  "avail p = msg @ rest \<Longrightarrow> migrate_read_fixedmessage msg p = Some (0, p\<lparr>pos := pos p + length msg\<rparr>)"
  by (simp add: migrate_read_fixedmessage_def pipe_read_def)

lemma write_all: "\<not> eof p \<Longrightarrow> length bs \<le> k \<Longrightarrow> pipe_write k bs p = (0, p\<lparr>written := written p @ bs\<rparr>)"
  by (simp add: pipe_write_def)

lemma writeconfig_all:
  assumes "\<not> eof p" "52 + length config \<le> k"
  shows "save_domain_core_writeconfig k k config p = (None, p\<lparr>written := written p @ config_bytes config\<rparr>)"
  using assms
  by (simp add: save_domain_core_writeconfig_def config_header_eq write_all header_bytes_def config_bytes_eq)

lemmas message_lengths = migrate_receiver_banner_def migrate_receiver_ready_def migrate_permission_to_go_def migrate_report_def

lemma good_run:
  assumes "config \<noteq> []" "length config < 2 ^ 31" "56 + length config \<le> k" "length img \<le> k"
  shows "\<exists>s. hs_exec config img n (good_schedule k n) hs_init = Some s \<and>
    spc s = S_Exit 0 \<and> sdom s = Destroyed \<and> rpc s = R_Exit 0 \<and> rdom s = Running"
proof -
  have "length migrate_receiver_banner \<le> 54" "length migrate_receiver_ready \<le> 52" "length migrate_report \<le> 52"
    "length migrate_permission_to_go \<le> 52" by (simp_all add: message_lengths chars_def)
  then have m: "length migrate_receiver_banner \<le> k" "length migrate_receiver_ready \<le> k" "length migrate_report \<le> k"
    "length migrate_permission_to_go \<le> k" using assms(3) by linarith+
  show ?thesis
    using assms m load_config_bytes [OF assms(2)]
    by (simp add: good_schedule_def good_def hs_init_def pipe0_def write_all writeconfig_all message_there avail_def create_domain_def
      Let_def s_exit_def r_exit_def close_pipe_def config_bytes_length pipe_read_def)
qed

section \<open>No deadlock\<close>

definition can_move :: "byte list \<Rightarrow> byte list \<Rightarrow> int \<Rightarrow> hs \<Rightarrow> bool" where
  "can_move config img n s \<longleftrightarrow>
     (\<exists>a s'. migrate_domain config img a s (spc s) = Some s' \<or> migrate_receive img n a s (rpc s) = Some s')"

lemma can_moveI:
  "migrate_domain config img a s (spc s) = Some s' \<Longrightarrow> can_move config img n s"
  "migrate_receive img n a s (rpc s) = Some s' \<Longrightarrow> can_move config img n s"
  by (auto simp: can_move_def)

lemma read_waits: "pipe_read sz p = None \<longleftrightarrow> length (avail p) < sz \<and> \<not> eof p"
  by (auto simp: pipe_read_def)

lemma message_waits: "migrate_read_fixedmessage msg p = None \<longleftrightarrow> length (avail p) < length msg \<and> \<not> eof p"
  by (auto simp: migrate_read_fixedmessage_def read_waits bind_eq_None_conv split: if_splits prod.splits)

lemma load_config_no_wait: "eof p \<Longrightarrow> load_config j j' p \<noteq> None"
  by (auto simp: load_config_def pipe_read_def Let_def split: if_splits)

text \<open>The receiver waits only for what the sender has not written yet.\<close>

lemma create_moves:
  assumes "load_config (junk a) (junk2 a) (data s) \<noteq> None" "result a < 0"
  shows "create_domain img a s \<noteq> None"
proof -
  obtain r p where l: "load_config (junk a) (junk2 a) (data s) = Some (r, p)" using assms(1) by auto
  show ?thesis
  proof (cases r)
    case (Inl e)
    then show ?thesis using l by (cases e) (simp_all add: create_domain_def)
  qed (use l assms(2) in \<open>simp add: create_domain_def\<close>)
qed

lemma receiver_moves:
  assumes "\<not> r_done (rpc s)" "rpc s \<noteq> R_None"
    and "rpc s = R_Create \<Longrightarrow> load_config j j' (data s) \<noteq> None"
    and "rpc s = R_Go \<Longrightarrow> migrate_read_fixedmessage migrate_permission_to_go (data s) \<noteq> None"
  shows "can_move config img n s"
proof -
  let ?a = "(good 0)\<lparr>result := - 1, junk := j, junk2 := j'\<rparr>"
  have "\<exists>s'. migrate_receive img n ?a s (rpc s) = Some s'"
    using assms create_moves [of ?a s img] by (cases "rpc s") (auto simp: good_def Let_def split: prod.splits)
  then show ?thesis using can_moveI(2) by blast
qed

lemma sender_moves:
  assumes "\<not> s_done (spc s)"
    and "spc s = S_Banner \<Longrightarrow> migrate_read_fixedmessage migrate_receiver_banner (ack s) \<noteq> None"
    and "spc s = S_Ready \<Longrightarrow> migrate_read_fixedmessage migrate_receiver_ready (ack s) \<noteq> None"
    and "spc s = S_Report \<Longrightarrow> migrate_read_fixedmessage migrate_report (ack s) \<noteq> None"
    and "spc s = S_Status \<Longrightarrow> pipe_read 1 (ack s) \<noteq> None"
    and "spc s = S_Perm \<Longrightarrow> migrate_read_fixedmessage migrate_permission_to_go (ack s) \<noteq> None"
  shows "can_move config img n s"
proof -
  have "\<exists>s'. migrate_domain config img (good 0) s (spc s) = Some s'"
    using assms by (cases "spc s")
      (auto simp: good_def Let_def split: prod.splits option.splits)
  then show ?thesis using can_moveI(1) by blast
qed

text \<open>While the sender waits, what the receiver may be waiting for has been written, or the pipe has ended.\<close>

lemma waiting_ack:
  assumes inv: "hs_inv config img s" and k: "apos (spc s) = Some k"
    and wait: "length (avail (ack s)) < m" "\<not> eof (ack s)"
  shows "amax (rpc s) < k + m" "\<not> r_done (rpc s)"
proof -
  have a: "ack_inv (rpc s) (rdom s) (ack s)" and p: "pos (ack s) = k" using inv k by (simp_all add: hs_invs send_inv_def)
  then show "amax (rpc s) < k + m" "\<not> r_done (rpc s)" using wait by (auto simp: ack_inv_def avail_def)
qed

lemma data_complete:
  assumes inv: "hs_inv config img s" and len: "length config < 2 ^ 31"
    and pc: "spc s \<in> {S_Ready, S_Report, S_Status, S_Perm}" "spc s = S_Ready \<Longrightarrow> rpc s \<noteq> R_Go"
  shows "rpc s = R_Create \<Longrightarrow> load_config j j' (data s) \<noteq> None"
    "rpc s = R_Go \<Longrightarrow> migrate_read_fixedmessage migrate_permission_to_go (data s) \<noteq> None"
proof -
  have d: "eof (data s) \<or> written (data s) = dmax config img (spc s)"
    using inv by (auto simp: hs_invs data_inv_def)
  show "load_config j j' (data s) \<noteq> None" if "rpc s = R_Create"
  proof (cases "eof (data s)")
    case False
    have "pos (data s) = 0" using inv that by (simp add: hs_invs recv_inv_def)
    then have "\<exists>rest. avail (data s) = config_bytes config @ rest" using d False pc(1) by (auto simp: avail_def)
    then show ?thesis using load_config_bytes [OF len] by fastforce
  qed (rule load_config_no_wait)
  show "migrate_read_fixedmessage migrate_permission_to_go (data s) \<noteq> None" if "rpc s = R_Go"
  proof -
    have "pos (data s) = length (config_bytes config @ img)" using inv that by (simp add: hs_invs recv_inv_def)
    then show ?thesis using d pc that by (auto simp: message_waits avail_def)
  qed
qed

lemma sender_waiting:
  assumes inv: "hs_inv config img s" and len: "length config < 2 ^ 31" and al: "\<not> s_done (spc s)"
    and w: "\<not> can_move config img n s"
  obtains k m where "spc s \<in> {S_Banner, S_Ready, S_Report, S_Status, S_Perm}" "apos (spc s) = Some k"
    "length (avail (ack s)) < m" "\<not> eof (ack s)" "spc s = S_Banner \<longrightarrow> k + m = a1" "spc s = S_Ready \<longrightarrow> k + m = a2"
proof -
  have "(spc s = S_Banner \<and> migrate_read_fixedmessage migrate_receiver_banner (ack s) = None) \<or>
      (spc s = S_Ready \<and> migrate_read_fixedmessage migrate_receiver_ready (ack s) = None) \<or>
      (spc s = S_Report \<and> migrate_read_fixedmessage migrate_report (ack s) = None) \<or>
      (spc s = S_Status \<and> pipe_read 1 (ack s) = None) \<or>
      (spc s = S_Perm \<and> migrate_read_fixedmessage migrate_permission_to_go (ack s) = None)"
    using sender_moves [OF al] w by blast
  then show ?thesis
    using that [of 0 a1] that [of a1 "length migrate_receiver_ready"] that [of a2 "length migrate_report"] that [of a3 1]
      that [of a4 "length migrate_permission_to_go"] positions
    unfolding message_waits read_waits by (auto simp: a1_def a2_def a3_def a4_def a5_def)
qed

lemma hs_no_deadlock:
  assumes inv: "hs_inv config img s" and len: "length config < 2 ^ 31" and al: "\<not> s_done (spc s)"
  shows "can_move config img n s"
proof (rule ccontr)
  assume w: "\<not> ?thesis"
  obtain k m where pc: "spc s \<in> {S_Banner, S_Ready, S_Report, S_Status, S_Perm}" and k: "apos (spc s) = Some k"
    and wait: "length (avail (ack s)) < m" "\<not> eof (ack s)" and b: "spc s = S_Banner \<longrightarrow> k + m = a1"
    and r: "spc s = S_Ready \<longrightarrow> k + m = a2"
    by (rule sender_waiting [OF inv len al w])
  note a = waiting_ack [OF inv k wait]
  have st: "rpc s \<noteq> R_None" by (rule started [OF inv _ al]) (use pc in auto)
  show False
  proof (cases "spc s = S_Banner")
    case True
    then have "rpc s \<noteq> R_Create" "rpc s \<noteq> R_Go" using a(1) b positions by auto
    then show False using receiver_moves [OF a(2) st] w by blast
  next
    case False
    then have pc': "spc s \<in> {S_Ready, S_Report, S_Status, S_Perm}" using pc by blast
    have "spc s = S_Ready \<Longrightarrow> rpc s \<noteq> R_Go" using a(1) r by auto
    from receiver_moves [OF a(2) st data_complete [OF inv len pc' this]] w show False by blast
  qed
qed

lemma hs_no_deadlock_receiver:
  assumes inv: "hs_inv config img s" and "s_done (spc s)" "\<not> r_done (rpc s)" "rpc s \<noteq> R_None"
  shows "can_move config img n s"
proof -
  have e: "eof (data s)" using inv assms(2) by (auto simp: hs_invs data_inv_def)
  have "migrate_read_fixedmessage migrate_permission_to_go (data s) \<noteq> None" using e by (simp add: message_waits)
  with receiver_moves [OF assms(3,4) load_config_no_wait [OF e]] show ?thesis by blast
qed

section \<open>Properties\<close>

text \<open>C3: A migrated domain never runs at both ends. Whatever the two programs are told by their
  libraries, however their steps interleave, wherever the connection breaks and whenever one of
  them is killed, no reachable state has the domain running at the sender and at the receiver.
\<close>

theorem migration_never_both_running:
  assumes "hs_reach config img n s" "img \<noteq> []" "length config < 2 ^ 31"
  shows "\<not> (sdom s = Running \<and> rdom s = Running)"
  by (rule hs_inv_one [OF hs_reach_inv [OF assms]])

theorem migration_never_both_running_witness:
  "\<exists>s. hs_reach [7] [8, 9] 2 s \<and> rdom s = Running \<and> \<not> (sdom s = Running \<and> rdom s = Running)"
proof -
  obtain s where "hs_exec [7] [8, 9] 2 (good_schedule 100 2) hs_init = Some s" "rdom s = Running"
    using good_run [of "[7]" 100 "[8, 9]" 2] by auto
  then show ?thesis using hs_exec_reach migration_never_both_running [of "[7]" "[8, 9]" 2 s] by fastforce
qed

text \<open>C20: When the sender reports success, that is when it leaves with exit code 0, the domain runs at the
  receiver and not at the sender.
\<close>

theorem migration_success_means_moved:
  assumes "hs_reach config img n s" "img \<noteq> []" "length config < 2 ^ 31" "spc s = S_Exit 0"
  shows "rdom s = Running \<and> sdom s \<noteq> Running"
  using hs_reach_inv [OF assms(1-3)] assms(4) by (simp add: hs_invs send_inv_def)

theorem migration_success_means_moved_witness:
  "\<exists>s. hs_reach [7] [8, 9] 2 s \<and> spc s = S_Exit 0 \<and> rdom s = Running \<and> sdom s \<noteq> Running"
proof -
  obtain s where s: "hs_exec [7] [8, 9] 2 (good_schedule 100 2) hs_init = Some s" "spc s = S_Exit 0"
    using good_run [of "[7]" 100 "[8, 9]" 2] by auto
  then show ?thesis using migration_success_means_moved [OF hs_exec_reach [OF s(1)]] hs_exec_reach [OF s(1)] by auto
qed

text \<open>C21: The handshake has no deadlock. In every reachable state in which a program is still running,
  one of the two can make a step: they never both wait for a message that nobody is going to send.
\<close>

theorem migration_no_deadlock:
  assumes "hs_reach config img n s" "img \<noteq> []" "length config < 2 ^ 31" "s_alive s \<or> r_alive s"
  shows "can_move config img n s"
proof -
  note inv = hs_reach_inv [OF assms(1-3)]
  show ?thesis
  proof (cases "s_done (spc s)")
    case True
    then have "\<not> r_done (rpc s) \<and> rpc s \<noteq> R_None"
      using assms(4) by (cases "spc s"; cases "rpc s"; simp add: s_alive_def r_alive_def)
    then show ?thesis using hs_no_deadlock_receiver [OF inv True] by blast
  qed (rule hs_no_deadlock [OF inv assms(3)])
qed

theorem migration_no_deadlock_witness: "hs_reach [7] [8, 9] 2 hs_init \<and> can_move [7] [8, 9] 2 hs_init"
proof -
  have r: "hs_reach [7] [8, 9] 2 hs_init" by (simp add: hs_reach_def)
  moreover have "s_alive hs_init" by (simp add: s_alive_def hs_init_def)
  ultimately show ?thesis using migration_no_deadlock [OF r] by simp
qed



text \<open>C24: The configuration that the sender writes at the head of the stream is the configuration that
  the receiver loads, and exactly its bytes are taken from the pipe, so that the saved image follows.
\<close>

theorem config_roundtrip:
  assumes "length config < 2 ^ 31" "save_domain_core_writeconfig n m config p = (r, p')"
    and "avail p = []" "pos p \<le> length (written p)" "\<not> eof p'"
  shows "r = None \<and> load_config j j' (p'\<lparr>written := written p' @ rest\<rparr>) =
    Some (Inr config, p'\<lparr>written := written p' @ rest, pos := length (written p')\<rparr>)"
proof -
  note w = writeconfig_cases [OF assms(2)]
  have "pos p = length (written p)" using assms(3,4) by (simp add: avail_def)
  moreover have wr: "written p' = written p @ config_bytes config" using w(3) assms(5) by blast
  ultimately have "avail (p'\<lparr>written := written p' @ rest\<rparr>) = config_bytes config @ rest"
    using w(2) by (simp add: avail_def)
  from load_config_bytes [OF assms(1) this, of j j'] w(1,2) wr \<open>pos p = _\<close> show ?thesis
    by (simp add: config_bytes_length add.assoc)
qed

theorem config_roundtrip_witness:
  "load_config (\<lambda>_. 0) (\<lambda>_. 0) (pipe0\<lparr>written := config_bytes [65, 66] @ [1]\<rparr>) =
    Some (Inr [65, 66], pipe0\<lparr>written := config_bytes [65, 66] @ [1], pos := 54\<rparr>)"
proof -
  have "save_domain_core_writeconfig 100 100 [65, 66] pipe0 = (None, pipe0\<lparr>written := config_bytes [65, 66]\<rparr>)"
    by (subst writeconfig_all) (simp_all add: pipe0_def)
  from config_roundtrip [OF _ this, of "\<lambda>_. 0" "\<lambda>_. 0" "[1]"] show ?thesis
    by (simp add: pipe0_def avail_def config_bytes_length)
qed

text \<open>C25: A configuration that is cut off is not rejected. \<^verbatim>\<open>libxl_read_exactly\<close> reports the end of the
  stream by a positive error number and \<^verbatim>\<open>CHK_ERRNO\<close> looks for a negative one, so the receiver goes on
  with the part that arrived followed by whatever the memory held.
\<close>

theorem truncated_config_accepted:
  assumes "length config < 2 ^ 31" "k < length config" "avail p = take (52 + k) (config_bytes config)" "eof p"
  shows "\<exists>p'. load_config j j' p = Some (Inr (take k config @ map j' [4 + k..<4 + length config]), p')"
proof -
  let ?len = "4 + word_of_nat (length config) :: 32 word"
  let ?opt = "le32 (word_of_nat (length config)) @ config"
  obtain hdr where hdr: "config_header config = (hdr, ?opt)" "optional_data_len hdr = ?len" "magic hdr = savefileheader_magic"
      "byteorder hdr = SAVEFILE_BYTEORDER_VALUE" "mandatory_flags hdr = 0"
    by (simp add: config_header_eq)
  let ?h = "header_bytes hdr" and ?p = "p\<lparr>pos := pos p + 48\<rparr>" and ?o = "take (4 + k) ?opt"
  have h: "length ?h = 48" using hdr(3) by (simp add: header_bytes_length)
  have av: "avail p = ?h @ ?o" using assms(3) hdr(1) h by (simp add: config_bytes_def)
  have r1: "pipe_read 48 p = Some (0, ?h, ?p)" using av h by (simp add: pipe_read_def)
  have av': "avail ?p = ?o" using av h avail_pos [of 48 p] by simp
  note len = optlen_unat [OF assms(1)]
  have "\<not> unat ?len \<le> length ?o" using len(1) assms(2) by simp
  then obtain q where r2: "pipe_read (unat ?len) ?p = Some (EPROTO, ?o, q)"
    using av' assms(4) by (auto simp: pipe_read_def)
  have f: "header_of (fill j 48 ?h) = hdr" using h header_of_bytes [of hdr "[]"] hdr(3) by (simp add: fill_def)
  have g: "fill j' (unat ?len) ?o = le32 (word_of_nat (length config)) @ take k config @ map j' [4 + k..<4 + length config]"
    using len(1) assms(2) by (simp add: fill_def)
  have "with_optdata ?len (fill j' (unat ?len) ?o) = Inr (take k config @ map j' [4 + k..<4 + length config])"
    unfolding g using with_optdata_config [of "take k config @ map j' [4 + k..<4 + length config]"] assms(1,2) by simp
  then show ?thesis unfolding load_config_def r1 using f hdr r2 len(2) by (simp add: EPROTO_def)
qed

theorem truncated_config_accepted_witness:
  "\<exists>p'. load_config (\<lambda>_. 0) (\<lambda>_. 88) \<lparr>written = take 54 (config_bytes [65, 66, 67, 68]), pos = 0, eof = True\<rparr> =
    Some (Inr [65, 66, 88, 88], p')"
  using truncated_config_accepted [of "[65, 66, 67, 68]" 2
      "\<lparr>written = take 54 (config_bytes [65, 66, 67, 68]), pos = 0, eof = True\<rparr>" "\<lambda>_. 0" "\<lambda>_. 88"]
  by (simp add: avail_def upt_rec)

end
