(* ===== verification/Mig_Bitmap.thy ===== *)
theory Mig_Bitmap
  imports Xen_Prelude "HOL-Library.Monad_Syntax"
begin

text \<open>
  Small parts of the memory sender in \<^verbatim>\<open>tools/libxc/xc_domain_save.c\<close>: the bitmaps that say which pages are
  to be sent, the population count over them, and the output buffer of the checkpoint mode. None is an access
  beyond an array, or a call of \<^verbatim>\<open>write\<close> that does not return.
\<close>

unbundle bit_operations_syntax

section \<open>Bitmaps of pages\<close>

type_synonym bitmap = "ulong list"

definition test_bit :: "nat \<Rightarrow> bitmap \<Rightarrow> bool option" where
  "test_bit nr addr = (if nr div 64 < length addr then Some (drop_bit (nr mod 64) (addr ! (nr div 64)) AND 1 = 1) else None)"

definition clear_bit :: "nat \<Rightarrow> bitmap \<Rightarrow> bitmap option" where
  "clear_bit nr addr =
     (if nr div 64 < length addr then Some (addr[nr div 64 := addr ! (nr div 64) AND NOT (push_bit (nr mod 64) 1)]) else None)"

definition set_bit :: "nat \<Rightarrow> bitmap \<Rightarrow> bitmap option" where
  "set_bit nr addr =
     (if nr div 64 < length addr then Some (addr[nr div 64 := addr ! (nr div 64) OR push_bit (nr mod 64) 1]) else None)"

definition hweight32 :: "32 word \<Rightarrow> 32 word" where
  "hweight32 w =
     (let res = (w AND 0x55555555) + (drop_bit 1 w AND 0x55555555);
          res = (res AND 0x33333333) + (drop_bit 2 res AND 0x33333333);
          res = (res AND 0x0F0F0F0F) + (drop_bit 4 res AND 0x0F0F0F0F);
          res = (res AND 0x00FF00FF) + (drop_bit 8 res AND 0x00FF00FF)
      in (res AND 0x0000FFFF) + (drop_bit 16 res AND 0x0000FFFF))"

text \<open>The argument of \<^verbatim>\<open>hweight32\<close> is an \<^verbatim>\<open>unsigned int\<close>, the words of the bitmap are longs.\<close>

fun count_words :: "nat \<Rightarrow> bitmap \<Rightarrow> int option" where
  "count_words 0 p = Some 0"
| "count_words (Suc n) [] = None"
| "count_words (Suc n) (w # p) = do { c \<leftarrow> count_words n p; Some (uint (hweight32 (ucast w)) + c) }"

definition count_bits :: "nat \<Rightarrow> bitmap \<Rightarrow> int option" where
  "count_bits nr addr = count_words (nr div 64) addr"

section \<open>Counting in parallel\<close>

text \<open>
  The method of \<open>hweight32\<close>, for any field width: a number is a list of digits of \<open>k\<close> bits, and one
  step adds neighbouring digits into digits of twice the width.
\<close>

primrec digsum :: "nat \<Rightarrow> nat \<Rightarrow> nat \<Rightarrow> nat" where
  "digsum k 0 n = 0"
| "digsum k (Suc j) n = take_bit k n + digsum k j (drop_bit k n)"

primrec even_mask :: "nat \<Rightarrow> nat \<Rightarrow> nat" where
  "even_mask k 0 = 0"
| "even_mask k (Suc j) = mask k + 2 ^ (2 * k) * even_mask k j"

definition fold_step :: "nat \<Rightarrow> nat \<Rightarrow> nat \<Rightarrow> nat" where
  "fold_step k j n = (n AND even_mask k j) + (drop_bit k n AND even_mask k j)"

lemma and_split:
  "(a :: nat) AND b = (take_bit n a AND take_bit n b) + 2 ^ n * (drop_bit n a AND drop_bit n b)"
proof -
  have "a AND b = take_bit n (a AND b) + push_bit n (drop_bit n (a AND b))"
    by (metis add.commute bits_ident)
  then show ?thesis by (simp add: push_bit_eq_mult mult.commute)
qed

lemma and_even_mask_Suc:
  "n AND even_mask k (Suc j) = take_bit k n + 2 ^ (2 * k) * (drop_bit (2 * k) n AND even_mask k j)"
proof -
  have "(2 :: nat) ^ k \<le> 2 ^ (2 * k)" by simp
  then have m: "(mask k :: nat) < 2 ^ (2 * k)" unfolding mask_eq_exp_minus_1 by (rule order_less_le_trans [rotated]) simp
  have "take_bit (2 * k) (even_mask k (Suc j)) = mask k" "drop_bit (2 * k) (even_mask k (Suc j)) = even_mask k j"
    using m by (simp_all add: take_bit_eq_mod drop_bit_eq_div)
  then show ?thesis using and_split [of n "even_mask k (Suc j)" "2 * k"]
    by (simp add: take_bit_eq_mask [symmetric] min_def)
qed

lemma fold_step_Suc:
  "fold_step k (Suc j) n = take_bit k n + take_bit k (drop_bit k n) + 2 ^ (2 * k) * fold_step k j (drop_bit (2 * k) n)"
proof -
  have "drop_bit (2 * k) (drop_bit k n) = drop_bit k (drop_bit (2 * k) n)" by (simp add: add.commute)
  then show ?thesis by (simp add: fold_step_def and_even_mask_Suc algebra_simps del: even_mask.simps)
qed

lemma two_digits:
  assumes "0 < k"
  shows "take_bit k n + take_bit k (m :: nat) < 2 ^ (2 * k)"
proof -
  have "take_bit k n + take_bit k m < 2 ^ k + 2 ^ k" by (intro add_strict_mono) simp_all
  also have "\<dots> = 2 ^ (k + 1)" by simp
  also have "\<dots> \<le> 2 ^ (2 * k)" using assms by (intro power_increasing) auto
  finally show ?thesis .
qed

lemma fold_step_digsum: "0 < k \<Longrightarrow> digsum (2 * k) j (fold_step k j n) = digsum k (2 * j) n"
proof (induction j arbitrary: n)
  case (Suc j)
  let ?d = "take_bit k n + take_bit k (drop_bit k n)" and ?s = "fold_step k j (drop_bit (2 * k) n)"
  have d: "?d < 2 ^ (2 * k)" by (rule two_digits [OF Suc.prems])
  have "take_bit (2 * k) (fold_step k (Suc j) n) = ?d" "drop_bit (2 * k) (fold_step k (Suc j) n) = ?s"
    using d unfolding fold_step_Suc by (simp_all add: take_bit_eq_mod drop_bit_eq_div)
  then show ?case using Suc.IH [OF Suc.prems, of "drop_bit (2 * k) n"] by (simp add: mult_2)
qed simp

lemma fold_step_less: "0 < k \<Longrightarrow> fold_step k j n < 2 ^ (2 * k * j)"
proof (induction j arbitrary: n)
  case 0
  then show ?case by (simp add: fold_step_def)
next
  case (Suc j)
  let ?s = "fold_step k j (drop_bit (2 * k) n)"
  have "?s + 1 \<le> 2 ^ (2 * k * j)" using Suc.IH [OF Suc.prems, of "drop_bit (2 * k) n"] by simp
  then have "2 ^ (2 * k) * (?s + 1) \<le> 2 ^ (2 * k) * 2 ^ (2 * k * j)" by (rule mult_le_mono2)
  also have "\<dots> = 2 ^ (2 * k * Suc j)" by (simp flip: power_add)
  finally show ?case using two_digits [OF Suc.prems, of n "drop_bit k n"] unfolding fold_step_Suc by (simp add: algebra_simps)
qed

text \<open>One step on machine words.\<close>

lemma fold_step_word:
  fixes w m :: "32 word"
  assumes "unat m = even_mask k j" "2 * k * j = 32" "0 < k"
  shows "unat ((w AND m) + (drop_bit k w AND m)) = fold_step k j (unat w)"
proof -
  have "unat w < 2 ^ 32" by (rule order_less_le_trans [OF unsigned_less]) simp
  then have "take_bit 32 (unat w) = unat w" by (rule take_bit_nat_eq_self)
  then have "unat (w AND m) + unat (drop_bit k w AND m) = fold_step k j (unat w)"
    using assms(1) by (simp add: fold_step_def unsigned_and_eq unsigned_drop_bit_eq)
  moreover from this have "unat (w AND m) + unat (drop_bit k w AND m) < 2 ^ 32" using fold_step_less [OF assms(3), of j "unat w"] assms(2) by simp
  ultimately show ?thesis by (simp add: unat_word_ariths)
qed

lemma even_mask_numeral: "even_mask k (numeral j) = mask k + 2 ^ (2 * k) * even_mask k (pred_numeral j)"
  by (simp add: numeral_eq_Suc)

lemma even_masks:
  "unat (0x55555555 :: 32 word) = even_mask 1 16" "unat (0x33333333 :: 32 word) = even_mask 2 8"
  "unat (0x0F0F0F0F :: 32 word) = even_mask 4 4" "unat (0x00FF00FF :: 32 word) = even_mask 8 2"
  "unat (0x0000FFFF :: 32 word) = even_mask 16 1"
  by (simp_all add: even_mask_numeral mask_eq_exp_minus_1)

definition popcount :: "'a::len word \<Rightarrow> nat" where
  "popcount w = length (filter (bit w) [0..<LENGTH('a)])"

lemma digsum_bits: "digsum 1 j n = length (filter (bit n) [0..<j])"
proof (induction j arbitrary: n)
  case (Suc j)
  have "filter (bit n) [0..<Suc j] = filter (bit n) (0 # map Suc [0..<j])" by (simp only: upt_conv_Cons map_Suc_upt zero_less_Suc)
  then have "length (filter (bit n) [0..<Suc j]) = of_bool (odd n) + length (filter (bit (drop_bit 1 n)) [0..<j])"
    by (simp add: filter_map comp_def bit_drop_bit_eq bit_0)
  then show ?case using Suc by (simp add: take_bit_eq_mod mod2_eq_if)
qed simp

lemma hweight32_popcount: "unat (hweight32 w) = popcount w"
proof -
  define r1 where r1: "r1 = (w AND 0x55555555) + (drop_bit 1 w AND 0x55555555)"
  define r2 where r2: "r2 = (r1 AND 0x33333333) + (drop_bit 2 r1 AND 0x33333333)"
  define r3 where r3: "r3 = (r2 AND 0x0F0F0F0F) + (drop_bit 4 r2 AND 0x0F0F0F0F)"
  define r4 where r4: "r4 = (r3 AND 0x00FF00FF) + (drop_bit 8 r3 AND 0x00FF00FF)"
  define r5 where r5: "r5 = (r4 AND 0x0000FFFF) + (drop_bit 16 r4 AND 0x0000FFFF)"
  have u: "unat r1 = fold_step 1 16 (unat w)" "unat r2 = fold_step 2 8 (unat r1)" "unat r3 = fold_step 4 4 (unat r2)"
    "unat r4 = fold_step 8 2 (unat r3)" "unat r5 = fold_step 16 1 (unat r4)"
    unfolding r1 r2 r3 r4 r5 by (rule fold_step_word [OF even_masks(1)] fold_step_word [OF even_masks(2)]
      fold_step_word [OF even_masks(3)] fold_step_word [OF even_masks(4)] fold_step_word [OF even_masks(5)]; simp)+
  have "digsum 32 1 (unat r5) = digsum 1 32 (unat w)"
    using fold_step_digsum [of 1 16 "unat w"] fold_step_digsum [of 2 8 "unat r1"] fold_step_digsum [of 4 4 "unat r2"]
      fold_step_digsum [of 8 2 "unat r3"] fold_step_digsum [of 16 1 "unat r4"] unfolding u [symmetric] by simp
  moreover have "unat r5 < 2 ^ 32" by (rule order_less_le_trans [OF unsigned_less]) simp
  ultimately have "unat r5 = length (filter (bit (unat w)) [0..<32])" using digsum_bits [of 32 "unat w"]
    by (simp add: take_bit_nat_eq_self)
  moreover have "hweight32 w = r5" by (simp add: hweight32_def Let_def r1 r2 r3 r4 r5)
  moreover have "filter (bit (unat w)) [0..<32] = filter (bit w) [0..<32]" by (rule filter_cong) (simp_all add: bit_unsigned_iff)
  ultimately show ?thesis by (simp add: popcount_def)
qed

section \<open>What is counted\<close>

lemma test_bit_iff: "nr div 64 < length bm \<Longrightarrow> test_bit nr bm = Some (bit (bm ! (nr div 64)) (nr mod 64))"
  by (simp add: test_bit_def bit_iff_odd_drop_bit and_one_eq odd_iff_mod_2_eq_one)

lemma set_clear_test:
  assumes "nr div 64 < length bm"
  shows "\<exists>bm'. set_bit nr bm = Some bm' \<and> length bm' = length bm \<and>
      (\<forall>i. i div 64 < length bm \<longrightarrow> test_bit i bm' = (if i = nr then Some True else test_bit i bm))"
    "\<exists>bm'. clear_bit nr bm = Some bm' \<and> length bm' = length bm \<and>
      (\<forall>i. i div 64 < length bm \<longrightarrow> test_bit i bm' = (if i = nr then Some False else test_bit i bm))"
proof -
  have e: "i = nr \<longleftrightarrow> i div 64 = nr div 64 \<and> i mod 64 = nr mod 64" for i by (metis div_mult_mod_eq)
  have m: "i mod 64 < 64" for i :: nat by simp
  show "\<exists>bm'. set_bit nr bm = Some bm' \<and> length bm' = length bm \<and>
      (\<forall>i. i div 64 < length bm \<longrightarrow> test_bit i bm' = (if i = nr then Some True else test_bit i bm))"
    using assms m by (auto simp: set_bit_def test_bit_iff nth_list_update bit_simps e)
  show "\<exists>bm'. clear_bit nr bm = Some bm' \<and> length bm' = length bm \<and>
      (\<forall>i. i div 64 < length bm \<longrightarrow> test_bit i bm' = (if i = nr then Some False else test_bit i bm))"
    using assms m by (auto simp: clear_bit_def test_bit_iff nth_list_update bit_simps e)
qed

text \<open>Only the lower half of every word is looked at.\<close>

lemma popcount_low:
  fixes w :: ulong
  shows "popcount (ucast w :: 32 word) = card {i. i < 32 \<and> bit w i}"
proof -
  have "popcount (ucast w :: 32 word) = card (set (filter (bit (ucast w :: 32 word)) [0..<32]))"
    unfolding popcount_def by (subst distinct_card) simp_all
  also have "set (filter (bit (ucast w :: 32 word)) [0..<32]) = {i. i < 32 \<and> bit w i}"
    by (auto simp: bit_unsigned_iff)
  finally show ?thesis .
qed

lemma count_words_bits:
  "n \<le> length bm \<Longrightarrow> count_words n bm = Some (int (\<Sum>j<n. card {i. i < 32 \<and> bit (bm ! j) i}))"
proof (induction n bm rule: count_words.induct)
  case (3 n w p)
  have "(\<Sum>j<Suc n. card {i. i < 32 \<and> bit ((w # p) ! j) i}) = card {i. i < 32 \<and> bit w i} + (\<Sum>j<n. card {i. i < 32 \<and> bit (p ! j) i})"
    by (simp only: sum.lessThan_Suc_shift) simp
  moreover have "uint (hweight32 (ucast w)) = int (card {i. i < 32 \<and> bit w i})"
    using hweight32_popcount [of "ucast w"] popcount_low [of w] by (metis of_nat_unat)
  ultimately show ?case using 3 by simp
qed simp_all

lemma card_low_bits:
  assumes "n \<le> length bm"
  shows "card {i. i < 64 * n \<and> i mod 64 < 32 \<and> test_bit i bm = Some True} = (\<Sum>j<n. card {i. i < 32 \<and> bit (bm ! j) i})"
proof -
  let ?S = "\<lambda>j. (\<lambda>i. 64 * j + i) ` {i. i < 32 \<and> bit (bm ! j) i}"
  have "{i. i < 64 * n \<and> i mod 64 < 32 \<and> test_bit i bm = Some True} = (\<Union>j<n. ?S j)"
  proof (intro subset_antisym subsetI)
    fix i assume "i \<in> {i. i < 64 * n \<and> i mod 64 < 32 \<and> test_bit i bm = Some True}"
    then have i: "i div 64 < n" "i mod 64 < 32" "bit (bm ! (i div 64)) (i mod 64)"
      using assms test_bit_iff [of i bm] by (auto simp: less_mult_imp_div_less)
    then have "i \<in> ?S (i div 64)" by (intro image_eqI [of _ _ "i mod 64"]) auto
    then show "i \<in> (\<Union>j<n. ?S j)" using i(1) by blast
  next
    fix i assume "i \<in> (\<Union>j<n. ?S j)"
    then obtain j k where "j < n" "i = 64 * j + k" "k < 32" "bit (bm ! j) k" by auto
    then show "i \<in> {i. i < 64 * n \<and> i mod 64 < 32 \<and> test_bit i bm = Some True}"
      using assms test_bit_iff [of i bm] by auto
  qed
  also have "card \<dots> = (\<Sum>j<n. card (?S j))"
    by (rule card_UN_disjoint) auto
  also have "\<dots> = (\<Sum>j<n. card {i. i < 32 \<and> bit (bm ! j) i})"
    by (rule sum.cong) (simp_all add: card_image inj_on_def)
  finally show ?thesis .
qed

text \<open>C40: The bit-parallel population count of \<open>hweight32\<close> is the number of set bits of its argument, for all
  words of 32 bits. The count of a page bitmap built on it takes only the lower half of every word of 64
  bits: \<open>count_bits\<close> is the number of pages in the bitmap whose number modulo 64 is below 32, and it leaves out
  the last, incomplete word.
\<close>

theorem count_bits_low_halves:
  assumes "nr div 64 \<le> length bm"
  shows "(\<forall>w. unat (hweight32 w) = popcount w) \<and>
    count_bits nr bm = Some (int (card {i. i < 64 * (nr div 64) \<and> i mod 64 < 32 \<and> test_bit i bm = Some True}))"
  using hweight32_popcount count_words_bits [OF assms] card_low_bits [OF assms] by (simp add: count_bits_def)

theorem count_bits_low_halves_witness:
  "count_bits 64 [0x100000003] = Some (int (card {i. i < 64 \<and> i mod 64 < 32 \<and> test_bit i [0x100000003] = Some True}))"
  using count_bits_low_halves [of 64 "[0x100000003]"] by simp

section \<open>Buffered output\<close>

record outbuf =
  ob_buf :: "byte list"
  ob_size :: nat

text \<open>
  \<^verbatim>\<open>outbuf\<close>: the bytes below \<^verbatim>\<open>pos\<close> and the capacity. The file descriptor is the list of bytes written to it;
  the answers of \<^verbatim>\<open>write\<close> come from a list.
\<close>

definition outbuf_init :: "bool \<Rightarrow> nat \<Rightarrow> (int \<times> outbuf)" where
  "outbuf_init malloc_ok sz =
     (if \<not> malloc_ok then (- 1, \<lparr>ob_buf = [], ob_size = 0\<rparr>) else (0, \<lparr>ob_buf = [], ob_size = sz\<rparr>))"

definition outbuf_write :: "outbuf \<Rightarrow> byte list \<Rightarrow> int \<times> outbuf" where
  "outbuf_write ob data =
     (if length data > ob_size ob - length (ob_buf ob) then (- 1, ob)
      else (0, ob\<lparr>ob_buf := ob_buf ob @ data\<rparr>))"

datatype wres = Wrote nat | Again | Werr

text \<open>The loop of \<^verbatim>\<open>outbuf_flush\<close>: \<open>cur\<close> bytes have gone out; None is a call of \<^verbatim>\<open>write\<close> that does not return.\<close>

fun flush_loop :: "wres list \<Rightarrow> byte list \<Rightarrow> nat \<Rightarrow> byte list \<Rightarrow> (int \<times> byte list) option" where
  "flush_loop [] buf cur fd = None"
| "flush_loop (Again # ws) buf cur fd = flush_loop ws buf cur fd"
| "flush_loop (Werr # ws) buf cur fd = Some (- 1, fd)"
| "flush_loop (Wrote n # ws) buf cur fd =
     (let n = min n (length buf - cur); fd = fd @ take n (drop cur buf)
      in if cur + n < length buf then flush_loop ws buf (cur + n) fd else Some (0, fd))"

definition outbuf_flush :: "wres list \<Rightarrow> outbuf \<Rightarrow> byte list \<Rightarrow> (int \<times> outbuf \<times> byte list) option" where
  "outbuf_flush ws ob fd =
     (if ob_buf ob = [] then Some (0, ob, fd)
      else do {
        (rc, fd) \<leftarrow> flush_loop ws (ob_buf ob) 0 fd;
        if rc < 0 then Some (- 1, ob, fd) else Some (0, ob\<lparr>ob_buf := []\<rparr>, fd)
      })"

definition outbuf_hardwrite :: "wres list \<Rightarrow> outbuf \<Rightarrow> byte list \<Rightarrow> byte list \<Rightarrow> (int \<times> outbuf \<times> byte list) option" where
  "outbuf_hardwrite ws ob fd data =
     (if data = [] then Some (0, ob, fd)
      else let (rc, ob') = outbuf_write ob data
           in if rc = 0 then Some (0, ob', fd)
              else do {
                (rc, ob, fd) \<leftarrow> outbuf_flush ws ob fd;
                if rc < 0 then Some (- 1, ob, fd)
                else let (rc, ob) = outbuf_write ob data in Some (rc, ob, fd)
              })"

definition outbuf_ok :: "outbuf \<Rightarrow> bool" where
  "outbuf_ok ob \<longleftrightarrow> length (ob_buf ob) \<le> ob_size ob"

lemma flush_loop_all:
  assumes "flush_loop ws buf cur fd = Some (rc, fd')" "0 \<le> rc" "cur \<le> length buf"
  shows "fd' = fd @ drop cur buf"
  using assms
proof (induction ws buf cur fd rule: flush_loop.induct)
  case (4 n ws buf cur fd)
  define k where k: "k = min n (length buf - cur)"
  have s: "take k (drop cur buf) @ drop (cur + k) buf = drop cur buf"
    by (metis add.commute append_take_drop_id drop_drop)
  show ?case
  proof (cases "cur + k < length buf")
    case True
    then have "fd' = (fd @ take k (drop cur buf)) @ drop (cur + k) buf"
      using 4 by (simp add: Let_def flip: k)
    then show ?thesis using s by simp
  next
    case False
    then have "fd' = fd @ take k (drop cur buf)" "drop (cur + k) buf = []" using 4 by (auto simp: Let_def simp flip: k)
    then show ?thesis using s by simp
  qed
qed auto

text \<open>Nothing is lost or reordered: what is on the descriptor followed by what is buffered grows by the new data.\<close>

lemma outbuf_hardwrite_stream:
  assumes "outbuf_hardwrite ws ob fd data = Some (0, ob', fd')" "outbuf_ok ob"
  shows "fd' @ ob_buf ob' = fd @ ob_buf ob @ data \<and> outbuf_ok ob'"
  using assms flush_loop_all [of ws "ob_buf ob" 0 fd]
  by (auto simp: outbuf_hardwrite_def outbuf_write_def outbuf_flush_def outbuf_ok_def Let_def bind_eq_Some_conv not_less split: if_splits)

lemma outbuf_hardwrite_fails:
  assumes "outbuf_hardwrite ws ob fd data = Some (rc, ob', fd')" "rc \<noteq> 0" "Werr \<notin> set ws"
  shows "ob_size ob < length data"
proof -
  have "rc' = 0" if "flush_loop ws buf cur fd = Some (rc', fd'')" for rc' buf cur fd fd''
    using that assms(3) by (induction ws buf cur fd rule: flush_loop.induct) (auto simp: Let_def split: if_splits)
  then show ?thesis using assms(1,2)
    by (fastforce simp: outbuf_hardwrite_def outbuf_write_def outbuf_flush_def Let_def bind_eq_Some_conv split: if_splits)
qed

end
