(* ===== verification/Mig_Ssl.thy ===== *)
theory Mig_Ssl
  imports Mig_Stream
begin

text \<open>
  The readers of \<^verbatim>\<open>tools/libxc/xc_domain_restore.c\<close> (\<^verbatim>\<open>rdexact\<close>, \<^verbatim>\<open>mc_rdexact\<close>, \<^verbatim>\<open>ssl_rdexact\<close>), the writers of
  \<^verbatim>\<open>tools/libxc/xc_domain_save.c\<close> (\<^verbatim>\<open>ssl_wrexact\<close>, \<^verbatim>\<open>ssl_ratewrite\<close>) and \<^verbatim>\<open>tools/libxc/mc_ssl/mc_ssl.c\<close>. Every migration thread
  has a connection of its own, on which all data is padded to whole cipher blocks and encrypted. The cipher of
  OpenSSL is a parameter; \<open>cipher_pair\<close> says what the two ends rely on. The lemmas show that data put in at one end
  comes out at the other and that the two cipher states stay in step, for any pieces in which it is written and read.
\<close>

unbundle bit_operations_syntax

section \<open>Exact reads of the restorer\<close>

text \<open>
  \<^verbatim>\<open>rdexact\<close> with the answers of \<^verbatim>\<open>read\<close> from a list, as in \<^verbatim>\<open>libxl_read_exactly\<close>. Once a consistent image
  is there (\<open>completed\<close>) a read that would wait gives up after the heartbeat. None is a call that waits.
\<close>

fun rdexact :: "bool \<Rightarrow> sysres list \<Rightarrow> pipe \<Rightarrow> nat \<Rightarrow> byte list \<Rightarrow> (int \<times> byte list \<times> pipe) option" where
  "rdexact completed rs p 0 data = Some (0, data, p)"
| "rdexact completed [] p (Suc sz) data = None"
| "rdexact completed (Interrupted # rs) p (Suc sz) data = rdexact completed rs p (Suc sz) data"
| "rdexact completed (Failed e # rs) p (Suc sz) data = Some (- 1, data, p)"
| "rdexact completed (Chunk n # rs) p (Suc sz) data =
     (let got = min (max 1 n) (min (Suc sz) (length (avail p)))
      in if got = 0 then if eof p \<or> completed then Some (- 1, data, p) else None
         else rdexact completed rs (p\<lparr>pos := pos p + got\<rparr>) (Suc sz - got) (data @ take got (avail p)))"

text \<open>
  \<^verbatim>\<open>mc_rdexact\<close>, in which the checks of the result are commented out: at the end of the stream it asks again, and
  the result -1 of a failed read is added to the offset, an unsigned number. The state is the offset; \<open>buf\<close>
  holds the bytes that have been stored, by offset.
\<close>

fun mc_rdexact :: "bool \<Rightarrow> sysres list \<Rightarrow> pipe \<Rightarrow> ulong \<Rightarrow> ulong \<Rightarrow> (ulong \<Rightarrow> byte) \<Rightarrow> (int \<times> (ulong \<Rightarrow> byte) \<times> pipe) option" where
  "mc_rdexact completed rs p sz offset buf =
     (if \<not> offset < sz then Some (0, buf, p)
      else case rs of
        [] \<Rightarrow> None
      | Interrupted # rs \<Rightarrow> mc_rdexact completed rs p sz offset buf
      | Failed e # rs \<Rightarrow> mc_rdexact completed rs p sz (offset - 1) buf
      | Chunk n # rs \<Rightarrow>
          let got = min (max 1 n) (min (unat (sz - offset)) (length (avail p)))
          in if got = 0 then if eof p then mc_rdexact completed rs p sz offset buf
                             else if completed then Some (- 1, buf, p) else None
             else mc_rdexact completed rs (p\<lparr>pos := pos p + got\<rparr>) sz (offset + of_nat got)
                    (\<lambda>a. if unat (a - offset) < got then avail p ! unat (a - offset) else buf a))"

declare mc_rdexact.simps [simp del]

text \<open>The same reads, seen from outside.\<close>

definition pipe_rdexact :: "bool \<Rightarrow> nat \<Rightarrow> pipe \<Rightarrow> (int \<times> byte list \<times> pipe) option" where
  "pipe_rdexact completed sz p =
     (if sz \<le> length (avail p) then Some (0, take sz (avail p), p\<lparr>pos := pos p + sz\<rparr>)
      else if eof p \<or> completed then Some (- 1, avail p, p\<lparr>pos := pos p + length (avail p)\<rparr>)
      else None)"

lemma pipe_rdexact_split:
  assumes "n \<le> sz" "n \<le> length (avail p)" "pipe_rdexact c (sz - n) (p\<lparr>pos := pos p + n\<rparr>) = Some (rc, d, p')"
  shows "pipe_rdexact c sz p = Some (rc, take n (avail p) @ d, p')"
proof -
  have a: "avail (p\<lparr>pos := pos p + n\<rparr>) = drop n (avail p)" by (rule avail_pos [OF assms(2)])
  have "take n (avail p) @ take (sz - n) (drop n (avail p)) = take sz (avail p)"
    using assms(1) by (metis le_add_diff_inverse take_add)
  then show ?thesis using assms by (auto simp: pipe_rdexact_def a split: if_splits)
qed

lemma rdexact_pipe:
  assumes "rdexact c rs p sz data = Some (rc, data', p')" "\<forall>e. Failed e \<notin> set rs"
  shows "\<exists>d. pipe_rdexact c sz p = Some (rc, d, p') \<and> data' = data @ d"
  using assms
proof (induction c rs p sz data rule: rdexact.induct)
  case (5 c n rs p sz data)
  define got where got: "got = min (max 1 n) (min (Suc sz) (length (avail p)))"
  show ?case
  proof (cases "got = 0")
    case True
    then have "avail p = []" by (auto simp: got min_def split: if_splits)
    then show ?thesis using "5.prems" by (auto simp: pipe_rdexact_def Let_def split: if_splits)
  next
    case False
    have g: "got \<le> length (avail p)" "got \<le> Suc sz" by (auto simp: got)
    have "rdexact c rs (p\<lparr>pos := pos p + got\<rparr>) (Suc sz - got) (data @ take got (avail p)) = Some (rc, data', p')"
      using "5.prems"(1) False unfolding rdexact.simps Let_def got [symmetric] by simp
    then obtain d where d: "pipe_rdexact c (Suc sz - got) (p\<lparr>pos := pos p + got\<rparr>) = Some (rc, d, p')"
      "data' = data @ take got (avail p) @ d"
      using "5.IH" [OF got False] "5.prems"(2) by auto
    then show ?thesis using pipe_rdexact_split [OF g(2,1) d(1)] by simp
  qed
qed (auto simp: pipe_rdexact_def)

text \<open>At the end of the stream the variant without checks never returns, whatever \<^verbatim>\<open>read\<close> answers.\<close>

lemma mc_rdexact_eof:
  assumes "offset < sz" "eof p" "avail p = []" "\<forall>e. Failed e \<notin> set rs"
  shows "mc_rdexact c rs p sz offset buf = None"
  using assms
proof (induction rs)
  case Nil
  then show ?case by (subst mc_rdexact.simps) simp
next
  case (Cons r rs)
  then have "mc_rdexact c rs p sz offset buf = None" by simp
  with Cons.prems show ?case by (subst mc_rdexact.simps) (auto split: sysres.splits simp: Let_def)
qed

section \<open>The encrypted connection\<close>

text \<open>
  \<^verbatim>\<open>struct ssl_wrap\<close>: the cipher's state and the buffer, whose length is \<^verbatim>\<open>ssl_buf_len\<close>. The cipher itself,
  \<^verbatim>\<open>EVP_Cipher\<close> of OpenSSL, is a parameter: it takes its state and a multiple of the block size to the
  output and its next state. The connections use \<^verbatim>\<open>aes128-cbc\<close>. \<open>junk\<close> is the contents of fresh memory.
\<close>

record 'c ssl_wrap =
  cc :: 'c
  ssl_buf :: "byte list"

type_synonym 'c crypt = "'c \<Rightarrow> byte list \<Rightarrow> byte list \<times> 'c"

definition block_size :: nat where
  "block_size = 16"

definition cipher_pad :: "nat \<Rightarrow> nat" where
  "cipher_pad n = (n div block_size + 1) * block_size"

definition grow_buf :: "(nat \<Rightarrow> byte) \<Rightarrow> nat \<Rightarrow> 'c ssl_wrap \<Rightarrow> 'c ssl_wrap" where
  "grow_buf junk n ssl =
     (if length (ssl_buf ssl) < n then ssl\<lparr>ssl_buf := fill junk n (ssl_buf ssl)\<rparr> else ssl)"

text \<open>\<^verbatim>\<open>cipher_crypt\<close> into the buffer; None is a write beyond its end.\<close>

definition crypt_into :: "'c crypt \<Rightarrow> 'c ssl_wrap \<Rightarrow> byte list \<Rightarrow> 'c ssl_wrap option" where
  "crypt_into crypt ssl buf =
     (let (out, c) = crypt (cc ssl) buf
      in if length (ssl_buf ssl) < length out then None
         else Some (ssl\<lparr>cc := c, ssl_buf := out @ drop (length out) (ssl_buf ssl)\<rparr>))"

definition ssl_encrypt :: "'c crypt \<Rightarrow> (nat \<Rightarrow> byte) \<Rightarrow> 'c ssl_wrap \<Rightarrow> byte list \<Rightarrow> (nat \<times> 'c ssl_wrap) option" where
  "ssl_encrypt crypt junk ssl data =
     (let n = length data
      in if n < block_size
         then do { ssl \<leftarrow> crypt_into crypt ssl (data @ replicate (block_size - n) 0); Some (block_size, ssl) }
         else if n mod block_size \<noteq> 0
         then do { ssl \<leftarrow> crypt_into crypt ssl (fill junk (cipher_pad n) data); Some (cipher_pad n, ssl) }
         else do { ssl \<leftarrow> crypt_into crypt (grow_buf junk n ssl) data; Some (n, ssl) })"

definition read_size_adjust :: "(nat \<Rightarrow> byte) \<Rightarrow> 'c ssl_wrap \<Rightarrow> nat \<Rightarrow> nat \<times> 'c ssl_wrap" where
  "read_size_adjust junk ssl n =
     (if n < block_size then (block_size, ssl)
      else if n mod block_size \<noteq> 0 then (cipher_pad n, ssl)
      else (n, grow_buf junk n ssl))"

text \<open>\<^verbatim>\<open>ssl_decrypt\<close>: the first \<open>ori_size\<close> bytes of the decrypted buffer.\<close>

definition ssl_decrypt :: "'c crypt \<Rightarrow> 'c ssl_wrap \<Rightarrow> nat \<Rightarrow> nat \<Rightarrow> byte list \<times> 'c ssl_wrap" where
  "ssl_decrypt crypt ssl new_size ori_size =
     (let (out, c) = crypt (cc ssl) (take new_size (ssl_buf ssl))
      in (if new_size = block_size \<or> ori_size \<noteq> new_size then take ori_size out else out, ssl\<lparr>cc := c\<rparr>))"

text \<open>
  Reading through the cipher: \<^verbatim>\<open>ssl_rdexact\<close>, which drops the result of \<^verbatim>\<open>RDEXACT\<close>, and \<^verbatim>\<open>ssl_read\<close>, which makes one
  call of \<^verbatim>\<open>read\<close> and drops its result too. What was not read stays in the buffer as it was.
\<close>

definition store_buf :: "'c ssl_wrap \<Rightarrow> byte list \<Rightarrow> 'c ssl_wrap" where
  "store_buf ssl d = ssl\<lparr>ssl_buf := d @ drop (length d) (ssl_buf ssl)\<rparr>"

definition ssl_rdexact ::
    "'c crypt \<Rightarrow> (nat \<Rightarrow> byte) \<Rightarrow> bool \<Rightarrow> nat \<Rightarrow> 'c ssl_wrap \<times> pipe \<Rightarrow> (byte list \<times> 'c ssl_wrap \<times> pipe) option" where
  "ssl_rdexact crypt junk completed n = (\<lambda>(ssl, p).
     let (new_size, ssl) = read_size_adjust junk ssl n
     in if length (ssl_buf ssl) < new_size then None
        else do {
          (rc, d, p) \<leftarrow> pipe_rdexact completed new_size p;
          let (data, ssl) = ssl_decrypt crypt (store_buf ssl d) new_size n;
          Some (data, ssl, p)
        })"

definition ssl_read ::
    "'c crypt \<Rightarrow> (nat \<Rightarrow> byte) \<Rightarrow> sysres \<Rightarrow> nat \<Rightarrow> 'c ssl_wrap \<times> pipe \<Rightarrow> (byte list \<times> int \<times> 'c ssl_wrap \<times> pipe) option" where
  "ssl_read crypt junk r n = (\<lambda>(ssl, p).
     let (new_size, ssl) = read_size_adjust junk ssl n
     in if length (ssl_buf ssl) < new_size then None
        else do {
          d \<leftarrow> (case r of
                  Chunk k \<Rightarrow> if avail p = [] \<and> \<not> eof p then None else Some (take (min (max 1 k) new_size) (avail p))
                | _ \<Rightarrow> Some []);
          let (data, ssl) = ssl_decrypt crypt (store_buf ssl d) new_size n;
          Some (data, int n, ssl, p\<lparr>pos := pos p + length d\<rparr>)
        })"

text \<open>
  Writing: \<^verbatim>\<open>ssl_wrexact\<close>, \<^verbatim>\<open>ssl_ratewrite\<close> and \<^verbatim>\<open>ssl_write\<close> drop the result of the write. The connection carries
  \<open>lim\<close> bytes in all before it breaks.
\<close>

definition ssl_put ::
    "'c crypt \<Rightarrow> (nat \<Rightarrow> byte) \<Rightarrow> nat \<Rightarrow> byte list \<Rightarrow> 'c ssl_wrap \<times> pipe \<Rightarrow> (nat \<times> 'c ssl_wrap \<times> pipe) option" where
  "ssl_put crypt junk lim data = (\<lambda>(ssl, p). do {
     (n, ssl) \<leftarrow> ssl_encrypt crypt junk ssl data;
     let (rc, p) = pipe_write (lim - length (written p)) (take n (ssl_buf ssl)) p;
     Some (n, ssl, p)
   })"

definition ssl_wrexact ::
    "'c crypt \<Rightarrow> (nat \<Rightarrow> byte) \<Rightarrow> nat \<Rightarrow> byte list \<Rightarrow> 'c ssl_wrap \<times> pipe \<Rightarrow> (int \<times> 'c ssl_wrap \<times> pipe) option" where
  "ssl_wrexact crypt junk lim data s = do { (n, s) \<leftarrow> ssl_put crypt junk lim data s; Some (0, s) }"

definition ssl_ratewrite ::
    "'c crypt \<Rightarrow> (nat \<Rightarrow> byte) \<Rightarrow> nat \<Rightarrow> byte list \<Rightarrow> 'c ssl_wrap \<times> pipe \<Rightarrow> (nat \<times> 'c ssl_wrap \<times> pipe) option" where
  "ssl_ratewrite crypt junk lim data s = ssl_put crypt junk lim data s"

section \<open>What the cipher promises\<close>

text \<open>
  The two ends of a connection hold cipher states in step (\<open>sync\<close>): what one end encrypts in whole blocks the
  other decrypts, the states stay in step, and a long input may be decrypted in pieces.
\<close>

definition cipher_pair :: "('c \<Rightarrow> 'd \<Rightarrow> bool) \<Rightarrow> 'c crypt \<Rightarrow> 'd crypt \<Rightarrow> bool" where
  "cipher_pair sync enc dec \<longleftrightarrow>
     (\<forall>c d x. sync c d \<and> block_size dvd length x \<longrightarrow>
        length (fst (enc c x)) = length x \<and> fst (dec d (fst (enc c x))) = x \<and> sync (snd (enc c x)) (snd (dec d (fst (enc c x))))) \<and>
     (\<forall>d. dec d [] = ([], d)) \<and>
     (\<forall>d x. block_size dvd length x \<longrightarrow> length (fst (dec d x)) = length x) \<and>
     (\<forall>d x y. block_size dvd length x \<and> block_size dvd length y \<longrightarrow>
        dec d (x @ y) = (fst (dec d x) @ fst (dec (snd (dec d x)) y), snd (dec (snd (dec d x)) y)))"

definition pad_size :: "nat \<Rightarrow> nat" where
  "pad_size n = (if n < block_size then block_size else if n mod block_size \<noteq> 0 then cipher_pad n else n)"

text \<open>The buffer is long enough for data of length \<open>n\<close>: it always is for whole blocks, which make it grow.\<close>

definition buf_ok :: "nat \<Rightarrow> 'c ssl_wrap \<Rightarrow> bool" where
  "buf_ok n ssl \<longleftrightarrow> block_size \<le> length (ssl_buf ssl) \<and> (block_size dvd n \<or> pad_size n \<le> length (ssl_buf ssl))"

lemma pad_size_dvd: "block_size dvd pad_size n"
  by (auto simp: pad_size_def cipher_pad_def)

lemma pad_size_ge: "n \<le> pad_size n"
proof -
  have "n < (n div 16 + 1) * 16" by presburger
  then show ?thesis by (auto simp: pad_size_def cipher_pad_def block_size_def)
qed

lemma pad_size_whole: "block_size dvd n \<Longrightarrow> 0 < n \<Longrightarrow> pad_size n = n"
  by (auto simp: pad_size_def dvd_imp_le leD)

text \<open>The bytes that go through the cipher for some data: the data and padding.\<close>

definition padded :: "(nat \<Rightarrow> byte) \<Rightarrow> byte list \<Rightarrow> byte list" where
  "padded junk data =
     (let n = length data
      in if n < block_size then data @ replicate (block_size - n) 0
         else if n mod block_size \<noteq> 0 then fill junk (cipher_pad n) data else data)"

lemma fill_length [simp]: "length (fill junk n d) = max n (length d)"
  by (simp add: fill_def)

lemma fill_take [simp]: "n = length d \<Longrightarrow> take n (fill junk k d) = d"
  by (simp add: fill_def)

lemma padded_length: "length (padded junk data) = pad_size (length data)"
  using pad_size_ge [of "length data"] by (auto simp: padded_def pad_size_def Let_def)

lemma padded_take: "take (length data) (padded junk data) = data"
  by (simp add: padded_def Let_def)

lemma ssl_encrypt_padded:
  assumes "length (fst (enc (cc ssl) (padded junk data))) = length (padded junk data)" "buf_ok (length data) ssl"
  shows "\<exists>b. ssl_encrypt enc junk ssl data = Some (pad_size (length data), \<lparr>cc = snd (enc (cc ssl) (padded junk data)), ssl_buf = b\<rparr>) \<and>
    take (pad_size (length data)) b = fst (enc (cc ssl) (padded junk data)) \<and> length (ssl_buf ssl) \<le> length b"
proof -
  have l: "length (fst (enc (cc ssl) (padded junk data))) = pad_size (length data)" using assms(1) by (simp add: padded_length)
  show ?thesis using l assms(2)
    by (cases ssl) (auto simp: ssl_encrypt_def padded_def pad_size_def crypt_into_def grow_buf_def buf_ok_def Let_def
        split: prod.splits if_splits)
qed

lemma cipher_pairD:
  assumes "cipher_pair sync enc dec" "sync c d" "block_size dvd length x"
  shows "length (fst (enc c x)) = length x" "fst (dec d (fst (enc c x))) = x" "sync (snd (enc c x)) (snd (dec d (fst (enc c x))))"
  using assms by (auto simp: cipher_pair_def)

lemma cipher_pair_append:
  assumes "cipher_pair sync enc dec" "block_size dvd length x" "block_size dvd length y"
  shows "dec d (x @ y) = (fst (dec d x) @ fst (dec (snd (dec d x)) y), snd (dec (snd (dec d x)) y))"
  using assms by (simp add: cipher_pair_def)

text \<open>
  Some data has been put on the connection: the bytes \<open>y\<close> are behind what was there, and a reader in step
  with the writer gets the data and its padding back from them and is in step again.
\<close>

definition reads :: "'d crypt \<Rightarrow> 'd \<Rightarrow> byte list \<Rightarrow> byte list \<Rightarrow> bool" where
  "reads dec d x y \<longleftrightarrow> length y = length x \<and> block_size dvd length y \<and> fst (dec d y) = x"

definition carried :: "('c \<Rightarrow> 'd \<Rightarrow> bool) \<Rightarrow> 'd crypt \<Rightarrow> 'd \<Rightarrow> byte list \<Rightarrow> byte list \<Rightarrow> 'c ssl_wrap \<Rightarrow> bool" where
  "carried sync dec d x y ssl \<longleftrightarrow> reads dec d x y \<and> sync (cc ssl) (snd (dec d y))"

lemma reads_split:
  assumes "cipher_pair sync enc dec" "reads dec d (x @ x') y" "block_size dvd length x"
  shows "reads dec d x (take (length x) y)" "reads dec (snd (dec d (take (length x) y))) x' (drop (length x) y)"
    "snd (dec d y) = snd (dec (snd (dec d (take (length x) y))) (drop (length x) y))"
proof -
  let ?y = "take (length x) y" and ?z = "drop (length x) y"
  have l: "length ?y = length x" "length ?z = length x'" "block_size dvd length ?z"
    using assms(2,3) dvd_diff_nat [of block_size "length y" "length x"] by (auto simp: reads_def)
  then have e: "dec d (?y @ ?z) = (fst (dec d ?y) @ fst (dec (snd (dec d ?y)) ?z), snd (dec (snd (dec d ?y)) ?z))"
    using cipher_pair_append [OF assms(1)] assms(3) by (metis l(1,3))
  have "length (fst (dec d ?y)) = length x" using assms(1,3) l(1) by (simp add: cipher_pair_def)
  then have "fst (dec d ?y) = x" "fst (dec (snd (dec d ?y)) ?z) = x'" using e assms(2) by (auto simp: reads_def)
  then show "reads dec d x ?y" "reads dec (snd (dec d ?y)) x' ?z" "snd (dec d y) = snd (dec (snd (dec d ?y)) ?z)"
    using l assms(3) e by (auto simp: reads_def)
qed

lemma carried_nil: "cipher_pair sync enc dec \<Longrightarrow> sync (cc ssl) d \<Longrightarrow> carried sync dec d [] [] ssl"
  by (simp add: carried_def reads_def cipher_pair_def)

lemma ssl_put_carried:
  assumes pair: "cipher_pair sync enc dec" and sync: "sync (cc ssl) d" and ok: "buf_ok (length data) ssl" "\<not> eof p"
    and lim: "length (written p) + pad_size (length data) \<le> lim"
  shows "\<exists>y ssl'. ssl_put enc junk lim data (ssl, p) = Some (pad_size (length data), ssl', p\<lparr>written := written p @ y\<rparr>) \<and>
    carried sync dec d (padded junk data) y ssl' \<and> length (ssl_buf ssl) \<le> length (ssl_buf ssl')"
proof -
  let ?x = "padded junk data"
  have dvd: "block_size dvd length ?x" by (simp add: padded_length pad_size_dvd)
  note cp = cipher_pairD [OF pair sync dvd]
  obtain b where e: "ssl_encrypt enc junk ssl data = Some (pad_size (length data), \<lparr>cc = snd (enc (cc ssl) ?x), ssl_buf = b\<rparr>)"
    and b: "take (pad_size (length data)) b = fst (enc (cc ssl) ?x)" "length (ssl_buf ssl) \<le> length b"
    using ssl_encrypt_padded [of enc ssl junk data, OF cp(1) ok(1)] by blast
  have l: "length (fst (enc (cc ssl) ?x)) = pad_size (length data)" using cp(1) by (simp add: padded_length)
  have w: "pipe_write (lim - length (written p)) (fst (enc (cc ssl) ?x)) p = (0, p\<lparr>written := written p @ fst (enc (cc ssl) ?x)\<rparr>)"
    using lim ok(2) l by (auto simp: pipe_write_def)
  show ?thesis using e b cp dvd l w
    by (intro exI [of _ "fst (enc (cc ssl) ?x)"] exI [of _ "\<lparr>cc = snd (enc (cc ssl) ?x), ssl_buf = b\<rparr>"])
      (simp add: ssl_put_def carried_def reads_def)
qed

lemma carried_append:
  assumes "cipher_pair sync enc dec" "carried sync dec d x y ssl" "carried sync dec (snd (dec d y)) x' y' ssl'"
  shows "carried sync dec d (x @ x') (y @ y') ssl'"
  using assms cipher_pair_append [OF assms(1), of y y' d] by (auto simp: carried_def reads_def)

lemma ssl_rdexact_reads:
  assumes "reads dec (cc r) x y" "length y = pad_size n" "avail p = y @ rest" "buf_ok n r"
  shows "\<exists>r'. ssl_rdexact dec junk c n (r, p) = Some (take n x, r', p\<lparr>pos := pos p + length y\<rparr>) \<and>
    cc r' = snd (dec (cc r) y) \<and> length (ssl_buf r) \<le> length (ssl_buf r')"
proof -
  define r0 where "r0 = snd (read_size_adjust junk r n)"
  have a: "read_size_adjust junk r n = (pad_size n, r0)" by (simp add: r0_def read_size_adjust_def pad_size_def)
  have r0: "cc r0 = cc r" "length (ssl_buf r) \<le> length (ssl_buf r0)" "pad_size n \<le> length (ssl_buf r0)"
    using assms(4) by (auto simp: r0_def read_size_adjust_def pad_size_def grow_buf_def buf_ok_def)
  have rd: "pipe_rdexact c (pad_size n) p = Some (0, y, p\<lparr>pos := pos p + length y\<rparr>)"
    using assms(2,3) by (simp add: pipe_rdexact_def)
  let ?r = "store_buf r0 y"
  have s: "take (pad_size n) (ssl_buf ?r) = y" "cc ?r = cc r" "length (ssl_buf ?r) = length (ssl_buf r0)"
    using assms(2) r0 by (simp_all add: store_buf_def)
  have x: "fst (dec (cc r) y) = x" "length x = pad_size n" using assms(1,2) by (auto simp: reads_def)
  have "ssl_decrypt dec ?r (pad_size n) n = (take n x, ?r\<lparr>cc := snd (dec (cc r) y)\<rparr>)"
    using s x by (cases "dec (cc r) y") (auto simp: ssl_decrypt_def)
  then show ?thesis using a rd r0 s(3)
    by (intro exI [of _ "?r\<lparr>cc := snd (dec (cc r) y)\<rparr>"]) (simp add: ssl_rdexact_def)
qed

end
