(* ===== verification/Mig_Pagetable.thy ===== *)
theory Mig_Pagetable
  imports Xen_Prelude "HOL-Library.Monad_Syntax"
begin

text \<open>
  Page tables on their way to the other host. The sender replaces the machine frames in the entries by the
  page numbers of the guest (\<^verbatim>\<open>canonicalize_pagetable\<close>, \<^verbatim>\<open>tools/libxc/xc_domain_save.c\<close>), the receiver allocates
  frames where it has none and puts them in (\<^verbatim>\<open>uncanonicalize_pagetable\<close>, \<^verbatim>\<open>tools/libxc/xc_domain_restore.c\<close>).
  The frames come from the hypervisor, whose answers are a list of frames beside the state. The theory shows what the two allocation
  passes do together and that a table survives the way there and back.
\<close>

unbundle bit_operations_syntax

section \<open>Page types and masks\<close>

definition PFINFO_NOTAB :: ulong where "PFINFO_NOTAB = 0"
definition PFINFO_L1TAB :: ulong where "PFINFO_L1TAB = 0x10000000"
definition PFINFO_L2TAB :: ulong where "PFINFO_L2TAB = 0x20000000"
definition PFINFO_L3TAB :: ulong where "PFINFO_L3TAB = 0x30000000"
definition PFINFO_L4TAB :: ulong where "PFINFO_L4TAB = 0x40000000"
definition PFINFO_LTABTYPE_MASK :: ulong where "PFINFO_LTABTYPE_MASK = 0x70000000"
definition PFINFO_XTAB :: ulong where "PFINFO_XTAB = 0xf0000000"
definition PFINFO_LTAB_MASK :: ulong where "PFINFO_LTAB_MASK = 0xf0000000"
definition INVALID_P2M_ENTRY :: ulong where "INVALID_P2M_ENTRY = - 1"
definition PAGE_PRESENT :: ulong where "PAGE_PRESENT = 1"
definition PAGE_RW :: ulong where "PAGE_RW = 2"
definition PAGE_USER :: ulong where "PAGE_USER = 4"
definition PAGE_ACCESSED :: ulong where "PAGE_ACCESSED = 0x20"
definition PAE_L3_FLAGS :: ulong where "PAE_L3_FLAGS = PAGE_USER OR PAGE_RW OR PAGE_ACCESSED"

text \<open>The masks of \<^verbatim>\<open>xg_private.h\<close>, for a guest with pointers of \<open>width\<close> bytes.\<close>

definition MADDR_BITS_X86 :: "nat \<Rightarrow> nat" where
  "MADDR_BITS_X86 width = (if width = 8 then 52 else 44)"

definition MFN_MASK_X86 :: "nat \<Rightarrow> ulong" where
  "MFN_MASK_X86 width = push_bit (MADDR_BITS_X86 width - 12) 1 - 1"

definition MADDR_MASK_X86 :: "nat \<Rightarrow> ulong" where
  "MADDR_MASK_X86 width = push_bit 12 (MFN_MASK_X86 width)"

section \<open>The tables at the sender\<close>

text \<open>
  The mapped tables are functions of the index; the code looks at them only below \<open>max_mfn\<close> and
  \<open>p2m_size\<close>. The physical-to-machine table is read as 64-bit or as 32-bit entries.
\<close>

record save_ctx =
  hvirt_start :: ulong
  pt_levels :: nat
  max_mfn :: ulong
  live_p2m64 :: "ulong \<Rightarrow> ulong"
  live_p2m32 :: "ulong \<Rightarrow> u32"
  live_m2p :: "ulong \<Rightarrow> ulong"
  m2p_mfn0 :: ulong
  guest_width :: nat
  p2m_size :: ulong

definition mfn_to_pfn :: "save_ctx \<Rightarrow> ulong \<Rightarrow> ulong" where
  "mfn_to_pfn ctx mfn = live_m2p ctx mfn"

definition pfn_to_mfn :: "save_ctx \<Rightarrow> ulong \<Rightarrow> ulong" where
  "pfn_to_mfn ctx pfn =
     (if guest_width ctx = 8 then live_p2m64 ctx pfn
      else if live_p2m32 ctx pfn = 0xffffffff then - 1 else ucast (live_p2m32 ctx pfn))"

definition MFN_IS_IN_PSEUDOPHYS_MAP :: "save_ctx \<Rightarrow> ulong \<Rightarrow> bool" where
  "MFN_IS_IN_PSEUDOPHYS_MAP ctx mfn \<longleftrightarrow>
     mfn < max_mfn ctx \<and> mfn_to_pfn ctx mfn < p2m_size ctx \<and> pfn_to_mfn ctx (mfn_to_pfn ctx mfn) = mfn"

text \<open>
  A page of page-table entries: 512 entries of 64 bits, or 1024 of 32 bits for two paging levels. The
  slots that belong to the hypervisor.
\<close>

definition pte_last :: "nat \<Rightarrow> nat" where
  "pte_last levels = 4096 div (if levels = 2 then 4 else 8)"

definition xen_slots :: "save_ctx \<Rightarrow> ulong \<Rightarrow> ulong list \<Rightarrow> int \<times> int" where
  "xen_slots ctx type spage =
     (let last = int (pte_last (pt_levels ctx));
          m2p_at = (\<lambda>hstart. drop_bit 12 (spage ! unat hstart) AND MFN_MASK_X86 (guest_width ctx) = m2p_mfn0 ctx);
          xen_start = last;
          xen_start = (if pt_levels ctx = 2 \<and> type = PFINFO_L2TAB
            then sint (ucast (drop_bit 21 (hvirt_start ctx)) :: u32) else xen_start);
          xen_start = (if pt_levels ctx = 3 \<and> type = PFINFO_L3TAB then 4 else xen_start);
          xen_start = (if pt_levels ctx = 3 \<and> type = PFINFO_L2TAB
            then let hstart = drop_bit 21 (hvirt_start ctx) AND 0x1ff
                 in if m2p_at hstart then uint hstart
                    else if hvirt_start ctx \<noteq> 0xf5800000
                    then let hstart = drop_bit 21 (0xf5800000 :: ulong) AND 0x1ff in if m2p_at hstart then uint hstart else xen_start
                    else xen_start
            else xen_start)
      in if pt_levels ctx = 4 \<and> type = PFINFO_L4TAB then (256, 272) else (xen_start, last))"

definition xen_slot :: "save_ctx \<Rightarrow> ulong \<Rightarrow> ulong list \<Rightarrow> nat \<Rightarrow> bool" where
  "xen_slot ctx type spage i = (case xen_slots ctx type spage of (xen_start, xen_end) \<Rightarrow> xen_start \<le> int i \<and> int i < xen_end)"

definition canonicalize_pte :: "save_ctx \<Rightarrow> ulong \<Rightarrow> bool \<Rightarrow> ulong \<Rightarrow> ulong \<times> bool" where
  "canonicalize_pte ctx type xen pte =
     (let width = guest_width ctx; pte = (if xen then 0 else pte)
      in if pte AND PAGE_PRESENT \<noteq> 0
         then let mfn = drop_bit 12 pte AND MFN_MASK_X86 width;
                  (pfn, race) =
                    (if \<not> MFN_IS_IN_PSEUDOPHYS_MAP ctx mfn then (0, \<not> (type = PFINFO_L2TAB \<and> 8 > width))
                     else (mfn_to_pfn ctx mfn, False));
                  pte = pte AND NOT (MADDR_MASK_X86 width);
                  pte = pte OR push_bit 12 pfn
              in (if pt_levels ctx = 3 \<and> type = PFINFO_L3TAB \<and> pte AND PAE_L3_FLAGS \<noteq> 0
                  then pte AND NOT PAE_L3_FLAGS else pte, race)
         else (pte, False))"

text \<open>\<^verbatim>\<open>canonicalize_pagetable\<close>: the destination page and whether an entry raced with the guest.\<close>

definition canonicalize_pagetable :: "save_ctx \<Rightarrow> ulong \<Rightarrow> ulong list \<Rightarrow> ulong list \<times> bool" where
  "canonicalize_pagetable ctx type spage =
     (let rs = map (\<lambda>i. canonicalize_pte ctx type (xen_slot ctx type spage i) (spage ! i)) [0..<pte_last (pt_levels ctx)];
          store = (\<lambda>pte. if pt_levels ctx = 2 then ucast (ucast pte :: u32) else pte)
      in (map (store \<circ> fst) rs, list_ex snd rs))"

section \<open>The tables at the receiver\<close>

text \<open>
  The fields of \<^verbatim>\<open>struct restore_ctx\<close> that the page code uses, and beside them \<open>host\<close>: the machine frames that the
  hypervisor is going to hand out, in this order.
\<close>

record restore_ctx =
  r_pt_levels :: nat
  r_width :: nat
  r_p2m_size :: ulong
  p2m :: "ulong list"
  p2m_batch :: "ulong list"
  nr_pfns :: ulong
  host :: "ulong list"

text \<open>
  Both passes over the entries of a page. The first collects the page numbers that have no machine frame
  yet and marks them; None is an access beyond the table.
\<close>

fun need_mfns :: "restore_ctx \<Rightarrow> nat \<Rightarrow> ulong list \<Rightarrow> (bool \<times> nat \<times> restore_ctx) option" where
  "need_mfns ctx nr_mfns [] = Some (True, nr_mfns, ctx)"
| "need_mfns ctx nr_mfns (pte # ptes) =
     (if pte AND PAGE_PRESENT = 0 then need_mfns ctx nr_mfns ptes
      else let pfn = drop_bit 12 pte AND MFN_MASK_X86 (r_width ctx)
           in if pfn \<ge> r_p2m_size ctx then Some (False, nr_mfns, ctx)
              else if unat pfn \<ge> length (p2m ctx) then None
              else if p2m ctx ! unat pfn = INVALID_P2M_ENTRY
              then if nr_mfns \<ge> length (p2m_batch ctx) then None
                   else need_mfns (ctx\<lparr>p2m_batch := (p2m_batch ctx)[nr_mfns := pfn],
                          p2m := (p2m ctx)[unat pfn := p2m ctx ! unat pfn - 1]\<rparr>) (nr_mfns + 1) ptes
              else need_mfns ctx nr_mfns ptes)"

fun put_mfns :: "restore_ctx \<Rightarrow> nat \<Rightarrow> ulong list \<Rightarrow> (ulong list \<times> restore_ctx) option" where
  "put_mfns ctx nr_mfns [] = Some ([], ctx)"
| "put_mfns ctx nr_mfns (pte # ptes) =
     (if pte AND PAGE_PRESENT = 0 then do { (ps, ctx) \<leftarrow> put_mfns ctx nr_mfns ptes; Some (pte # ps, ctx) }
      else let pfn = drop_bit 12 pte AND MFN_MASK_X86 (r_width ctx)
           in if unat pfn \<ge> length (p2m ctx) then None
              else let fresh = p2m ctx ! unat pfn = INVALID_P2M_ENTRY - 1
                   in if fresh \<and> nr_mfns \<ge> length (p2m_batch ctx) then None
                      else let ctx = (if fresh then ctx\<lparr>p2m := (p2m ctx)[unat pfn := p2m_batch ctx ! nr_mfns]\<rparr> else ctx);
                               pte = (pte AND NOT (MADDR_MASK_X86 (r_width ctx))) OR push_bit 12 (p2m ctx ! unat pfn);
                               pte = (if r_pt_levels ctx = 2 then ucast (ucast pte :: u32) else pte)
                           in do { (ps, ctx) \<leftarrow> put_mfns ctx (if fresh then nr_mfns + 1 else nr_mfns) ptes; Some (pte # ps, ctx) })"

text \<open>
  \<^verbatim>\<open>xc_domain_populate_physmap_exact\<close> overwrites the page numbers at the front of the array with the frames
  it has allocated; anything short of all of them is an error.
\<close>

definition populate_physmap_exact :: "ulong list \<Rightarrow> nat \<Rightarrow> ulong list \<Rightarrow> int \<times> ulong list \<times> ulong list" where
  "populate_physmap_exact frames nr extents =
     (let mfns = take nr frames
      in (if length mfns = nr then 0 else - 1, mfns @ drop (length mfns) extents, drop nr frames))"

definition uncanonicalize_pagetable :: "restore_ctx \<Rightarrow> ulong list \<Rightarrow> (int \<times> ulong list \<times> restore_ctx) option" where
  "uncanonicalize_pagetable ctx page = do {
     (ok, nr_mfns, ctx) \<leftarrow> need_mfns ctx 0 page;
     if \<not> ok then Some (0, page, ctx)
     else let (rc, batch, frames) =
                (if nr_mfns \<noteq> 0 then populate_physmap_exact (host ctx) nr_mfns (p2m_batch ctx) else (0, p2m_batch ctx, host ctx));
              ctx = ctx\<lparr>p2m_batch := batch, host := frames\<rparr>
          in if rc \<noteq> 0 then Some (0, page, ctx)
             else do { (page, ctx) \<leftarrow> put_mfns ctx 0 page; Some (1, page, ctx) }
   }"

section \<open>Allocation in two passes\<close>

text \<open>
  What \<^verbatim>\<open>uncanonicalize_pagetable\<close> and \<^verbatim>\<open>apply_batch\<close> do to the table of machine frames, on the list of page
  numbers they meet: the first pass marks those without a frame and collects them, the second pass hands
  out the frames in the same order.
\<close>

fun mark_pass :: "nat \<Rightarrow> nat list \<Rightarrow> ulong list \<times> ulong list \<Rightarrow> (nat \<times> ulong list \<times> ulong list) option" where
  "mark_pass n [] (m, b) = Some (n, m, b)"
| "mark_pass n (p # ps) (m, b) =
     (if length m \<le> p then None
      else if m ! p = INVALID_P2M_ENTRY
      then if length b \<le> n then None else mark_pass (n + 1) ps (m[p := m ! p - 1], b[n := of_nat p])
      else mark_pass n ps (m, b))"

fun take_pass :: "nat \<Rightarrow> nat list \<Rightarrow> ulong list \<Rightarrow> ulong list \<Rightarrow> ulong list option" where
  "take_pass n [] b m = Some m"
| "take_pass n (p # ps) b m =
     (if length m \<le> p then None
      else if m ! p = INVALID_P2M_ENTRY - 1
      then if length b \<le> n then None else take_pass (n + 1) ps b (m[p := b ! n])
      else take_pass n ps b m)"

text \<open>The first occurrences in a list.\<close>

fun firsts :: "'a list \<Rightarrow> 'a list" where
  "firsts [] = []"
| "firsts (x # xs) = x # firsts (filter (\<lambda>y. y \<noteq> x) xs)"

lemma firsts_set [simp]: "set (firsts xs) = set xs"
  by (induction xs rule: firsts.induct) auto

lemma firsts_distinct [simp]: "distinct (firsts xs)"
  by (induction xs rule: firsts.induct) auto

lemma firsts_length: "length (firsts xs) \<le> length xs"
proof (induction xs rule: firsts.induct)
  case (2 x xs)
  have "length (filter (\<lambda>y. y \<noteq> x) xs) \<le> length xs" by (rule length_filter_le)
  with 2 have "length (firsts (filter (\<lambda>y. y \<noteq> x) xs)) \<le> length xs" by (rule order_trans)
  then show ?case by simp
qed simp

definition missing :: "ulong \<Rightarrow> ulong list \<Rightarrow> nat list \<Rightarrow> nat list" where
  "missing v m ps = firsts (filter (\<lambda>p. m ! p = v) ps)"

lemma missing_Cons:
  assumes "p < length m" "u \<noteq> v"
  shows "missing v m (p # ps) = (if m ! p = v then p # missing v (m[p := u]) ps else missing v m ps)"
proof -
  have "filter (\<lambda>q. q \<noteq> p) (filter (\<lambda>q. m ! q = v) ps) = filter (\<lambda>q. m[p := u] ! q = v) ps"
    unfolding filter_filter by (rule filter_cong) (use assms in \<open>auto simp: nth_list_update\<close>)
  then show ?thesis by (simp add: missing_def)
qed

text \<open>Marking several entries, and writing several.\<close>

definition mark_all :: "nat list \<Rightarrow> ulong list \<Rightarrow> ulong list" where
  "mark_all ps m = fold (\<lambda>p m. m[p := INVALID_P2M_ENTRY - 1]) ps m"

fun put_all :: "nat list \<Rightarrow> ulong list \<Rightarrow> ulong list \<Rightarrow> ulong list" where
  "put_all (p # ps) (f # fs) m = put_all ps fs (m[p := f])"
| "put_all _ _ m = m"

lemma mark_all_length [simp]: "length (mark_all ps m) = length m"
  by (induction ps arbitrary: m) (auto simp: mark_all_def)

lemma mark_all_nth: "q < length m \<Longrightarrow> mark_all ps m ! q = (if q \<in> set ps then INVALID_P2M_ENTRY - 1 else m ! q)"
proof (induction ps arbitrary: m)
  case (Cons p ps)
  then have "mark_all (p # ps) m ! q = (if q \<in> set ps then INVALID_P2M_ENTRY - 1 else m[p := INVALID_P2M_ENTRY - 1] ! q)"
    by (simp add: mark_all_def)
  with Cons.prems show ?case by (auto simp: nth_list_update)
qed (simp add: mark_all_def)

lemma mark_pass_eq:
  assumes "\<forall>p\<in>set ps. p < length m" "n + length (missing INVALID_P2M_ENTRY m ps) \<le> length b"
  shows "\<exists>b'. mark_pass n ps (m, b) = Some (n + length (missing INVALID_P2M_ENTRY m ps), mark_all (missing INVALID_P2M_ENTRY m ps) m, b') \<and>
    length b' = length b \<and> take (n + length (missing INVALID_P2M_ENTRY m ps)) b' = take n b @ map of_nat (missing INVALID_P2M_ENTRY m ps)"
  using assms
proof (induction ps arbitrary: n m b)
  case Nil
  then show ?case by (simp add: missing_def mark_all_def)
next
  case (Cons p ps)
  let ?m = "m[p := INVALID_P2M_ENTRY - 1]" and ?b = "b[n := of_nat p]"
  have p: "p < length m" using Cons.prems(1) by simp
  have ne: "INVALID_P2M_ENTRY - 1 \<noteq> INVALID_P2M_ENTRY" by simp
  note mc = missing_Cons [OF p ne, of ps]
  show ?case
  proof (cases "m ! p = INVALID_P2M_ENTRY")
    case False
    then show ?thesis using Cons.IH [of m n b] Cons.prems p mc by simp
  next
    case True
    then have n: "n < length b" "n + 1 + length (missing INVALID_P2M_ENTRY ?m ps) \<le> length ?b" using Cons.prems(2) mc by auto
    have "\<forall>p\<in>set ps. p < length ?m" using Cons.prems(1) by simp
    from Cons.IH [OF this n(2)] obtain b' where
      b': "mark_pass (n + 1) ps (?m, ?b) =
          Some (n + 1 + length (missing INVALID_P2M_ENTRY ?m ps), mark_all (missing INVALID_P2M_ENTRY ?m ps) ?m, b')"
        "length b' = length b"
        "take (n + 1 + length (missing INVALID_P2M_ENTRY ?m ps)) b' = take (n + 1) ?b @ map of_nat (missing INVALID_P2M_ENTRY ?m ps)"
      by auto
    have "take (n + 1) ?b = take n b @ [of_nat p]" using n(1) by (simp add: take_Suc_conv_app_nth)
    with b' True p n(1) mc show ?thesis by (auto simp: mark_all_def)
  qed
qed

lemma put_all_length [simp]: "length (put_all ps fs m) = length m"
  by (induction ps fs m rule: put_all.induct) auto

lemma put_all_other: "q \<notin> set ps \<Longrightarrow> put_all ps fs m ! q = m ! q"
  by (induction ps fs m rule: put_all.induct) auto

lemma put_all_nth:
  "distinct ps \<Longrightarrow> length fs = length ps \<Longrightarrow> \<forall>p\<in>set ps. p < length m \<Longrightarrow> k < length ps \<Longrightarrow> put_all ps fs m ! (ps ! k) = fs ! k"
proof (induction ps fs m arbitrary: k rule: put_all.induct)
  case (1 p ps f fs m)
  then show ?case by (cases k) (auto simp: put_all_other)
qed auto

lemma take_pass_eq:
  assumes "\<forall>p\<in>set ps. p < length m" "take (length L) (drop n b) = fs" "length fs = length L"
    "L = missing (INVALID_P2M_ENTRY - 1) m ps" "INVALID_P2M_ENTRY - 1 \<notin> set fs"
  shows "take_pass n ps b m = Some (put_all L fs m)"
  using assms
proof (induction ps arbitrary: n m L fs)
  case Nil
  then show ?case by (simp add: missing_def)
next
  case (Cons p ps)
  have p: "p < length m" using Cons.prems(1) by simp
  show ?case
  proof (cases "m ! p = INVALID_P2M_ENTRY - 1")
    case False
    then have "L = missing (INVALID_P2M_ENTRY - 1) m ps" using Cons.prems(4) by (simp add: missing_def)
    then show ?thesis using Cons.IH [of m L n fs] Cons.prems False p by simp
  next
    case True
    then have L: "L \<noteq> []" using Cons.prems(4) by (auto simp: missing_def)
    then have n: "n < length b" using Cons.prems(2,3) by (cases "n < length b") auto
    define fs' where fs': "fs' = take (length L - 1) (drop (n + 1) b)"
    have fs: "fs = b ! n # fs'"
      using Cons.prems(2) L n unfolding fs' by (simp add: take_Cons' Cons_nth_drop_Suc [symmetric])
    then have f: "b ! n \<noteq> INVALID_P2M_ENTRY - 1" using Cons.prems(5) by auto
    have Lp: "L = p # missing (INVALID_P2M_ENTRY - 1) (m[p := b ! n]) ps"
      using Cons.prems(4) True missing_Cons [OF p f, of ps] by simp
    have "take_pass (n + 1) ps b (m[p := b ! n]) = Some (put_all (List.tl L) fs' (m[p := b ! n]))"
      by (rule Cons.IH) (use Cons.prems(1,3,5) Lp fs fs' in auto)
    then show ?thesis using True p n Lp fs by simp
  qed
qed

text \<open>Both passes together: the pages that had no frame get the new ones in order, nothing else changes.\<close>

lemma missing_marked:
  assumes "\<forall>p\<in>set ps. p < length m \<and> m ! p \<noteq> INVALID_P2M_ENTRY - 1"
  shows "missing (INVALID_P2M_ENTRY - 1) (mark_all (missing INVALID_P2M_ENTRY m ps) m) ps = missing INVALID_P2M_ENTRY m ps"
proof -
  have "filter (\<lambda>p. mark_all (missing INVALID_P2M_ENTRY m ps) m ! p = INVALID_P2M_ENTRY - 1) ps = filter (\<lambda>p. m ! p = INVALID_P2M_ENTRY) ps"
    by (rule filter_cong) (use assms in \<open>auto simp: mark_all_nth missing_def\<close>)
  then show ?thesis by (simp add: missing_def [of "INVALID_P2M_ENTRY - 1"] missing_def [of INVALID_P2M_ENTRY m ps])
qed

lemma put_all_marked:
  assumes "distinct L" "length fs = length L" "\<forall>p\<in>set L. p < length m"
  shows "put_all L fs (mark_all L m) = put_all L fs m"
proof (rule nth_equalityI)
  fix q assume q: "q < length (put_all L fs (mark_all L m))"
  show "put_all L fs (mark_all L m) ! q = put_all L fs m ! q"
  proof (cases "q \<in> set L")
    case True
    then obtain k where "k < length L" "q = L ! k" by (auto simp: in_set_conv_nth)
    then show ?thesis using put_all_nth [of L fs _ k] assms by simp
  qed (use q in \<open>simp add: put_all_other mark_all_nth\<close>)
qed simp

text \<open>A table of frames without left-over marks, in which no frame is used twice.\<close>

definition p2m_wf :: "ulong list \<Rightarrow> bool" where
  "p2m_wf m \<longleftrightarrow> (\<forall>i<length m. m ! i \<noteq> INVALID_P2M_ENTRY - 1) \<and>
     (\<forall>i<length m. \<forall>j<length m. m ! i = m ! j \<longrightarrow> m ! i \<noteq> INVALID_P2M_ENTRY \<longrightarrow> i = j)"

lemma p2m_wf_put_all:
  assumes wf: "p2m_wf m" and L: "distinct L" "length fs = length L" "\<forall>p\<in>set L. p < length m"
    and fs: "distinct fs" "set fs \<inter> set m = {}" "INVALID_P2M_ENTRY - 1 \<notin> set fs"
  shows "p2m_wf (put_all L fs m)"
proof -
  have *: "(\<exists>k<length L. i = L ! k \<and> put_all L fs m ! i = fs ! k) \<or> i \<notin> set L \<and> put_all L fs m ! i = m ! i" for i
    using put_all_nth [of L fs m] put_all_other [of i L fs m] L by (auto simp: in_set_conv_nth)
  have marks: "put_all L fs m ! i \<noteq> INVALID_P2M_ENTRY - 1" if "i < length m" for i
    using * [of i] that wf fs(3) L(2) by (auto simp: p2m_wf_def in_set_conv_nth)
  have "i = j" if ij: "i < length m" "j < length m" "put_all L fs m ! i = put_all L fs m ! j" "put_all L fs m ! i \<noteq> INVALID_P2M_ENTRY" for i j
  proof -
    have new: "fs ! k \<noteq> m ! l" if "k < length L" "l < length m" for k l
      using fs(2) that L(2) by (metis disjoint_iff nth_mem)
    show ?thesis using * [of i] * [of j]
    proof (elim disjE exE conjE)
      fix k k' assume "k < length L" "i = L ! k" "put_all L fs m ! i = fs ! k" "k' < length L" "j = L ! k'" "put_all L fs m ! j = fs ! k'"
      then show ?thesis using ij(3) fs(1) L(2) nth_eq_iff_index_eq [of fs k k'] by simp
    next
      assume "put_all L fs m ! i = m ! i" "put_all L fs m ! j = m ! j"
      then show ?thesis using ij wf by (auto simp: p2m_wf_def)
    qed (use new ij in metis)+
  qed
  with marks show ?thesis by (simp add: p2m_wf_def)
qed

section \<open>Page-table entries\<close>

definition present :: "ulong \<Rightarrow> bool" where
  "present pte \<longleftrightarrow> pte AND PAGE_PRESENT \<noteq> 0"

definition pte_pfn :: "nat \<Rightarrow> ulong \<Rightarrow> nat" where
  "pte_pfn width pte = unat (drop_bit 12 pte AND MFN_MASK_X86 width)"

definition pte_pfns :: "nat \<Rightarrow> ulong list \<Rightarrow> nat list" where
  "pte_pfns width ptes = map (pte_pfn width) (filter present ptes)"

lemma need_mfns_pass:
  assumes "\<forall>p\<in>set (pte_pfns (r_width ctx) ptes). p < unat (r_p2m_size ctx)"
  shows "need_mfns ctx n ptes = map_option (\<lambda>(n, m, b). (True, n, ctx\<lparr>p2m_batch := b, p2m := m\<rparr>))
    (mark_pass n (pte_pfns (r_width ctx) ptes) (p2m ctx, p2m_batch ctx))"
  using assms
proof (induction ctx n ptes rule: need_mfns.induct)
  case (2 ctx n pte ptes)
  let ?pfn = "drop_bit 12 pte AND MFN_MASK_X86 (r_width ctx)"
  show ?case
  proof (cases "pte AND PAGE_PRESENT = 0")
    case True
    then show ?thesis using 2 by (simp add: pte_pfns_def present_def)
  next
    case False
    then have r: "\<not> r_p2m_size ctx \<le> ?pfn" using "2.prems" by (simp add: pte_pfns_def present_def pte_pfn_def word_less_nat_alt not_le)
    show ?thesis using 2 False r by (simp add: pte_pfns_def present_def pte_pfn_def Let_def)
  qed
qed (simp add: pte_pfns_def)

definition retarget :: "restore_ctx \<Rightarrow> ulong list \<Rightarrow> ulong \<Rightarrow> ulong" where
  "retarget ctx m pte =
     (if \<not> present pte then pte
      else let pte' = (pte AND NOT (MADDR_MASK_X86 (r_width ctx))) OR push_bit 12 (m ! pte_pfn (r_width ctx) pte)
           in if r_pt_levels ctx = 2 then ucast (ucast pte' :: u32) else pte')"

lemma retarget_p2m [simp]: "retarget (ctx\<lparr>p2m := x\<rparr>) = retarget ctx"
  by (rule ext)+ (simp add: retarget_def)

lemma put_mfns_pass:
  assumes "\<forall>p\<in>set (pte_pfns (r_width ctx) ptes). p < length (p2m ctx)" "take (length L) (drop n (p2m_batch ctx)) = fs"
    "length fs = length L" "L = missing (INVALID_P2M_ENTRY - 1) (p2m ctx) (pte_pfns (r_width ctx) ptes)"
    "INVALID_P2M_ENTRY - 1 \<notin> set fs"
  shows "put_mfns ctx n ptes = Some (map (retarget ctx (put_all L fs (p2m ctx))) ptes, ctx\<lparr>p2m := put_all L fs (p2m ctx)\<rparr>)"
  using assms
proof (induction ptes arbitrary: ctx n L fs)
  case Nil
  then show ?case by (simp add: pte_pfns_def missing_def)
next
  case (Cons pte ptes)
  let ?ps = "pte_pfns (r_width ctx) ptes" and ?m = "p2m ctx" and ?b = "p2m_batch ctx"
  define p where pd: "p = pte_pfn (r_width ctx) pte"
  show ?case
  proof (cases "present pte")
    case False
    then have "pte_pfns (r_width ctx) (pte # ptes) = ?ps" by (simp add: pte_pfns_def)
    with Cons.IH [of ctx L n fs] Cons.prems False show ?thesis by (simp add: present_def retarget_def)
  next
    case True
    then have ps: "pte_pfns (r_width ctx) (pte # ptes) = p # ?ps" by (simp add: pte_pfns_def pd)
    have p: "p < length ?m" "\<forall>q\<in>set ?ps. q < length ?m" using Cons.prems(1) ps by auto
    show ?thesis
    proof (cases "?m ! p = INVALID_P2M_ENTRY - 1")
      case False
      then have L: "L = missing (INVALID_P2M_ENTRY - 1) ?m ?ps" using Cons.prems(4) ps by (simp add: missing_def)
      have "p \<notin> set L" using False L by (auto simp: missing_def)
      then have "put_all L fs ?m ! p = ?m ! p" by (rule put_all_other)
      with Cons.IH [OF p(2) Cons.prems(2,3) L Cons.prems(5)] p(1) False True show ?thesis
        by (simp add: present_def retarget_def pte_pfn_def Let_def pd)
    next
      case marked: True
      then have "L \<noteq> []" using Cons.prems(4) ps by (auto simp: missing_def)
      then have n: "n < length ?b" using Cons.prems(2,3) by (cases "n < length ?b") auto
      define fs' where fs': "fs' = take (length L - 1) (drop (n + 1) ?b)"
      have fs: "fs = ?b ! n # fs'"
        using Cons.prems(2) \<open>L \<noteq> []\<close> n unfolding fs' by (simp add: take_Cons' Cons_nth_drop_Suc [symmetric])
      then have f: "?b ! n \<noteq> INVALID_P2M_ENTRY - 1" using Cons.prems(5) by auto
      let ?ctx = "ctx\<lparr>p2m := ?m[p := ?b ! n]\<rparr>"
      define L' where L': "L' = missing (INVALID_P2M_ENTRY - 1) (p2m ?ctx) (pte_pfns (r_width ?ctx) ptes)"
      have Lp: "L = p # L'" using Cons.prems(4) ps marked missing_Cons [OF p(1) f, of ?ps] by (simp add: L')
      have "put_mfns ?ctx (n + 1) ptes = Some (map (retarget ?ctx (put_all L' fs' (p2m ?ctx))) ptes, ?ctx\<lparr>p2m := put_all L' fs' (p2m ?ctx)\<rparr>)"
        by (rule Cons.IH) (use p(2) Cons.prems(3,5) Lp fs fs' L' in auto)
      moreover have "put_all L' fs' (?m[p := ?b ! n]) ! p = ?b ! n"
        using Cons.prems(4) Lp p(1) put_all_other [of p L' fs'] firsts_distinct by (metis distinct.simps(2) missing_def nth_list_update_eq)
      ultimately show ?thesis using marked p(1) n True Lp fs
        by (simp add: present_def retarget_def pte_pfn_def Let_def pd)
    qed
  qed
qed

text \<open>
  The frames at the receiver are in order when the table of frames is, and the frames still to come are
  real ones, all different and not in the table.
\<close>

definition frames_ok :: "ulong list \<Rightarrow> ulong list \<Rightarrow> bool" where
  "frames_ok frames m \<longleftrightarrow> p2m_wf m \<and> distinct frames \<and> set frames \<inter> set m = {} \<and>
     INVALID_P2M_ENTRY \<notin> set frames \<and> INVALID_P2M_ENTRY - 1 \<notin> set frames"

text \<open>The table after the pages that had no frame have been given the next frames.\<close>

definition alloc_missing :: "ulong list \<Rightarrow> nat list \<Rightarrow> ulong list \<Rightarrow> ulong list" where
  "alloc_missing frames ps m = (let L = missing INVALID_P2M_ENTRY m ps in put_all L (take (length L) frames) m)"

definition alloc_count :: "nat list \<Rightarrow> ulong list \<Rightarrow> nat" where
  "alloc_count ps m = length (missing INVALID_P2M_ENTRY m ps)"

lemma alloc_count_le: "alloc_count ps m \<le> length ps"
  unfolding alloc_count_def missing_def by (meson firsts_length length_filter_le order_trans)

lemma missing_props:
  assumes "\<forall>p\<in>set ps. p < length m"
  shows "distinct (missing v m ps)" "\<forall>p\<in>set (missing v m ps). p < length m" "set (missing v m ps) = {p \<in> set ps. m ! p = v}"
  using assms by (auto simp: missing_def)

lemma alloc_missing_length [simp]: "length (alloc_missing frames ps m) = length m"
  by (simp add: alloc_missing_def Let_def)

lemma alloc_missing_old: "m ! p \<noteq> INVALID_P2M_ENTRY \<Longrightarrow> alloc_missing frames ps m ! p = m ! p"
  by (simp add: alloc_missing_def Let_def put_all_other missing_def)

lemma alloc_missing_other: "p \<notin> set ps \<Longrightarrow> alloc_missing frames ps m ! p = m ! p"
  by (simp add: alloc_missing_def Let_def put_all_other missing_def)

lemma alloc_missing_new:
  assumes "INVALID_P2M_ENTRY \<notin> set frames" "alloc_count ps m \<le> length frames" "\<forall>p\<in>set ps. p < length m" "p \<in> set ps"
  shows "alloc_missing frames ps m ! p \<noteq> INVALID_P2M_ENTRY"
proof (cases "m ! p = INVALID_P2M_ENTRY")
  case False
  then show ?thesis by (simp add: alloc_missing_old)
next
  case True
  let ?L = "missing INVALID_P2M_ENTRY m ps" and ?fs = "take (alloc_count ps m) frames"
  have "p \<in> set ?L" using True assms(4) by (simp add: missing_def)
  then obtain k where k: "k < length ?L" "p = ?L ! k" by (auto simp: in_set_conv_nth)
  have l: "length ?fs = length ?L" using assms(2) by (simp add: alloc_count_def)
  moreover have "alloc_missing frames ps m ! p = ?fs ! k"
    using put_all_nth [OF missing_props(1) l missing_props(2) k(1)] assms(3) k(2) by (simp add: alloc_missing_def Let_def alloc_count_def)
  ultimately show ?thesis using k(1) assms(1) by (metis in_set_takeD nth_mem)
qed

lemma alloc_missing_set:
  assumes "alloc_count ps m \<le> length frames" "\<forall>p\<in>set ps. p < length m"
  shows "set (alloc_missing frames ps m) \<subseteq> set m \<union> set (take (alloc_count ps m) frames)"
proof
  fix f assume "f \<in> set (alloc_missing frames ps m)"
  then obtain q where q: "q < length m" "f = alloc_missing frames ps m ! q" by (auto simp: in_set_conv_nth)
  let ?L = "missing INVALID_P2M_ENTRY m ps" and ?fs = "take (alloc_count ps m) frames"
  have l: "length ?fs = length ?L" using assms(1) by (simp add: alloc_count_def)
  show "f \<in> set m \<union> set ?fs"
  proof (cases "q \<in> set ?L")
    case True
    then obtain k where k: "k < length ?L" "q = ?L ! k" by (auto simp: in_set_conv_nth)
    then have "f = ?fs ! k" using put_all_nth [OF missing_props(1) l missing_props(2) k(1)] assms(2) q(2)
      by (simp add: alloc_missing_def Let_def alloc_count_def)
    then show ?thesis using k(1) l nth_mem [of k ?fs] by simp
  next
    case False
    then show ?thesis using q by (simp add: alloc_missing_def Let_def put_all_other)
  qed
qed

lemma frames_ok_alloc:
  assumes ok: "frames_ok frames m" and n: "alloc_count ps m \<le> length frames" and ps: "\<forall>p\<in>set ps. p < length m"
  shows "frames_ok (drop (alloc_count ps m) frames) (alloc_missing frames ps m)"
proof -
  let ?n = "alloc_count ps m"
  have "distinct (take ?n frames @ drop ?n frames)" using ok by (simp add: frames_ok_def)
  then have d: "distinct (drop ?n frames)" "set (take ?n frames) \<inter> set (drop ?n frames) = {}"
    unfolding distinct_append by blast+
  have "p2m_wf (put_all (missing INVALID_P2M_ENTRY m ps) (take ?n frames) m)"
    by (rule p2m_wf_put_all) (use ok n missing_props [OF ps] in \<open>auto simp: frames_ok_def alloc_count_def dest: in_set_takeD\<close>)
  then have "p2m_wf (alloc_missing frames ps m)" by (simp add: alloc_missing_def alloc_count_def Let_def)
  moreover have "set (drop ?n frames) \<inter> set (alloc_missing frames ps m) = {}"
    using alloc_missing_set [OF n ps] d(2) ok by (auto simp: frames_ok_def dest: in_set_dropD)
  ultimately show ?thesis using ok d(1) by (auto simp: frames_ok_def dest: in_set_dropD)
qed

lemma populate_exact_ok:
  assumes "n \<le> length frames"
  shows "populate_physmap_exact frames n b = (0, take n frames @ drop n b, drop n frames)"
  using assms by (auto simp: populate_physmap_exact_def Let_def)

lemma uncanonicalize_ok:
  fixes ctx :: restore_ctx and page :: "ulong list"
  defines "ps \<equiv> pte_pfns (r_width ctx) page"
  assumes fr: "INVALID_P2M_ENTRY - 1 \<notin> set (host ctx)" "alloc_count ps (p2m ctx) \<le> length (host ctx)"
    and wf: "p2m_wf (p2m ctx)" and len: "length (p2m ctx) = unat (r_p2m_size ctx)"
    and ps: "\<forall>p\<in>set ps. p < unat (r_p2m_size ctx)" and b: "length page \<le> length (p2m_batch ctx)"
  shows "\<exists>b'. uncanonicalize_pagetable ctx page =
    Some (1, map (retarget ctx (alloc_missing (host ctx) ps (p2m ctx))) page,
      ctx\<lparr>p2m_batch := b', p2m := alloc_missing (host ctx) ps (p2m ctx), host := drop (alloc_count ps (p2m ctx)) (host ctx)\<rparr>) \<and>
    length b' = length (p2m_batch ctx)"
proof -
  define L where L_def: "L = missing INVALID_P2M_ENTRY (p2m ctx) ps"
  define m where m_def: "m = alloc_missing (host ctx) ps (p2m ctx)"
  let ?fs = "take (length L) (host ctx)"
  have m_eq: "m = put_all L ?fs (p2m ctx)" by (simp add: m_def L_def alloc_missing_def Let_def)
  have cnt: "alloc_count ps (p2m ctx) = length L" by (simp add: alloc_count_def L_def)
  have rng: "\<forall>p\<in>set ps. p < length (p2m ctx)" "\<forall>p\<in>set ps. p < length (p2m ctx) \<and> p2m ctx ! p \<noteq> INVALID_P2M_ENTRY - 1"
    using ps len wf by (auto simp: p2m_wf_def)
  have "length L \<le> length ps" using alloc_count_le cnt by metis
  also have "\<dots> \<le> length page" by (simp add: ps_def pte_pfns_def)
  finally have lb: "length L \<le> length (p2m_batch ctx)" using b by simp
  have dL: "distinct L" "\<forall>p\<in>set L. p < length (p2m ctx)" using missing_props [OF rng(1)] by (auto simp: L_def)
  have fs: "length ?fs = length L" "INVALID_P2M_ENTRY - 1 \<notin> set ?fs" using fr cnt by (auto dest: in_set_takeD)
  obtain b' where mp: "mark_pass 0 ps (p2m ctx, p2m_batch ctx) = Some (length L, mark_all L (p2m ctx), b')"
      and b': "length b' = length (p2m_batch ctx)"
    using mark_pass_eq [OF rng(1), of 0 "p2m_batch ctx"] lb unfolding L_def by auto
  let ?c = "ctx\<lparr>p2m_batch := b', p2m := mark_all L (p2m ctx)\<rparr>"
  have need: "need_mfns ctx 0 page = Some (True, length L, ?c)"
    using need_mfns_pass [of ctx page 0] ps mp by (simp add: ps_def)
  let ?b = "?fs @ drop (length L) b'"
  have batch: "populate_physmap_exact (host ctx) (length L) b' = (0, ?b, drop (length L) (host ctx))"
    using populate_exact_ok [of "length L" "host ctx" b'] fr(2) cnt by simp
  let ?d = "?c\<lparr>p2m_batch := ?b, host := drop (length L) (host ctx)\<rparr>"
  have "put_mfns ?d 0 page = Some (map (retarget ?d (put_all L ?fs (p2m ?d))) page, ?d\<lparr>p2m := put_all L ?fs (p2m ?d)\<rparr>)"
    by (rule put_mfns_pass) (use rng(1) fs missing_marked [OF rng(2)] in \<open>auto simp: ps_def [symmetric] L_def\<close>)
  moreover have "put_all L ?fs (p2m ?d) = m" using put_all_marked [OF dL(1) fs(1) dL(2)] by (simp add: m_eq)
  moreover have "retarget ?d = retarget ctx" by (rule ext)+ (simp add: retarget_def)
  moreover have "length ?b = length (p2m_batch ctx)" using b' fs(1) lb by simp
  moreover have "ctx\<lparr>p2m := m, p2m_batch := b'\<rparr> = ctx\<lparr>p2m_batch := b', p2m := m\<rparr>" by simp
  ultimately show ?thesis using need batch unfolding cnt m_def [symmetric]
    by (intro exI [of _ ?b], cases "L = []") (simp_all add: uncanonicalize_pagetable_def Let_def)
qed

section \<open>There and back\<close>

definition frame_bits :: "nat \<Rightarrow> nat" where
  "frame_bits width = (if width = 8 then 40 else 32)"

lemma MFN_MASK_mask: "MFN_MASK_X86 width = mask (frame_bits width)"
  by (simp add: MFN_MASK_X86_def MADDR_BITS_X86_def frame_bits_def mask_eq_exp_minus_1)

lemma frame_bits_le: "frame_bits width \<le> 40"
  by (simp add: frame_bits_def)

definition zap_flags :: "save_ctx \<Rightarrow> ulong \<Rightarrow> ulong \<Rightarrow> ulong" where
  "zap_flags ctx type pte =
     (if pt_levels ctx = 3 \<and> type = PFINFO_L3TAB then pte AND NOT PAE_L3_FLAGS else pte)"

text \<open>The page number that an entry of the sender refers to; 0 when its frame is not the guest's.\<close>

definition src_pfn :: "save_ctx \<Rightarrow> ulong \<Rightarrow> ulong" where
  "src_pfn ctx pte =
     (let mfn = drop_bit 12 pte AND MFN_MASK_X86 (guest_width ctx)
      in if MFN_IS_IN_PSEUDOPHYS_MAP ctx mfn then mfn_to_pfn ctx mfn else 0)"

lemma canonicalize_pte_eq:
  "fst (canonicalize_pte ctx type False pte) =
     (if present pte then zap_flags ctx type ((pte AND NOT (MADDR_MASK_X86 (guest_width ctx))) OR push_bit 12 (src_pfn ctx pte)) else pte)"
proof -
  have z: "x AND NOT z = x" if "x AND z = 0" for x z :: ulong
  proof (rule bit_word_eqI)
    fix n assume "n < LENGTH(64)"
    from that have "bit (x AND z) n = bit (0 :: ulong) n" by simp
    with \<open>n < LENGTH(64)\<close> show "bit (x AND NOT z) n = bit x n" by (auto simp: bit_simps)
  qed
  show ?thesis by (auto simp: canonicalize_pte_def present_def zap_flags_def src_pfn_def Let_def z split: if_splits)
qed

lemma flags_small: "PAE_L3_FLAGS = 0x26"
  by (simp add: PAE_L3_FLAGS_def PAGE_USER_def PAGE_RW_def PAGE_ACCESSED_def)

lemma flags_bit: "bit PAE_L3_FLAGS n \<Longrightarrow> n < 12 \<and> n \<noteq> 0"
proof -
  have f: "PAE_L3_FLAGS = take_bit 12 PAE_L3_FLAGS" by (simp add: flags_small take_bit_eq_mask mask_numeral)
  assume b: "bit PAE_L3_FLAGS n"
  then have "bit (take_bit 12 PAE_L3_FLAGS) n" by (subst f [symmetric])
  then have "n < 12" by (simp add: bit_take_bit_iff)
  with b show ?thesis by (cases "n = 0") (auto simp: flags_small bit_0)
qed

text \<open>The page number can be read off the canonical entry, and the present bit and the flags stay.\<close>

lemma canonical_bits:
  assumes "pfn AND MFN_MASK_X86 width = pfn"
  shows "drop_bit 12 (zap_flags ctx type ((pte AND NOT (MADDR_MASK_X86 width)) OR push_bit 12 pfn)) AND MFN_MASK_X86 width = pfn"
    "present (zap_flags ctx type ((pte AND NOT (MADDR_MASK_X86 width)) OR push_bit 12 pfn)) = present pte"
    "zap_flags ctx type ((pte AND NOT (MADDR_MASK_X86 width)) OR push_bit 12 pfn) AND NOT (MADDR_MASK_X86 width) =
      zap_flags ctx type pte AND NOT (MADDR_MASK_X86 width)"
proof -
  have b: "n < frame_bits width \<and> n < 52" if "bit pfn n" for n
  proof -
    have "bit (pfn AND MFN_MASK_X86 width) n" using that assms by simp
    then have "n < frame_bits width" by (simp add: MFN_MASK_mask bit_simps)
    with frame_bits_le [of width] show ?thesis by simp
  qed
  note bits = zap_flags_def MADDR_MASK_X86_def MFN_MASK_mask bit_simps
  show "drop_bit 12 (zap_flags ctx type ((pte AND NOT (MADDR_MASK_X86 width)) OR push_bit 12 pfn)) AND MFN_MASK_X86 width = pfn"
    by (rule bit_word_eqI) (auto simp: bits dest: flags_bit b)
  have p: "present x \<longleftrightarrow> bit x 0" for x by (simp add: present_def PAGE_PRESENT_def bit_0 and_one_eq odd_iff_mod_2_eq_one)
  show "present (zap_flags ctx type ((pte AND NOT (MADDR_MASK_X86 width)) OR push_bit 12 pfn)) = present pte"
    unfolding p by (auto simp: bits dest: flags_bit)
  show "zap_flags ctx type ((pte AND NOT (MADDR_MASK_X86 width)) OR push_bit 12 pfn) AND NOT (MADDR_MASK_X86 width) =
      zap_flags ctx type pte AND NOT (MADDR_MASK_X86 width)"
    by (rule bit_word_eqI) (auto simp: bits dest: b)
qed

text \<open>Every entry of a table page, sent in canonical form and rewritten with the receiver's table.\<close>

definition restored_pte :: "save_ctx \<Rightarrow> ulong \<Rightarrow> ulong list \<Rightarrow> bool \<Rightarrow> ulong \<Rightarrow> ulong" where
  "restored_pte ctx type m xen pte =
     (if xen then 0
      else if present pte
      then (zap_flags ctx type pte AND NOT (MADDR_MASK_X86 (guest_width ctx))) OR push_bit 12 (m ! unat (src_pfn ctx pte))
      else pte)"

lemma retarget_canonical:
  assumes "r_width rctx = guest_width ctx" "r_pt_levels rctx \<noteq> 2"
    "src_pfn ctx pte AND MFN_MASK_X86 (guest_width ctx) = src_pfn ctx pte"
  shows "retarget rctx m (fst (canonicalize_pte ctx type xen pte)) = restored_pte ctx type m xen pte"
proof (cases xen)
  case True
  then show ?thesis by (simp add: canonicalize_pte_def restored_pte_def retarget_def present_def)
next
  case False
  show ?thesis using False assms canonical_bits [OF assms(3), of ctx type pte]
    by (simp add: canonicalize_pte_eq restored_pte_def retarget_def Let_def pte_pfn_def)
qed

lemma canonical_pfn:
  assumes "src_pfn ctx pte AND MFN_MASK_X86 (guest_width ctx) = src_pfn ctx pte" "present (fst (canonicalize_pte ctx type xen pte))"
  shows "pte_pfn (guest_width ctx) (fst (canonicalize_pte ctx type xen pte)) = unat (src_pfn ctx pte)"
proof -
  have "\<not> xen" using assms(2) by (auto simp: canonicalize_pte_def present_def)
  then have "present pte" using assms(2) canonical_bits(2) [OF assms(1), of ctx type pte]
    by (auto simp: canonicalize_pte_eq split: if_splits)
  with \<open>\<not> xen\<close> show ?thesis using canonical_bits(1) [OF assms(1), of ctx type pte]
    by (simp add: canonicalize_pte_eq pte_pfn_def)
qed

lemma src_pfn_less: "0 < p2m_size ctx \<Longrightarrow> src_pfn ctx pte < p2m_size ctx"
  by (simp add: src_pfn_def Let_def MFN_IS_IN_PSEUDOPHYS_MAP_def)

lemma small_frame:
  assumes "pfn \<le> MFN_MASK_X86 width"
  shows "pfn AND MFN_MASK_X86 width = pfn"
proof -
  have "unat pfn \<le> unat (MFN_MASK_X86 width)" using assms by (simp add: word_le_nat_alt)
  also have "\<dots> < 2 ^ frame_bits width" by (simp add: MFN_MASK_X86_def MADDR_BITS_X86_def frame_bits_def)
  finally have "take_bit (frame_bits width) pfn = pfn"
    by (simp add: word_unat_eq_iff unsigned_take_bit_eq take_bit_nat_eq_self)
  then show ?thesis by (simp add: MFN_MASK_mask take_bit_eq_mask)
qed

lemma canonicalize_pagetable_eq:
  assumes "pt_levels ctx \<noteq> 2"
  shows "fst (canonicalize_pagetable ctx type spage) =
    map (\<lambda>i. fst (canonicalize_pte ctx type (xen_slot ctx type spage i) (spage ! i))) [0..<512]"
  using assms by (simp add: canonicalize_pagetable_def Let_def pte_last_def)

text \<open>C27: A page of page-table entries that the sender has made canonical is accepted by the receiver, and the
  receiver's rewriting gives back every entry: the hypervisor's slots are empty, an entry that is not present is
  as it was, and a present entry keeps its flags (except the three that a PAE guest must not have at level 3) and
  points to the receiver's frame of the page that it pointed to at the sender, or of page 0 where the frame
  was not the guest's own. Every page that is pointed to has a frame afterwards and frames that were known stay.
\<close>

theorem pagetable_roundtrip:
  fixes ctx :: save_ctx and rctx :: restore_ctx
  assumes levels: "pt_levels ctx \<noteq> 2" "r_pt_levels rctx = pt_levels ctx" and width: "r_width rctx = guest_width ctx"
    and sizes: "r_p2m_size rctx = p2m_size ctx" "0 < p2m_size ctx" "p2m_size ctx \<le> MFN_MASK_X86 (guest_width ctx)"
    and table: "length (p2m rctx) = unat (p2m_size ctx)" "512 \<le> length (p2m_batch rctx)"
    and frames: "frames_ok (host rctx) (p2m rctx)" "512 \<le> length (host rctx)"
  shows "\<exists>m b h. uncanonicalize_pagetable rctx (fst (canonicalize_pagetable ctx type spage)) =
      Some (1, map (\<lambda>i. restored_pte ctx type m (xen_slot ctx type spage i) (spage ! i)) [0..<512],
        rctx\<lparr>p2m_batch := b, p2m := m, host := h\<rparr>) \<and>
    frames_ok h m \<and> length m = length (p2m rctx) \<and>
    (\<forall>p<length m. p2m rctx ! p \<noteq> INVALID_P2M_ENTRY \<longrightarrow> m ! p = p2m rctx ! p) \<and>
    (\<forall>i<512. \<not> xen_slot ctx type spage i \<and> present (spage ! i) \<longrightarrow> m ! unat (src_pfn ctx (spage ! i)) \<noteq> INVALID_P2M_ENTRY)"
proof -
  let ?page = "fst (canonicalize_pagetable ctx type spage)"
  let ?c = "\<lambda>i. fst (canonicalize_pte ctx type (xen_slot ctx type spage i) (spage ! i))"
  define ps where "ps = pte_pfns (r_width rctx) ?page"
  define m where "m = alloc_missing (host rctx) ps (p2m rctx)"
  have page: "?page = map ?c [0..<512]" by (rule canonicalize_pagetable_eq [OF levels(1)])
  have mask: "src_pfn ctx pte AND MFN_MASK_X86 (guest_width ctx) = src_pfn ctx pte" for pte
    using src_pfn_less [OF sizes(2), of pte] sizes(3) by (intro small_frame) simp
  have pfns: "set ps = {unat (src_pfn ctx (spage ! i)) |i. i < 512 \<and> present (?c i)}"
    unfolding ps_def page pte_pfns_def by (force simp: width canonical_pfn [OF mask])
  then have rng: "\<forall>p\<in>set ps. p < unat (p2m_size ctx)"
    using src_pfn_less [OF sizes(2)] by (auto simp: word_less_nat_alt)
  have "length ps \<le> 512" by (simp add: ps_def pte_pfns_def page order_trans [OF length_filter_le])
  then have cnt: "alloc_count ps (p2m rctx) \<le> length (host rctx)" using alloc_count_le [of ps "p2m rctx"] frames(2) by simp
  let ?h = "drop (alloc_count ps (p2m rctx)) (host rctx)"
  obtain b where u: "uncanonicalize_pagetable rctx ?page = Some (1, map (retarget rctx m) ?page, rctx\<lparr>p2m_batch := b, p2m := m, host := ?h\<rparr>)"
    using uncanonicalize_ok [of rctx ?page] frames(1) table cnt rng sizes(1) page unfolding ps_def m_def frames_ok_def by auto
  have ok: "frames_ok ?h m" using frames_ok_alloc [OF frames(1) cnt] rng table(1) by (simp add: m_def)
  have "map (retarget rctx m) ?page = map (\<lambda>i. restored_pte ctx type m (xen_slot ctx type spage i) (spage ! i)) [0..<512]"
    unfolding page by (simp add: retarget_canonical [OF width _ mask] levels)
  moreover have "m ! unat (src_pfn ctx (spage ! i)) \<noteq> INVALID_P2M_ENTRY"
    if "i < 512" "\<not> xen_slot ctx type spage i" "present (spage ! i)" for i
  proof -
    have "present (?c i)" using that canonical_bits(2) [OF mask] by (simp add: canonicalize_pte_eq)
    then have "unat (src_pfn ctx (spage ! i)) \<in> set ps" using that(1) pfns by blast
    then show ?thesis using alloc_missing_new [of "host rctx" ps "p2m rctx"] frames(1) cnt rng table(1) unfolding m_def frames_ok_def by simp
  qed
  ultimately show ?thesis using u ok by (intro exI [of _ m] exI [of _ b] exI [of _ ?h]) (auto simp: m_def alloc_missing_old)
qed

text \<open>
  A table page with two present entries, and a receiver that has a frame for one of the two
  pages.
\<close>

definition ex_save :: save_ctx where
  "ex_save = \<lparr>hvirt_start = 0, pt_levels = 4, max_mfn = 16, live_p2m64 = (\<lambda>p. p + 2), live_p2m32 = (\<lambda>p. 0),
     live_m2p = (\<lambda>f. f - 2), m2p_mfn0 = 0, guest_width = 8, p2m_size = 8\<rparr>"

definition frame_range :: "nat \<Rightarrow> nat \<Rightarrow> ulong list" where
  "frame_range a b = map of_nat [a..<b]"

lemma frame_range_length [simp]: "length (frame_range a b) = b - a"
  by (simp add: frame_range_def)

lemma frame_range_distinct: "b \<le> 2 ^ 64 \<Longrightarrow> distinct (frame_range a b)"
  by (simp add: frame_range_def distinct_map inj_on_def word_of_nat_eq_iff take_bit_nat_eq_self order_less_le_trans)

lemma frame_range_set: "b \<le> 2 ^ 64 \<Longrightarrow> f \<in> set (frame_range a b) \<Longrightarrow> a \<le> unat f \<and> unat f < b"
  by (auto simp: frame_range_def unat_of_nat order_less_le_trans)

definition ex_restore :: restore_ctx where
  "ex_restore = \<lparr>r_pt_levels = 4, r_width = 8, r_p2m_size = 8, p2m = (replicate 8 INVALID_P2M_ENTRY)[3 := 7],
     p2m_batch = replicate 512 0, nr_pfns = 0, host = frame_range 100 612\<rparr>"

lemma ex_restore_ok: "frames_ok (host ex_restore) (p2m ex_restore)"
proof -
  have "p2m_wf (p2m ex_restore)"
    by (simp add: p2m_wf_def ex_restore_def INVALID_P2M_ENTRY_def nth_list_update)
  moreover have "distinct (host ex_restore)" by (simp add: ex_restore_def frame_range_distinct)
  moreover have h: "f \<notin> {- 1, - 2, 7}" if "f \<in> set (host ex_restore)" for f
    using frame_range_set [of 612 f 100] that by (auto simp: ex_restore_def unsigned_minus_1_eq_mask mask_eq_exp_minus_1)
  moreover have "set (p2m ex_restore) = {- 1, 7}" by (auto simp: ex_restore_def INVALID_P2M_ENTRY_def numeral_eq_Suc)
  ultimately show ?thesis by (auto simp: frames_ok_def INVALID_P2M_ENTRY_def)
qed

lemma pagetable_roundtrip_witness:
  "\<exists>page m b h. uncanonicalize_pagetable ex_restore
     (fst (canonicalize_pagetable ex_save PFINFO_L1TAB (0x5067 # 0x4067 # replicate 510 0))) =
       Some (1, page, ex_restore\<lparr>p2m_batch := b, p2m := m, host := h\<rparr>) \<and>
   page ! 0 = 0x7067 \<and> page ! 1 = 0x67 OR push_bit 12 (m ! 2) \<and> m ! 2 \<noteq> INVALID_P2M_ENTRY \<and> page ! 2 = 0"
proof -
  let ?spage = "0x5067 # 0x4067 # replicate 510 0 :: ulong list"
  obtain m b h where u: "uncanonicalize_pagetable ex_restore (fst (canonicalize_pagetable ex_save PFINFO_L1TAB ?spage)) =
      Some (1, map (\<lambda>i. restored_pte ex_save PFINFO_L1TAB m (xen_slot ex_save PFINFO_L1TAB ?spage i) (?spage ! i)) [0..<512],
        ex_restore\<lparr>p2m_batch := b, p2m := m, host := h\<rparr>)" and m: "length m = 8" 
    "\<forall>p<length m. p2m ex_restore ! p \<noteq> INVALID_P2M_ENTRY \<longrightarrow> m ! p = p2m ex_restore ! p"
    "\<forall>i<512. \<not> xen_slot ex_save PFINFO_L1TAB ?spage i \<and> present (?spage ! i) \<longrightarrow> m ! unat (src_pfn ex_save (?spage ! i)) \<noteq> INVALID_P2M_ENTRY"
    using pagetable_roundtrip [of ex_save ex_restore PFINFO_L1TAB ?spage, OF _ _ _ _ _ _ _ _ ex_restore_ok]
    by (auto simp: ex_save_def ex_restore_def MFN_MASK_X86_def MADDR_BITS_X86_def)
  have x: "\<not> xen_slot ex_save PFINFO_L1TAB ?spage i" if "i < 512" for i
    using that by (simp add: xen_slot_def xen_slots_def Let_def pte_last_def ex_save_def PFINFO_L1TAB_def PFINFO_L4TAB_def)
  have s: "src_pfn ex_save 0x5067 = 3" "src_pfn ex_save 0x4067 = 2" "present 0x5067" "present 0x4067" "\<not> present 0" by code_simp+
  have "m ! 3 = 7" using m(1,2) by (simp add: ex_restore_def INVALID_P2M_ENTRY_def)
  moreover have "m ! 2 \<noteq> INVALID_P2M_ENTRY" using m(3) x [of 1] s by (auto dest: spec [of _ 1])
  ultimately show ?thesis using u x s
    by (intro exI [of _ "map (\<lambda>i. restored_pte ex_save PFINFO_L1TAB m (xen_slot ex_save PFINFO_L1TAB ?spage i) (?spage ! i)) [0..<512]"]
        exI [of _ m] exI [of _ b] exI [of _ h]) (simp add: restored_pte_def zap_flags_def MADDR_MASK_X86_def MFN_MASK_X86_def MADDR_BITS_X86_def ex_save_def)
qed

end
