(* ===== verification/Mig_Pagebuf.thy ===== *)
theory Mig_Pagebuf
  imports Mig_Ssl Mig_Pagetable
begin

text \<open>
  \<^verbatim>\<open>pagebuf_get_one\<close>, \<^verbatim>\<open>slave_pagebuf_get_one\<close> and \<^verbatim>\<open>pagebuf_get\<close> of \<^verbatim>\<open>tools/libxc/xc_domain_restore.c\<close>: a chunk of the
  migration stream is read into a page buffer, with all its markers. The two copies of the function in the source
  differ in the reader, in the markers of the threads and in what they do with some chunks; the definition
  \<open>get_one\<close> takes these as parameters.
\<close>

unbundle bit_operations_syntax

section \<open>Numbers and arrays as bytes\<close>

primrec le_bytes :: "nat \<Rightarrow> ulong \<Rightarrow> byte list" where
  "le_bytes 0 w = []"
| "le_bytes (Suc n) w = ucast w # le_bytes n (drop_bit 8 w)"

primrec of_le :: "byte list \<Rightarrow> ulong" where
  "of_le [] = 0"
| "of_le (b # bs) = ucast b OR push_bit 8 (of_le bs)"

definition le_array :: "nat \<Rightarrow> ulong list \<Rightarrow> byte list" where
  "le_array k ws = concat (map (le_bytes k) ws)"

primrec of_le_array :: "nat \<Rightarrow> nat \<Rightarrow> byte list \<Rightarrow> ulong list" where
  "of_le_array k 0 bs = []"
| "of_le_array k (Suc n) bs = of_le (take k bs) # of_le_array k n (drop k bs)"

lemma le_bytes_length [simp]: "length (le_bytes n w) = n"
  by (induction n arbitrary: w) auto

lemma le_array_length [simp]: "length (le_array k ws) = k * length ws"
  by (induction ws) (auto simp: le_array_def)

lemma of_le_array_length [simp]: "length (of_le_array k n bs) = n"
  by (induction n arbitrary: bs) auto

lemma of_le_bytes: "of_le (le_bytes n w) = take_bit (8 * n) w"
proof (induction n arbitrary: w)
  case (Suc n)
  have "ucast (ucast w :: byte) OR push_bit 8 (take_bit (8 * n) (drop_bit 8 w)) = take_bit (8 * Suc n) w"
    by (rule bit_word_eqI) (auto simp: bit_simps)
  with Suc show ?case by simp
qed simp

lemma of_le_array_le:
  assumes "\<forall>w\<in>set ws. take_bit (8 * k) w = w"
  shows "of_le_array k (length ws) (le_array k ws @ bs) = ws"
  using assms
proof (induction ws)
  case (Cons w ws)
  have "le_array k (w # ws) @ bs = le_bytes k w @ (le_array k ws @ bs)" by (simp add: le_array_def)
  with Cons show ?case by (simp add: of_le_bytes)
qed simp

lemma of_le_array_8 [simp]: "of_le_array 8 (length ws) (le_array 8 ws) = ws"
  using of_le_array_le [of ws 8 "[]"] by (simp add: take_bit_word_eq_self)

section \<open>Page buffers\<close>

definition XC_SAVE_ID_ENABLE_VERIFY_MODE :: int where "XC_SAVE_ID_ENABLE_VERIFY_MODE = - 1"
definition XC_SAVE_ID_VCPU_INFO :: int where "XC_SAVE_ID_VCPU_INFO = - 2"
definition XC_SAVE_ID_HVM_IDENT_PT :: int where "XC_SAVE_ID_HVM_IDENT_PT = - 3"
definition XC_SAVE_ID_HVM_VM86_TSS :: int where "XC_SAVE_ID_HVM_VM86_TSS = - 4"
definition XC_SAVE_ID_TMEM :: int where "XC_SAVE_ID_TMEM = - 5"
definition XC_SAVE_ID_TMEM_EXTRA :: int where "XC_SAVE_ID_TMEM_EXTRA = - 6"
definition XC_SAVE_ID_TSC_INFO :: int where "XC_SAVE_ID_TSC_INFO = - 7"
definition XC_SAVE_ID_HVM_CONSOLE_PFN :: int where "XC_SAVE_ID_HVM_CONSOLE_PFN = - 8"
definition XC_SAVE_ID_LAST_CHECKPOINT :: int where "XC_SAVE_ID_LAST_CHECKPOINT = - 9"
definition XC_SAVE_ID_HVM_ACPI_IOPORTS_LOCATION :: int where "XC_SAVE_ID_HVM_ACPI_IOPORTS_LOCATION = - 10"
definition XC_PARA_MIGR_END :: int where "XC_PARA_MIGR_END = - 11"
definition XC_LAST_ITER_FIRST :: int where "XC_LAST_ITER_FIRST = - 12"
definition XC_ITERATION_BARRIER :: int where "XC_ITERATION_BARRIER = - 13"
definition MAX_BATCH_SIZE :: nat where "MAX_BATCH_SIZE = 1024"
definition PAGE_SIZE :: nat where "PAGE_SIZE = 4096"

lemmas save_ids = XC_SAVE_ID_ENABLE_VERIFY_MODE_def XC_SAVE_ID_VCPU_INFO_def XC_SAVE_ID_HVM_IDENT_PT_def XC_SAVE_ID_HVM_VM86_TSS_def
  XC_SAVE_ID_TMEM_def XC_SAVE_ID_TMEM_EXTRA_def XC_SAVE_ID_TSC_INFO_def XC_SAVE_ID_HVM_CONSOLE_PFN_def XC_SAVE_ID_LAST_CHECKPOINT_def
  XC_SAVE_ID_HVM_ACPI_IOPORTS_LOCATION_def XC_PARA_MIGR_END_def XC_LAST_ITER_FIRST_def XC_ITERATION_BARRIER_def

text \<open>\<^verbatim>\<open>pagebuf_t\<close>; the two arrays have the length of their memory, a null pointer is the empty array.\<close>

record pagebuf =
  pages :: "byte list"
  nr_physpages :: u32
  nr_pages :: u32
  pfn_types :: "ulong list"
  verify :: bool
  new_ctxt_format :: bool
  max_vcpu_id :: u32
  vcpumap :: ulong
  identpt :: ulong
  vm86_tss :: ulong
  console_pfn :: ulong
  acpi_ioport_location :: ulong

definition pagebuf_init :: pagebuf where
  "pagebuf_init = \<lparr>pages = [], nr_physpages = 0, nr_pages = 0, pfn_types = [], verify = False, new_ctxt_format = False,
     max_vcpu_id = 0, vcpumap = 0, identpt = 0, vm86_tss = 0, console_pfn = 0, acpi_ioport_location = 0\<rparr>"

definition pagebuf_free :: "pagebuf \<Rightarrow> pagebuf" where
  "pagebuf_free buf = buf\<lparr>pages := [], pfn_types := []\<rparr>"

text \<open>
  What a reader of the stream works with: the exact read (None in place of the bytes when it fails), the calls
  that restore the guest's transcendent memory and its time-stamp counter, the allocator's answers and the
  contents of fresh memory.
\<close>

record 's get_env =
  ge_rd :: "nat \<Rightarrow> 's \<Rightarrow> (byte list option \<times> 's) option"
  ge_tmem :: "'s \<Rightarrow> int \<times> 's"
  ge_tmem_extra :: "'s \<Rightarrow> int \<times> 's"
  ge_tsc :: "u32 \<Rightarrow> ulong \<Rightarrow> u32 \<Rightarrow> u32 \<Rightarrow> int"
  ge_mem :: "nat \<Rightarrow> bool"
  ge_junk :: "nat \<Rightarrow> byte"
  ge_junk64 :: "nat \<Rightarrow> ulong"

definition resize :: "(nat \<Rightarrow> 'a) \<Rightarrow> nat \<Rightarrow> 'a list \<Rightarrow> 'a list" where
  "resize junk n xs = take n xs @ map junk [length xs..<n]"

definition put_at :: "nat \<Rightarrow> 'a list \<Rightarrow> 'a list \<Rightarrow> 'a list option" where
  "put_at i d xs = (if i + length d \<le> length xs then Some (take i xs @ d @ drop (i + length d) xs) else None)"

text \<open>Four bytes that are skipped and a number of eight bytes.\<close>

definition rd_skip_u64 :: "'s get_env \<Rightarrow> 's \<Rightarrow> (ulong option \<times> 's) option" where
  "rd_skip_u64 env s = do {
     (d, s) \<leftarrow> ge_rd env 4 s;
     case d of None \<Rightarrow> Some (None, s)
     | Some _ \<Rightarrow> do { (d, s) \<leftarrow> ge_rd env 8 s; Some (map_option of_le d, s) }
   }"

definition rd_vcpu_info :: "'s get_env \<Rightarrow> pagebuf \<Rightarrow> 's \<Rightarrow> (bool \<times> pagebuf \<times> 's) option" where
  "rd_vcpu_info env buf s = do {
     let buf = buf\<lparr>new_ctxt_format := True\<rparr>;
     (d, s) \<leftarrow> ge_rd env 4 s;
     case d of None \<Rightarrow> Some (False, buf, s)
     | Some d \<Rightarrow>
         let buf = buf\<lparr>max_vcpu_id := of_le32 d\<rparr>
         in if sint (max_vcpu_id buf) \<ge> 64 then Some (False, buf, s)
            else do {
              (d, s) \<leftarrow> ge_rd env 8 s;
              case d of None \<Rightarrow> Some (False, buf, s) | Some d \<Rightarrow> Some (True, buf\<lparr>vcpumap := of_le d\<rparr>, s)
            }
   }"

definition rd_tsc_info :: "'s get_env \<Rightarrow> 's \<Rightarrow> (bool \<times> 's) option" where
  "rd_tsc_info env s = do {
     (tsc_mode, s) \<leftarrow> ge_rd env 4 s;
     if tsc_mode = None then Some (False, s)
     else do {
       (nsec, s) \<leftarrow> ge_rd env 8 s;
       if nsec = None then Some (False, s)
       else do {
         (khz, s) \<leftarrow> ge_rd env 4 s;
         if khz = None then Some (False, s)
         else do {
           (incarn, s) \<leftarrow> ge_rd env 4 s;
           if incarn = None then Some (False, s)
           else Some (ge_tsc env (of_le32 (the tsc_mode)) (of_le (the nsec)) (of_le32 (the khz)) (of_le32 (the incarn)) = 0, s)
         }
       }
     }
   }"

text \<open>A batch of \<open>count\<close> pages: their types, and the contents of those that are there.\<close>

definition is_xtab :: "ulong \<Rightarrow> bool" where
  "is_xtab t \<longleftrightarrow> t AND PFINFO_LTAB_MASK = PFINFO_XTAB"

definition get_batch :: "'s get_env \<Rightarrow> nat \<Rightarrow> pagebuf \<Rightarrow> 's \<Rightarrow> (int \<times> pagebuf \<times> 's) option" where
  "get_batch env count buf s =
     (let oldcount = unat (nr_pages buf); buf = buf\<lparr>nr_pages := nr_pages buf + of_nat count\<rparr>
      in if \<not> ge_mem env (unat (nr_pages buf) * 8) then Some (- 1, buf, s)
         else do {
           let buf = buf\<lparr>pfn_types := resize (ge_junk64 env) (unat (nr_pages buf)) (pfn_types buf)\<rparr>;
           (d, s) \<leftarrow> ge_rd env (count * 8) s;
           case d of None \<Rightarrow> Some (- 1, buf, s)
           | Some d \<Rightarrow> do {
               types \<leftarrow> put_at oldcount (of_le_array 8 count d) (pfn_types buf);
               let buf = buf\<lparr>pfn_types := types\<rparr>;
               let countpages = count - length (filter is_xtab (drop oldcount types));
               if countpages = 0 then Some (int count, buf, s)
               else let oldcount = unat (nr_physpages buf); buf = buf\<lparr>nr_physpages := nr_physpages buf + of_nat countpages\<rparr>
                    in if \<not> ge_mem env (unat (nr_physpages buf) * PAGE_SIZE) then Some (- 1, buf, s)
                       else do {
                         let buf = buf\<lparr>pages := resize (ge_junk env) (unat (nr_physpages buf) * PAGE_SIZE) (pages buf)\<rparr>;
                         (d, s) \<leftarrow> ge_rd env (countpages * PAGE_SIZE) s;
                         case d of None \<Rightarrow> Some (- 1, buf, s)
                         | Some d \<Rightarrow> do {
                             ps \<leftarrow> put_at (oldcount * PAGE_SIZE) d (pages buf);
                             Some (int count, buf\<lparr>pages := ps\<rparr>, s)
                           }
                       }
             }
         })"

text \<open>
  \<^verbatim>\<open>pagebuf_get_one\<close> and \<^verbatim>\<open>slave_pagebuf_get_one\<close> have the same text over different reads. The state beside the
  buffer is whether the last checkpoint has been announced. None is a call that does not return or an access
  beyond an array.
\<close>

partial_function (option) get_one :: "'s get_env \<Rightarrow> pagebuf \<Rightarrow> bool \<Rightarrow> 's \<Rightarrow> (int \<times> pagebuf \<times> bool \<times> 's) option" where
  "get_one env buf lc s = do {
     (d, s) \<leftarrow> ge_rd env 4 s;
     case d of None \<Rightarrow> Some (- 1, buf, lc, s)
     | Some d \<Rightarrow>
        (let count = sint (of_le32 d)
         in if count = 0 then Some (0, buf, lc, s)
            else if count = XC_PARA_MIGR_END then Some (1, buf\<lparr>nr_pages := 0, nr_physpages := 1\<rparr>, lc, s)
            else if count = XC_LAST_ITER_FIRST then Some (1, buf\<lparr>nr_pages := 1, nr_physpages := 0\<rparr>, lc, s)
            else if count = XC_ITERATION_BARRIER then Some (1, buf\<lparr>nr_pages := 0, nr_physpages := 0\<rparr>, lc, s)
            else if count = XC_SAVE_ID_ENABLE_VERIFY_MODE then get_one env (buf\<lparr>verify := True\<rparr>) lc s
            else if count = XC_SAVE_ID_VCPU_INFO
            then do { (ok, buf, s) \<leftarrow> rd_vcpu_info env buf s; if ok then get_one env buf lc s else Some (- 1, buf, lc, s) }
            else if count = XC_SAVE_ID_HVM_IDENT_PT
            then do { (v, s) \<leftarrow> rd_skip_u64 env s;
                      case v of None \<Rightarrow> Some (- 1, buf, lc, s) | Some v \<Rightarrow> get_one env (buf\<lparr>identpt := v\<rparr>) lc s }
            else if count = XC_SAVE_ID_HVM_VM86_TSS
            then do { (v, s) \<leftarrow> rd_skip_u64 env s;
                      case v of None \<Rightarrow> Some (- 1, buf, lc, s) | Some v \<Rightarrow> get_one env (buf\<lparr>vm86_tss := v\<rparr>) lc s }
            else if count = XC_SAVE_ID_TMEM
            then (let (r, s) = ge_tmem env s in if r \<noteq> 0 then Some (- 1, buf, lc, s) else get_one env buf lc s)
            else if count = XC_SAVE_ID_TMEM_EXTRA
            then (let (r, s) = ge_tmem_extra env s in if r \<noteq> 0 then Some (- 1, buf, lc, s) else get_one env buf lc s)
            else if count = XC_SAVE_ID_TSC_INFO
            then do { (ok, s) \<leftarrow> rd_tsc_info env s; Some (if ok then 0 else - 1, buf, lc, s) }
            else if count = XC_SAVE_ID_HVM_CONSOLE_PFN
            then do { (v, s) \<leftarrow> rd_skip_u64 env s;
                      case v of None \<Rightarrow> Some (- 1, buf, lc, s) | Some v \<Rightarrow> get_one env (buf\<lparr>console_pfn := v\<rparr>) lc s }
            else if count = XC_SAVE_ID_LAST_CHECKPOINT then get_one env buf True s
            else if count = XC_SAVE_ID_HVM_ACPI_IOPORTS_LOCATION
            then do { (v, s) \<leftarrow> rd_skip_u64 env s;
                      case v of None \<Rightarrow> Some (- 1, buf, lc, s) | Some v \<Rightarrow> get_one env (buf\<lparr>acpi_ioport_location := v\<rparr>) lc s }
            else if count > int MAX_BATCH_SIZE \<or> count < 0 then Some (- 1, buf, lc, s)
            else do { (rc, buf, s) \<leftarrow> get_batch env (nat count) buf s; Some (rc, buf, lc, s) })
   }"

definition pipe_rd :: "bool \<Rightarrow> nat \<Rightarrow> pipe \<Rightarrow> (byte list option \<times> pipe) option" where
  "pipe_rd completed n p = map_option (\<lambda>(rc, d, p). (if rc = 0 then Some d else None, p)) (pipe_rdexact completed n p)"

definition ssl_rd :: "'c crypt \<Rightarrow> (nat \<Rightarrow> byte) \<Rightarrow> bool \<Rightarrow> nat \<Rightarrow> 'c ssl_wrap \<times> pipe \<Rightarrow> (byte list option \<times> 'c ssl_wrap \<times> pipe) option" where
  "ssl_rd crypt junk completed n s = map_option (\<lambda>(d, s). (Some d, s)) (ssl_rdexact crypt junk completed n s)"

definition pagebuf_get_one :: "bool \<Rightarrow> pipe get_env \<Rightarrow> pagebuf \<Rightarrow> bool \<Rightarrow> pipe \<Rightarrow> (int \<times> pagebuf \<times> bool \<times> pipe) option" where
  "pagebuf_get_one completed env = get_one (env\<lparr>ge_rd := pipe_rd completed\<rparr>)"

definition slave_pagebuf_get_one ::
    "'c crypt \<Rightarrow> bool \<Rightarrow> ('c ssl_wrap \<times> pipe) get_env \<Rightarrow> pagebuf \<Rightarrow> bool \<Rightarrow> 'c ssl_wrap \<times> pipe \<Rightarrow>
     (int \<times> pagebuf \<times> bool \<times> 'c ssl_wrap \<times> pipe) option" where
  "slave_pagebuf_get_one crypt completed env = get_one (env\<lparr>ge_rd := ssl_rd crypt (ge_junk env) completed\<rparr>)"

text \<open>\<^verbatim>\<open>pagebuf_get\<close>: everything up to the mark at the end of a round.\<close>

partial_function (option) get_loop :: "bool \<Rightarrow> pipe get_env \<Rightarrow> pagebuf \<Rightarrow> bool \<Rightarrow> pipe \<Rightarrow> (int \<times> pagebuf \<times> bool \<times> pipe) option" where
  "get_loop completed env buf lc p = do {
     (rc, buf, lc, p) \<leftarrow> pagebuf_get_one completed env buf lc p;
     if rc > 0 then get_loop completed env buf lc p else Some (rc, buf, lc, p)
   }"

definition pagebuf_get :: "bool \<Rightarrow> pipe get_env \<Rightarrow> pagebuf \<Rightarrow> bool \<Rightarrow> pipe \<Rightarrow> (int \<times> pagebuf \<times> bool \<times> pipe) option" where
  "pagebuf_get completed env buf lc p = do {
     (rc, buf, lc, p) \<leftarrow> get_loop completed env (buf\<lparr>nr_physpages := 0, nr_pages := 0\<rparr>) lc p;
     Some (rc, if rc < 0 then pagebuf_free buf else buf, lc, p)
   }"

section \<open>Reading a message\<close>

lemma of_le32_flat [simp]: "of_le32 (le32 w) = w"
  using of_le32_le32 [of w "[]"] by simp

lemma resize_length [simp]: "length (resize junk n xs) = n"
  by (simp add: resize_def)

lemma put_at_all: "length d = length xs \<Longrightarrow> put_at 0 d xs = Some d"
  by (simp add: put_at_def)

lemma filter_not_xtab: "length types - length (filter is_xtab types) = length (filter (\<lambda>t. \<not> is_xtab t) types)"
  using sum_length_filter_compl [of is_xtab types] by linarith

lemma get_batch_ok:
  assumes rd: "ge_rd env (length types * 8) s = Some (Some (le_array 8 types), s2)"
    and k: "k = length (filter (\<lambda>t. \<not> is_xtab t) types)"
    and pg: "if k = 0 then s3 = s2 \<and> d = pages buf else ge_rd env (k * PAGE_SIZE) s2 = Some (Some d, s3) \<and> length d = k * PAGE_SIZE"
    and buf: "nr_pages buf = 0" "nr_physpages buf = 0" and mem: "\<forall>n. ge_mem env n" and n: "length types \<le> MAX_BATCH_SIZE"
  shows "get_batch env (length types) buf s = Some (int (length types),
    buf\<lparr>nr_pages := of_nat (length types), pfn_types := types, nr_physpages := of_nat k, pages := d\<rparr>, s3)"
proof -
  have "k \<le> length types" using k by simp
  then have u: "unat (of_nat (length types) :: u32) = length types" "unat (of_nat k :: u32) = k"
    using n by (simp_all add: unat_of_nat MAX_BATCH_SIZE_def)
  show ?thesis
  proof (cases "k = 0")
    case True
    then show ?thesis using rd pg buf mem u filter_not_xtab [of types] k
      by (simp add: get_batch_def Let_def put_at_all)
  next
    case False
    then have "\<not> length types \<le> length (filter is_xtab types)" using filter_not_xtab [of types] k by linarith
    then show ?thesis using False rd pg buf mem u filter_not_xtab [of types] k
      by (simp add: get_batch_def Let_def put_at_all)
  qed
qed

lemma get_one_batch:
  assumes "ge_rd env 4 s = Some (Some (le32 (of_nat (length types))), s1)" "types \<noteq> []" "length types \<le> MAX_BATCH_SIZE"
    "get_batch env (length types) buf s1 = Some (rc, buf', s3)"
  shows "get_one env buf lc s = Some (rc, buf', lc, s3)"
proof -
  have "sint (of_nat (length types) :: u32) = int (length types)"
    using assms(3) by (simp add: signed_of_nat MAX_BATCH_SIZE_def signed_take_bit_int_eq_self)
  then show ?thesis using assms by (subst get_one.simps) (simp add: save_ids Let_def)
qed

lemma get_one_flags:
  "ge_rd env 4 s = Some (Some (le32 (of_int XC_PARA_MIGR_END)), s1) \<Longrightarrow>
     get_one env buf lc s = Some (1, buf\<lparr>nr_pages := 0, nr_physpages := 1\<rparr>, lc, s1)"
  "ge_rd env 4 s = Some (Some (le32 (of_int XC_LAST_ITER_FIRST)), s1) \<Longrightarrow>
     get_one env buf lc s = Some (1, buf\<lparr>nr_pages := 1, nr_physpages := 0\<rparr>, lc, s1)"
  "ge_rd env 4 s = Some (Some (le32 (of_int XC_ITERATION_BARRIER)), s1) \<Longrightarrow>
     get_one env buf lc s = Some (1, buf\<lparr>nr_pages := 0, nr_physpages := 0\<rparr>, lc, s1)"
  by (subst get_one.simps, simp add: save_ids Let_def)+

end
