(* ===== verification/Mig_Send.thy ===== *)
theory Mig_Send
  imports Mig_Pagebuf
begin

text \<open>
  \<^verbatim>\<open>send_patch\<close> of \<^verbatim>\<open>tools/libxc/xc_domain_save.c\<close>, the sending thread of the parallel migration: batches come from the
  queue, the hypervisor maps their pages and tells their types, page tables are made canonical, and runs of other
  pages are written at once. The lemmas show that the runs do not matter: the bytes on the connection are those
  of the pages in order.
\<close>

unbundle bit_operations_syntax

section \<open>A sending thread\<close>

text \<open>
  A batch of pages as \<^verbatim>\<open>send_patch\<close> takes it from the queue, and what the hypervisor answers for it: the mapped
  pages, the error of each and the types of the pages (None when the call fails).
\<close>

record send_argu =
  sa_pfn_batch :: "ulong list"
  sa_live :: bool
  sa_last_iter :: bool
  sa_ob :: "byte list"

record map_answer =
  ma_region :: "byte list list option"
  ma_err :: "int list"
  ma_types :: "ulong list option"

definition canon_type :: "ulong \<Rightarrow> int \<Rightarrow> ulong \<Rightarrow> ulong" where
  "canon_type pfn err t = (if err \<noteq> 0 then PFINFO_XTAB else if t = PFINFO_XTAB then t else t OR pfn)"

definition canon_types :: "ulong list \<Rightarrow> int list \<Rightarrow> ulong list \<Rightarrow> ulong list" where
  "canon_types pfns errs types = map (\<lambda>(p, e, t). canon_type p e t) (zip pfns (zip errs types))"

definition valid_count :: "int list \<Rightarrow> ulong list \<Rightarrow> nat" where
  "valid_count errs types = length (filter (\<lambda>(e, t). e = 0 \<and> t \<noteq> PFINFO_XTAB) (zip errs types))"

definition is_table :: "ulong \<Rightarrow> bool" where
  "is_table t \<longleftrightarrow> (let pt = (t AND PFINFO_LTAB_MASK) AND PFINFO_LTABTYPE_MASK in PFINFO_L1TAB \<le> pt \<and> pt \<le> PFINFO_L4TAB)"

definition page_words :: "nat \<Rightarrow> byte list \<Rightarrow> ulong list" where
  "page_words levels page = of_le_array (if levels = 2 then 4 else 8) (pte_last levels) page"

definition page_bytes :: "nat \<Rightarrow> ulong list \<Rightarrow> byte list" where
  "page_bytes levels ws = le_array (if levels = 2 then 4 else 8) ws"

text \<open>
  The loop that writes the pages, at page \<open>j\<close> with \<open>run\<close> pages before it that are still to be written. The result
  is whether the loop has come to its end; a fatal race with the guest and a short write leave it.
\<close>

definition write_run ::
    "'c crypt \<Rightarrow> (nat \<Rightarrow> byte) \<Rightarrow> nat \<Rightarrow> byte list list \<Rightarrow> nat \<Rightarrow> nat \<Rightarrow> 'c ssl_wrap \<times> pipe \<Rightarrow> (bool \<times> 'c ssl_wrap \<times> pipe) option" where
  "write_run crypt junk lim region j run st =
     (if run = 0 then Some (True, st)
      else do { (n, st) \<leftarrow> ssl_ratewrite crypt junk lim (concat (take run (drop (j - run) region))) st; Some (n = PAGE_SIZE * run, st) })"

fun send_pages ::
    "'c crypt \<Rightarrow> (nat \<Rightarrow> byte) \<Rightarrow> nat \<Rightarrow> save_ctx \<Rightarrow> bool \<Rightarrow> byte list list \<Rightarrow> nat \<Rightarrow> nat \<Rightarrow> ulong list \<Rightarrow> 'c ssl_wrap \<times> pipe \<Rightarrow>
     (bool \<times> 'c ssl_wrap \<times> pipe) option" where
  "send_pages crypt junk lim ctx live region j run [] st = write_run crypt junk lim region j run st"
| "send_pages crypt junk lim ctx live region j run (t # ts) st =
     (let pagetype = t AND PFINFO_LTAB_MASK
      in do {
        (ok, st) \<leftarrow> (if pagetype \<noteq> 0 then write_run crypt junk lim region j run st else Some (True, st));
        let run = (if pagetype \<noteq> 0 then 0 else run);
        if \<not> ok then Some (False, st)
        else if pagetype = PFINFO_XTAB then send_pages crypt junk lim ctx live region (j + 1) run ts st
        else let pagetype = pagetype AND PFINFO_LTABTYPE_MASK
             in if PFINFO_L1TAB \<le> pagetype \<and> pagetype \<le> PFINFO_L4TAB
                then let (ws, race) = canonicalize_pagetable ctx pagetype (page_words (pt_levels ctx) (region ! j))
                     in if race \<and> \<not> live then Some (False, st)
                        else do {
                          (n, st) \<leftarrow> ssl_ratewrite crypt junk lim (page_bytes (pt_levels ctx) ws) st;
                          if n \<noteq> PAGE_SIZE then Some (False, st) else send_pages crypt junk lim ctx live region (j + 1) run ts st
                        }
                else send_pages crypt junk lim ctx live region (j + 1) (run + 1) ts st
      })"

text \<open>
  One turn of the loop of \<^verbatim>\<open>send_patch\<close>: whether the thread goes on, whether it has announced the last round, and
  the connection.
\<close>

definition announce ::
    "'c crypt \<Rightarrow> (nat \<Rightarrow> byte) \<Rightarrow> nat \<Rightarrow> bool \<Rightarrow> bool \<Rightarrow> 'c ssl_wrap \<times> pipe \<Rightarrow> (bool \<times> 'c ssl_wrap \<times> pipe) option" where
  "announce crypt junk lim ever last_iter st =
     (if \<not> ever \<and> last_iter
      then do { (rc, st) \<leftarrow> ssl_wrexact crypt junk lim (le32 (of_int XC_LAST_ITER_FIRST)) st; Some (True, st) }
      else Some (ever, st))"

definition send_batch ::
    "'c crypt \<Rightarrow> (nat \<Rightarrow> byte) \<Rightarrow> nat \<Rightarrow> save_ctx \<Rightarrow> send_argu \<Rightarrow> map_answer \<Rightarrow> bool \<Rightarrow> 'c ssl_wrap \<times> pipe \<Rightarrow>
     (bool \<times> bool \<times> 'c ssl_wrap \<times> pipe) option" where
  "send_batch crypt junk lim ctx a ans ever st =
     (case (ma_region ans, ma_types ans) of
        (Some region, Some types) \<Rightarrow> do {
          (ever, st) \<leftarrow> announce crypt junk lim ever (sa_last_iter a) st;
          if valid_count (ma_err ans) types = 0 then Some (True, ever, st)
          else do {
            let types = canon_types (sa_pfn_batch a) (ma_err ans) types;
            (rc, st) \<leftarrow> ssl_wrexact crypt junk lim (le32 (of_nat (length (sa_pfn_batch a)))) st;
            if rc \<noteq> 0 then Some (False, ever, st)
            else do {
              (rc, st) \<leftarrow> ssl_wrexact crypt junk lim (le_array 8 types) st;
              if rc \<noteq> 0 then Some (False, ever, st)
              else do { (ok, st) \<leftarrow> send_pages crypt junk lim ctx (sa_live a) region 0 0 types st; Some (ok, ever, st) }
            }
          }
        }
      | _ \<Rightarrow> Some (False, ever, st))"

text \<open>
  The thread: batches from the queue, the barrier at the end of a round, for which the receiver's acknowledgement
  is read from the other direction of the connection, and the end. The output buffer \<open>ob\<close> is the copy in the last
  batch, and whatever the stack holds before the first one.
\<close>

datatype send_event = Send_Batch send_argu map_answer | Iter_Barrier sysres | End_Barrier

definition flush_ob :: "nat \<Rightarrow> byte list \<Rightarrow> 'c ssl_wrap \<times> pipe \<Rightarrow> 'c ssl_wrap \<times> pipe" where
  "flush_ob lim ob = (\<lambda>(ssl, p). (ssl, snd (pipe_write (lim - length (written p)) ob p)))"

definition send_end :: "'c crypt \<Rightarrow> (nat \<Rightarrow> byte) \<Rightarrow> nat \<Rightarrow> 'c ssl_wrap \<times> pipe \<Rightarrow> ('c ssl_wrap \<times> pipe) option" where
  "send_end crypt junk lim st = map_option snd (ssl_wrexact crypt junk lim (le32 (of_int XC_PARA_MIGR_END)) st)"

fun send_patch ::
    "'c crypt \<Rightarrow> 'd crypt \<Rightarrow> (nat \<Rightarrow> byte) \<Rightarrow> nat \<Rightarrow> save_ctx \<Rightarrow> send_event list \<Rightarrow> bool \<Rightarrow> byte list \<Rightarrow> 'd ssl_wrap \<times> pipe \<Rightarrow>
     'c ssl_wrap \<times> pipe \<Rightarrow> ('c ssl_wrap \<times> pipe) option" where
  "send_patch enc dec junk lim ctx [] ever ob back st = Some st"
| "send_patch enc dec junk lim ctx (Send_Batch a ans # evs) ever ob back st = do {
     (go, ever, st) \<leftarrow> send_batch enc junk lim ctx a ans ever st;
     if go then send_patch enc dec junk lim ctx evs ever (sa_ob a) back st else send_end enc junk lim st
   }"
| "send_patch enc dec junk lim ctx (Iter_Barrier r # evs) ever ob back st = do {
     (rc, st) \<leftarrow> ssl_wrexact enc junk lim (le32 (of_int XC_ITERATION_BARRIER)) st;
     let st = flush_ob lim ob st;
     (ack, n, back) \<leftarrow> ssl_read dec junk r 2 back;
     send_patch enc dec junk lim ctx evs ever [] back st
   }"
| "send_patch enc dec junk lim ctx (End_Barrier # evs) ever ob back st = send_end enc junk lim (flush_ob lim ob st)"

section \<open>What goes over the wire\<close>

definition wire_page :: "save_ctx \<Rightarrow> ulong \<Rightarrow> byte list \<Rightarrow> byte list" where
  "wire_page ctx t page =
     (if is_table t
      then page_bytes (pt_levels ctx) (fst (canonicalize_pagetable ctx ((t AND PFINFO_LTAB_MASK) AND PFINFO_LTABTYPE_MASK)
             (page_words (pt_levels ctx) page)))
      else page)"

definition wire_pages :: "save_ctx \<Rightarrow> ulong list \<Rightarrow> byte list list \<Rightarrow> byte list list" where
  "wire_pages ctx types region = map (\<lambda>(t, page). wire_page ctx t page) (filter (\<lambda>(t, page). \<not> is_xtab t) (zip types region))"

lemma canonicalize_length: "length (fst (canonicalize_pagetable ctx t ws)) = pte_last (pt_levels ctx)"
  by (simp add: canonicalize_pagetable_def Let_def)

lemma wire_page_length: "length page = PAGE_SIZE \<Longrightarrow> length (wire_page ctx t page) = PAGE_SIZE"
  by (simp add: wire_page_def page_bytes_def canonicalize_length pte_last_def PAGE_SIZE_def)

lemma table_not_xtab: "t AND PFINFO_LTAB_MASK = 0 \<Longrightarrow> \<not> is_xtab t \<and> \<not> is_table t"
  by (simp add: is_xtab_def is_table_def PFINFO_XTAB_def PFINFO_L1TAB_def Let_def)

lemma whole_pages:
  assumes "0 < k" "length data = PAGE_SIZE * k"
  shows "pad_size (length data) = PAGE_SIZE * k" "padded junk data = data" "PAGE_SIZE \<le> length (ssl_buf ssl) \<Longrightarrow> buf_ok (length data) ssl"
  using assms by (auto simp: pad_size_def padded_def buf_ok_def PAGE_SIZE_def block_size_def Let_def)

text \<open>What one step of the writing has done.\<close>

definition sent ::
    "('c \<Rightarrow> 'd \<Rightarrow> bool) \<Rightarrow> 'd crypt \<Rightarrow> 'd \<Rightarrow> byte list \<Rightarrow> byte list \<Rightarrow> 'c ssl_wrap \<times> pipe \<Rightarrow> 'c ssl_wrap \<times> pipe \<Rightarrow> bool" where
  "sent sync dec d x y st st' \<longleftrightarrow> carried sync dec d x y (fst st') \<and> snd st' = (snd st)\<lparr>written := written (snd st) @ y\<rparr> \<and>
     length (ssl_buf (fst st)) \<le> length (ssl_buf (fst st'))"

lemma sent_nil: "cipher_pair sync enc dec \<Longrightarrow> sync (cc (fst st)) d \<Longrightarrow> sent sync dec d [] [] st st"
  by (simp add: sent_def carried_nil)

lemma sent_append:
  assumes "cipher_pair sync enc dec" "sent sync dec d x y st st'" "sent sync dec (snd (dec d y)) x' y' st' st''"
  shows "sent sync dec d (x @ x') (y @ y') st st''"
  using assms carried_append [OF assms(1)] by (auto simp: sent_def)

lemma sentD:
  assumes "sent sync dec d x y st st'"
  shows "sync (cc (fst st')) (snd (dec d y))" "eof (snd st') = eof (snd st)" "length (written (snd st')) = length (written (snd st)) + length x"
    "length (ssl_buf (fst st)) \<le> length (ssl_buf (fst st'))"
  using assms by (auto simp: sent_def carried_def reads_def)

text \<open>The connection is in a state in which data of length \<open>n\<close> can be sent to a reader in the state \<open>d\<close>.\<close>

definition can_send :: "('c \<Rightarrow> 'd \<Rightarrow> bool) \<Rightarrow> nat \<Rightarrow> 'd \<Rightarrow> nat \<Rightarrow> 'c ssl_wrap \<times> pipe \<Rightarrow> bool" where
  "can_send sync lim d n st \<longleftrightarrow> sync (cc (fst st)) d \<and> \<not> eof (snd st) \<and> length (written (snd st)) + n \<le> lim \<and>
     PAGE_SIZE \<le> length (ssl_buf (fst st))"

lemma can_send_step:
  assumes "can_send sync lim d (n + m) st" "sent sync dec d x y st st'" "length x = n"
  shows "can_send sync lim (snd (dec d y)) m st'"
  using assms sentD [OF assms(2)] by (simp add: can_send_def)

lemma ssl_put_sent:
  assumes "cipher_pair sync enc dec" "can_send sync lim d (pad_size (length data)) st" "buf_ok (length data) (fst st)"
  shows "\<exists>y st'. ssl_put enc junk lim data st = Some (pad_size (length data), st') \<and> sent sync dec d (padded junk data) y st st'"
  using ssl_put_carried [OF assms(1), of "fst st" d data "snd st" lim junk] assms(2,3)
  by (cases st) (fastforce simp: can_send_def sent_def)

lemma concat_pages_length: "\<forall>x\<in>set xs. length x = PAGE_SIZE \<Longrightarrow> length (concat xs) = PAGE_SIZE * length xs"
  by (induction xs) auto

lemma run_length:
  assumes "\<forall>page\<in>set region. length page = PAGE_SIZE" "run \<le> j" "j \<le> length region"
  shows "length (concat (take run (drop (j - run) region))) = PAGE_SIZE * run"
proof -
  have "\<forall>x\<in>set (take run (drop (j - run) region)). length x = PAGE_SIZE" using assms(1) by (meson in_set_takeD in_set_dropD)
  then show ?thesis using concat_pages_length [of "take run (drop (j - run) region)"] assms(2,3) by (auto simp del: length_concat)
qed

lemma write_run_sent:
  assumes pair: "cipher_pair sync enc dec" and can: "can_send sync lim d (PAGE_SIZE * run) st"
    and region: "\<forall>page\<in>set region. length page = PAGE_SIZE" "run \<le> j" "j \<le> length region"
  shows "\<exists>y st'. write_run enc junk lim region j run st = Some (True, st') \<and>
    sent sync dec d (concat (take run (drop (j - run) region))) y st st'"
proof (cases "run = 0")
  case True
  then show ?thesis using sent_nil [OF pair, of st d] can by (auto simp: write_run_def can_send_def)
next
  case False
  let ?data = "concat (take run (drop (j - run) region))"
  have l: "length ?data = PAGE_SIZE * run" by (rule run_length [OF region])
  have w: "pad_size (length ?data) = PAGE_SIZE * run" "padded junk ?data = ?data" using whole_pages [OF _ l] False by auto
  have "buf_ok (length ?data) (fst st)" using whole_pages(3) [OF _ l, of "fst st"] can False by (simp add: can_send_def)
  then show ?thesis using ssl_put_sent [OF pair, of lim d ?data st junk] can False w
    by (auto simp: write_run_def ssl_ratewrite_def)
qed

lemma write_table_sent:
  assumes pair: "cipher_pair sync enc dec" and can: "can_send sync lim d PAGE_SIZE st" and l: "length data = PAGE_SIZE"
  shows "\<exists>y st'. ssl_ratewrite enc junk lim data st = Some (PAGE_SIZE, st') \<and> sent sync dec d data y st st'"
proof -
  have l1: "length data = PAGE_SIZE * 1" using l by simp
  have "buf_ok (length data) (fst st)" using whole_pages(3) [OF _ l1, of "fst st"] can by (simp add: can_send_def)
  then show ?thesis using ssl_put_sent [OF pair, of lim d data st junk] can whole_pages(1,2) [OF _ l1]
    by (auto simp: ssl_ratewrite_def)
qed

text \<open>
  The loop with its runs writes the same as a loop that writes page by page: the pages that are still to be
  written, then the other pages in order.
\<close>

definition wire_from :: "save_ctx \<Rightarrow> byte list list \<Rightarrow> nat \<Rightarrow> nat \<Rightarrow> ulong list \<Rightarrow> byte list" where
  "wire_from ctx region j run ts = concat (take run (drop (j - run) region)) @ concat (wire_pages ctx ts (drop j region))"

lemma wire_pages_Cons:
  assumes "j < length region"
  shows "wire_pages ctx (t # ts) (drop j region) =
    (if is_xtab t then wire_pages ctx ts (drop (j + 1) region) else wire_page ctx t (region ! j) # wire_pages ctx ts (drop (j + 1) region))"
  using assms by (simp add: wire_pages_def Cons_nth_drop_Suc [symmetric])

lemma run_Suc:
  assumes "run \<le> j" "j < length region"
  shows "take (run + 1) (drop (j - run) region) = take run (drop (j - run) region) @ [region ! j]"
  using assms by (simp add: take_Suc_conv_app_nth)

lemma wire_from_Cons:
  assumes "run \<le> j" "j < length region"
  shows "t AND PFINFO_LTAB_MASK = 0 \<Longrightarrow> wire_from ctx region j run (t # ts) = wire_from ctx region (j + 1) (run + 1) ts"
    "is_xtab t \<Longrightarrow> wire_from ctx region j run (t # ts) = concat (take run (drop (j - run) region)) @ wire_from ctx region (j + 1) 0 ts"
    "\<not> is_xtab t \<Longrightarrow> is_table t \<Longrightarrow> wire_from ctx region j run (t # ts) =
       concat (take run (drop (j - run) region)) @ wire_page ctx t (region ! j) @ wire_from ctx region (j + 1) 0 ts"
    "\<not> is_xtab t \<Longrightarrow> \<not> is_table t \<Longrightarrow> wire_from ctx region j run (t # ts) =
       concat (take run (drop (j - run) region)) @ wire_from ctx region (j + 1) 1 ts"
proof -
  show "t AND PFINFO_LTAB_MASK = 0 \<Longrightarrow> wire_from ctx region j run (t # ts) = wire_from ctx region (j + 1) (run + 1) ts"
    using assms run_Suc [OF assms] table_not_xtab [of t] by (simp add: wire_from_def wire_pages_Cons wire_page_def)
  have "concat (take 1 (drop j region)) = region ! j" using assms(2) by (simp add: take_Suc_conv_app_nth)
  then show "\<not> is_xtab t \<Longrightarrow> \<not> is_table t \<Longrightarrow> wire_from ctx region j run (t # ts) =
       concat (take run (drop (j - run) region)) @ wire_from ctx region (j + 1) 1 ts"
    using assms by (simp add: wire_from_def wire_pages_Cons wire_page_def)
qed (use assms in \<open>simp_all add: wire_from_def wire_pages_Cons\<close>)

lemma send_pages_other:
  assumes "t AND PFINFO_LTAB_MASK \<noteq> 0" "write_run enc junk lim region j run st = Some (True, st1)"
  shows "send_pages enc junk lim ctx True region j run (t # ts) st =
    (if is_xtab t then send_pages enc junk lim ctx True region (j + 1) 0 ts st1
     else if is_table t then do {
       (n, st) \<leftarrow> ssl_ratewrite enc junk lim (wire_page ctx t (region ! j)) st1;
       if n \<noteq> PAGE_SIZE then Some (False, st) else send_pages enc junk lim ctx True region (j + 1) 0 ts st }
     else send_pages enc junk lim ctx True region (j + 1) 1 ts st1)"
  using assms by (auto simp: is_xtab_def is_table_def wire_page_def Let_def split: prod.splits)

text \<open>A page that ends the run: a page table, a page that is not there, or one of another type.\<close>

lemma send_pages_tab_sent:
  assumes pair: "cipher_pair sync enc dec" and region: "\<forall>page\<in>set region. length page = PAGE_SIZE"
    and tab: "t AND PFINFO_LTAB_MASK \<noteq> 0"
    and prems: "j + length (t # ts) = length region" "run \<le> j" "can_send sync lim d (PAGE_SIZE * (run + length (t # ts))) st"
    and IH: "\<And>j run st d. j + length ts = length region \<Longrightarrow> run \<le> j \<Longrightarrow> can_send sync lim d (PAGE_SIZE * (run + length ts)) st \<Longrightarrow>
      \<exists>y st'. send_pages enc junk lim ctx True region j run ts st = Some (True, st') \<and> sent sync dec d (wire_from ctx region j run ts) y st st'"
  shows "\<exists>y st'. send_pages enc junk lim ctx True region j run (t # ts) st = Some (True, st') \<and> sent sync dec d (wire_from ctx region j run (t # ts)) y st st'"
proof -
  have j: "j < length region" using prems(1) by simp
  note wf = wire_from_Cons [OF prems(2) j]
  let ?run = "concat (take run (drop (j - run) region))"
  have c: "can_send sync lim d (PAGE_SIZE * run + PAGE_SIZE * (1 + length ts)) st" using prems(3) by (simp add: algebra_simps)
  then have "can_send sync lim d (PAGE_SIZE * run) st" by (simp add: can_send_def)
  then obtain y1 st1 where w: "write_run enc junk lim region j run st = Some (True, st1)" and s1: "sent sync dec d ?run y1 st st1"
    using write_run_sent [OF pair _ region prems(2)] j by (metis less_imp_le)
  note step = send_pages_other [OF tab w] and app = sent_append [OF pair s1]
  let ?d = "snd (dec d y1)"
  have rl: "length ?run = PAGE_SIZE * run" using run_length [OF region prems(2)] j by simp
  have c1: "can_send sync lim ?d (PAGE_SIZE * (1 + length ts)) st1" by (rule can_send_step [OF c s1 rl])
  then have c0: "can_send sync lim ?d (PAGE_SIZE * (0 + length ts)) st1" by (simp add: can_send_def)
  consider (xtab) "is_xtab t" | (table) "\<not> is_xtab t" "is_table t" | (other) "\<not> is_xtab t" "\<not> is_table t" by blast
  then show ?thesis
  proof cases
    case xtab
    obtain y2 st2 where t2: "send_pages enc junk lim ctx True region (j + 1) 0 ts st1 = Some (True, st2)"
        "sent sync dec ?d (wire_from ctx region (j + 1) 0 ts) y2 st1 st2"
      using IH [OF _ _ c0, of "j + 1"] prems(1) by auto
    then show ?thesis using step app [OF t2(2)] wf(2) [OF xtab] xtab by (auto simp del: send_pages.simps)
  next
    case table
    have c2: "can_send sync lim ?d PAGE_SIZE st1" and c3: "can_send sync lim ?d (PAGE_SIZE + PAGE_SIZE * (0 + length ts)) st1"
      using c1 by (simp_all add: can_send_def)
    have wl: "length (wire_page ctx t (region ! j)) = PAGE_SIZE" using region j by (intro wire_page_length) simp
    obtain y2 st2 where t2: "ssl_ratewrite enc junk lim (wire_page ctx t (region ! j)) st1 = Some (PAGE_SIZE, st2)"
        "sent sync dec ?d (wire_page ctx t (region ! j)) y2 st1 st2"
      using write_table_sent [OF pair c2 wl] by blast
    obtain y3 st3 where t3: "send_pages enc junk lim ctx True region (j + 1) 0 ts st2 = Some (True, st3)"
        "sent sync dec (snd (dec ?d y2)) (wire_from ctx region (j + 1) 0 ts) y3 st2 st3"
      using IH [OF _ _ can_send_step [OF c3 t2(2) wl], of "j + 1"] prems(1) by auto
    then show ?thesis using step app [OF sent_append [OF pair t2(2) t3(2)]] wf(3) [OF table] table t2(1)
      by (auto simp del: send_pages.simps)
  next
    case other
    obtain y2 st2 where t2: "send_pages enc junk lim ctx True region (j + 1) 1 ts st1 = Some (True, st2)"
        "sent sync dec ?d (wire_from ctx region (j + 1) 1 ts) y2 st1 st2"
      using IH [OF _ _ c1, of "j + 1"] prems(1) by auto
    then show ?thesis using step app [OF t2(2)] wf(4) [OF other] other by (auto simp del: send_pages.simps)
  qed
qed

lemma send_pages_sent:
  assumes pair: "cipher_pair sync enc dec" and region: "\<forall>page\<in>set region. length page = PAGE_SIZE"
    and "j + length ts = length region" "run \<le> j" "can_send sync lim d (PAGE_SIZE * (run + length ts)) st"
  shows "\<exists>y st'. send_pages enc junk lim ctx True region j run ts st = Some (True, st') \<and> sent sync dec d (wire_from ctx region j run ts) y st st'"
  using assms(3-)
proof (induction ts arbitrary: j run st d)
  case Nil
  then show ?case using write_run_sent [OF pair _ region, of lim d run st j junk] by (simp add: wire_from_def wire_pages_def)
next
  case (Cons t ts)
  show ?case
  proof (cases "t AND PFINFO_LTAB_MASK = 0")
    case True
    have "j < length region" using Cons.prems(1) by simp
    with True show ?thesis using Cons.IH [of "j + 1" "run + 1" d st] Cons.prems wire_from_Cons(1) [OF Cons.prems(2)]
      by (simp add: PFINFO_XTAB_def PFINFO_L1TAB_def)
  next
    case False
    then show ?thesis by (rule send_pages_tab_sent [OF pair region _ Cons.prems Cons.IH])
  qed
qed

end
