(* ===== verification/Mig_Session.thy ===== *)
theory Mig_Session
  imports Mig_Send
begin

text \<open>
  The abstract messages of a session, how the sender puts them on the connection and how the receiver takes them
  off. The specification of both sides is the list of messages \<open>session_msgs\<close>; the lemmas show that \<^verbatim>\<open>send_patch\<close>
  writes it and that \<^verbatim>\<open>slave_pagebuf_get_one\<close> reads it back.
\<close>

unbundle bit_operations_syntax

section \<open>Messages\<close>

text \<open>What a thread sends, message by message, and the buffer in which a message arrives.\<close>

datatype msg = Last_Iter | Barrier | End | Batch "ulong list" "byte list"

definition msg_plain :: "(nat \<Rightarrow> byte) \<Rightarrow> msg \<Rightarrow> byte list" where
  "msg_plain junk m = (case m of
     Last_Iter \<Rightarrow> padded junk (le32 (of_int XC_LAST_ITER_FIRST))
   | Barrier \<Rightarrow> padded junk (le32 (of_int XC_ITERATION_BARRIER))
   | End \<Rightarrow> padded junk (le32 (of_int XC_PARA_MIGR_END))
   | Batch types ps \<Rightarrow> padded junk (le32 (of_nat (length types))) @ padded junk (le_array 8 types) @ ps)"

definition msg_buf :: "msg \<Rightarrow> pagebuf \<Rightarrow> int \<times> pagebuf" where
  "msg_buf m buf = (case m of
     Last_Iter \<Rightarrow> (1, buf\<lparr>nr_pages := 1, nr_physpages := 0\<rparr>)
   | Barrier \<Rightarrow> (1, buf\<lparr>nr_pages := 0, nr_physpages := 0\<rparr>)
   | End \<Rightarrow> (1, buf\<lparr>nr_pages := 0, nr_physpages := 1\<rparr>)
   | Batch types ps \<Rightarrow> (int (length types), buf\<lparr>nr_pages := of_nat (length types), pfn_types := types,
       nr_physpages := of_nat (length (filter (\<lambda>t. \<not> is_xtab t) types)), pages := if ps = [] then pages buf else ps\<rparr>))"

text \<open>
  A message as the sending code makes them. A batch with an odd number of entries makes the array of
  types end within a cipher block; the code grows its buffer for whole blocks only, so it has to fit.
\<close>

definition types_fit :: "nat \<Rightarrow> bool" where
  "types_fit n \<longleftrightarrow> 0 < n \<and> n \<le> MAX_BATCH_SIZE \<and> (even n \<or> n < 512)"

definition msg_ok :: "msg \<Rightarrow> bool" where
  "msg_ok m = (case m of Batch types ps \<Rightarrow>
     types_fit (length types) \<and> length ps = PAGE_SIZE * length (filter (\<lambda>t. \<not> is_xtab t) types) | _ \<Rightarrow> True)"

lemma types_buf_ok:
  assumes "types_fit n" "PAGE_SIZE \<le> length (ssl_buf ssl)"
  shows "buf_ok (8 * n) ssl"
proof -
  have "block_size dvd 8 * n" if "even n" using that by (auto simp: block_size_def elim!: evenE)
  moreover have "pad_size (8 * n) \<le> PAGE_SIZE" if "n < 512"
  proof -
    have "(8 * n div 16 + 1) * 16 \<le> 4096" using that by presburger
    then show ?thesis using that by (simp add: pad_size_def cipher_pad_def block_size_def PAGE_SIZE_def)
  qed
  ultimately show ?thesis using assms by (auto simp: buf_ok_def types_fit_def PAGE_SIZE_def block_size_def)
qed

lemma flag_buf_ok: "PAGE_SIZE \<le> length (ssl_buf ssl) \<Longrightarrow> buf_ok 4 ssl"
  by (simp add: buf_ok_def pad_size_def block_size_def PAGE_SIZE_def)

lemma pad_4 [simp]: "pad_size 4 = 16"
  by (simp add: pad_size_def block_size_def)

section \<open>The reading side\<close>

lemma ssl_rd_padded:
  assumes "reads dec (cc r) (padded junk data) y" "avail p = y @ rest" "buf_ok (length data) r"
  shows "\<exists>r'. ssl_rd dec junk' c (length data) (r, p) = Some (Some data, r', p\<lparr>pos := pos p + length y\<rparr>) \<and>
    cc r' = snd (dec (cc r) y) \<and> length (ssl_buf r) \<le> length (ssl_buf r')"
proof -
  have "length y = pad_size (length data)" using assms(1) by (simp add: reads_def padded_length)
  then show ?thesis using ssl_rdexact_reads [OF assms(1) _ assms(2,3), of junk' c] by (auto simp: ssl_rd_def padded_take)
qed

lemma ssl_rd_pages:
  assumes "reads dec (cc r) data y" "avail p = y @ rest" "length data = PAGE_SIZE * k" "0 < k" "PAGE_SIZE \<le> length (ssl_buf r)"
  shows "\<exists>r'. ssl_rd dec junk' c (k * PAGE_SIZE) (r, p) = Some (Some data, r', p\<lparr>pos := pos p + length y\<rparr>) \<and>
    cc r' = snd (dec (cc r) y) \<and> length (ssl_buf r) \<le> length (ssl_buf r')"
  using ssl_rd_padded [of dec r undefined data y p rest junk' c] whole_pages(2) [OF assms(4,3)] whole_pages(3) [OF assms(4,3,5)] assms
  by (simp add: mult.commute)

lemma slave_get_flag:
  assumes "reads dec (cc r) (padded junk (le32 w)) y" "avail p = y @ rest" "PAGE_SIZE \<le> length (ssl_buf r)"
    and "\<And>s1. ge_rd (env\<lparr>ge_rd := ssl_rd dec (ge_junk env) c\<rparr>) 4 (r, p) = Some (Some (le32 w), s1) \<Longrightarrow>
      get_one (env\<lparr>ge_rd := ssl_rd dec (ge_junk env) c\<rparr>) buf lc (r, p) = Some (1, buf', lc, s1)"
  shows "\<exists>r'. slave_pagebuf_get_one dec c env buf lc (r, p) = Some (1, buf', lc, r', p\<lparr>pos := pos p + length y\<rparr>) \<and>
    cc r' = snd (dec (cc r) y) \<and> PAGE_SIZE \<le> length (ssl_buf r')"
proof -
  have "\<exists>r'. ssl_rd dec (ge_junk env) c (length (le32 w)) (r, p) = Some (Some (le32 w), r', p\<lparr>pos := pos p + length y\<rparr>) \<and>
      cc r' = snd (dec (cc r) y) \<and> length (ssl_buf r) \<le> length (ssl_buf r')"
    by (rule ssl_rd_padded [OF assms(1,2)]) (use flag_buf_ok [OF assms(3)] in simp)
  then obtain r' where "ssl_rd dec (ge_junk env) c 4 (r, p) = Some (Some (le32 w), r', p\<lparr>pos := pos p + length y\<rparr>)"
    and "cc r' = snd (dec (cc r) y)" "length (ssl_buf r) \<le> length (ssl_buf r')" by auto
  with assms(3,4) show ?thesis by (auto simp: slave_pagebuf_get_one_def)
qed

text \<open>The types and the pages of a batch, after its length.\<close>

lemma get_batch_reads:
  assumes pair: "cipher_pair sync enc dec" and rd: "reads dec (cc r) (padded junk (le_array 8 types) @ ps) y" "avail p = y @ rest"
    and ok: "msg_ok (Batch types ps)" "PAGE_SIZE \<le> length (ssl_buf r)"
    and buf: "nr_pages buf = 0" "nr_physpages buf = 0" and mem: "\<forall>n. ge_mem env n"
  shows "\<exists>r'. get_batch (env\<lparr>ge_rd := ssl_rd dec (ge_junk env) c\<rparr>) (length types) buf (r, p) =
      Some (int (length types), snd (msg_buf (Batch types ps) buf), r', p\<lparr>pos := pos p + length y\<rparr>) \<and>
    cc r' = snd (dec (cc r) y) \<and> PAGE_SIZE \<le> length (ssl_buf r')"
proof -
  let ?env = "env\<lparr>ge_rd := ssl_rd dec (ge_junk env) c\<rparr>" and ?b = "padded junk (le_array 8 types)"
  define k where "k = length (filter (\<lambda>t. \<not> is_xtab t) types)"
  define y1 y2 where "y1 = take (length ?b) y" and "y2 = drop (length ?b) y"
  note s = reads_split [OF pair rd(1), folded y1_def y2_def]
  have dv: "block_size dvd length ?b" by (simp only: padded_length pad_size_dvd)
  have y: "y = y1 @ y2" by (simp add: y1_def y2_def)
  define p1 where "p1 = p\<lparr>pos := pos p + length y1\<rparr>"
  have av: "avail p = y1 @ y2 @ rest" "avail p1 = y2 @ rest" using rd(2) y by (simp_all add: p1_def avail_pos)
  have f: "types_fit (length types)" and ps: "length ps = PAGE_SIZE * k" using ok(1) by (simp_all add: msg_ok_def k_def)
  have l: "length (le_array 8 types) = 8 * length types" by simp
  obtain r1 where r1: "ssl_rd dec (ge_junk env) c (8 * length types) (r, p) = Some (Some (le_array 8 types), r1, p1)"
      "cc r1 = snd (dec (cc r) y1)" "PAGE_SIZE \<le> length (ssl_buf r1)"
    using ssl_rd_padded [OF s(1) [OF dv] av(1), of "ge_junk env" c] types_buf_ok [OF f ok(2)] ok(2) unfolding l p1_def
    by (auto intro: order_trans)
  show ?thesis
  proof (cases "k = 0")
    case True
    have y2: "y2 = []" "snd (dec (cc r1) []) = cc r1" using s(2) [OF dv] ps True pair by (auto simp: reads_def cipher_pair_def)
    have "get_batch ?env (length types) buf (r, p) = Some (int (length types),
        buf\<lparr>nr_pages := of_nat (length types), pfn_types := types, nr_physpages := of_nat k, pages := pages buf\<rparr>, r1, p1)"
      by (rule get_batch_ok [where ?s2.0 = "(r1, p1)"]) (use r1(1) True buf mem f in \<open>auto simp: k_def mult.commute types_fit_def\<close>)
    then show ?thesis using r1(2,3) y y2 s(3) [OF dv] ps True by (auto simp: msg_buf_def k_def p1_def)
  next
    case False
    obtain r2 where r2: "ssl_rd dec (ge_junk env) c (k * PAGE_SIZE) (r1, p1) = Some (Some ps, r2, p1\<lparr>pos := pos p1 + length y2\<rparr>)"
        "cc r2 = snd (dec (cc r1) y2)" "PAGE_SIZE \<le> length (ssl_buf r2)"
      using ssl_rd_pages [OF _ av(2) ps _ r1(3), of dec "ge_junk env" c] s(2) [OF dv] r1(2,3) False by (auto intro: order_trans)
    have "get_batch ?env (length types) buf (r, p) = Some (int (length types),
        buf\<lparr>nr_pages := of_nat (length types), pfn_types := types, nr_physpages := of_nat k, pages := ps\<rparr>, r2, p1\<lparr>pos := pos p1 + length y2\<rparr>)"
      by (rule get_batch_ok [where ?s2.0 = "(r1, p1)"]) (use r1(1) r2(1) ps False buf mem f in \<open>auto simp: k_def mult.commute types_fit_def\<close>)
    then show ?thesis using r1(2) r2(2,3) y s(3) [OF dv] ps False by (auto simp: msg_buf_def k_def p1_def PAGE_SIZE_def add.assoc)
  qed
qed

lemma slave_get_batch:
  assumes pair: "cipher_pair sync enc dec" and rd: "reads dec (cc r) (msg_plain junk (Batch types ps)) y" "avail p = y @ rest"
    and ok: "msg_ok (Batch types ps)" "PAGE_SIZE \<le> length (ssl_buf r)"
    and buf: "nr_pages buf = 0" "nr_physpages buf = 0" and mem: "\<forall>n. ge_mem env n"
  shows "\<exists>r'. slave_pagebuf_get_one dec c env buf lc (r, p) =
      Some (fst (msg_buf (Batch types ps) buf), snd (msg_buf (Batch types ps) buf), lc, r', p\<lparr>pos := pos p + length y\<rparr>) \<and>
    cc r' = snd (dec (cc r) y) \<and> PAGE_SIZE \<le> length (ssl_buf r')"
proof -
  let ?env = "env\<lparr>ge_rd := ssl_rd dec (ge_junk env) c\<rparr>"
  let ?a = "padded junk (le32 (of_nat (length types)))"
  define y1 y2 where "y1 = take (length ?a) y" and "y2 = drop (length ?a) y"
  have dv: "block_size dvd length ?a" by (simp only: padded_length pad_size_dvd)
  note s = reads_split [OF pair rd(1) [unfolded msg_plain_def msg.case] dv, folded y1_def y2_def]
  have y: "y = y1 @ y2" by (simp add: y1_def y2_def)
  define p1 where "p1 = p\<lparr>pos := pos p + length y1\<rparr>"
  have av: "avail p = y1 @ y2 @ rest" "avail p1 = y2 @ rest" using rd(2) y by (simp_all add: p1_def avail_pos)
  have l: "length (le32 (of_nat (length types) :: u32)) = 4" by simp
  have f: "types_fit (length types)" using ok(1) by (simp add: msg_ok_def)
  obtain r1 where r1: "ssl_rd dec (ge_junk env) c 4 (r, p) = Some (Some (le32 (of_nat (length types))), r1, p1)"
      "cc r1 = snd (dec (cc r) y1)" "PAGE_SIZE \<le> length (ssl_buf r1)"
    using ssl_rd_padded [OF s(1) av(1), of "ge_junk env" c] ok(2) flag_buf_ok [OF ok(2)] unfolding l p1_def
    by (auto intro: order_trans)
  obtain r2 where r2: "get_batch ?env (length types) buf (r1, p1) =
        Some (int (length types), snd (msg_buf (Batch types ps) buf), r2, p1\<lparr>pos := pos p1 + length y2\<rparr>)"
      "cc r2 = snd (dec (cc r1) y2)" "PAGE_SIZE \<le> length (ssl_buf r2)"
    using get_batch_reads [OF pair s(2) [folded r1(2)] av(2) ok(1) r1(3) buf mem] by blast
  then have "get_one ?env buf lc (r, p) = Some (int (length types), snd (msg_buf (Batch types ps) buf), lc, r2, p1\<lparr>pos := pos p1 + length y2\<rparr>)"
    using get_one_batch [of ?env "(r, p)" types "(r1, p1)" buf _ _ "(r2, p1\<lparr>pos := pos p1 + length y2\<rparr>)" lc] r1(1) f by (simp add: types_fit_def)
  then show ?thesis using r1(2) r2(2,3) y s(3) by (auto simp: slave_pagebuf_get_one_def msg_buf_def p1_def add.assoc)
qed

lemma slave_get_msg:
  assumes "cipher_pair sync enc dec" "reads dec (cc r) (msg_plain junk m) y" "avail p = y @ rest"
    "msg_ok m" "PAGE_SIZE \<le> length (ssl_buf r)" "nr_pages buf = 0" "nr_physpages buf = 0" "\<forall>n. ge_mem env n"
  shows "\<exists>r'. slave_pagebuf_get_one dec c env buf lc (r, p) =
      Some (fst (msg_buf m buf), snd (msg_buf m buf), lc, r', p\<lparr>pos := pos p + length y\<rparr>) \<and>
    cc r' = snd (dec (cc r) y) \<and> PAGE_SIZE \<le> length (ssl_buf r')"
proof (cases m)
  case Last_Iter
  then show ?thesis using slave_get_flag [OF _ assms(3,5) get_one_flags(2), where dec = dec and junk = junk] assms(2)
    by (simp add: msg_plain_def msg_buf_def)
next
  case Barrier
  then show ?thesis using slave_get_flag [OF _ assms(3,5) get_one_flags(3), where dec = dec and junk = junk] assms(2)
    by (simp add: msg_plain_def msg_buf_def)
next
  case End
  then show ?thesis using slave_get_flag [OF _ assms(3,5) get_one_flags(1), where dec = dec and junk = junk] assms(2)
    by (simp add: msg_plain_def msg_buf_def)
next
  case (Batch types ps)
  then show ?thesis using slave_get_batch [OF assms(1) _ assms(3) _ assms(5-8), of junk types ps] assms(2,4) by simp
qed

text \<open>A reading thread that takes a buffer for each message.\<close>

fun recv_all ::
    "'d crypt \<Rightarrow> bool \<Rightarrow> ('d ssl_wrap \<times> pipe) get_env \<Rightarrow> pagebuf list \<Rightarrow> bool \<Rightarrow> 'd ssl_wrap \<times> pipe \<Rightarrow>
     ((int \<times> pagebuf) list \<times> 'd ssl_wrap \<times> pipe) option" where
  "recv_all dec c env [] lc s = Some ([], s)"
| "recv_all dec c env (buf # bufs) lc s = do {
     (rc, buf, lc, s) \<leftarrow> slave_pagebuf_get_one dec c env buf lc s;
     (rs, s) \<leftarrow> recv_all dec c env bufs lc s;
     Some ((rc, buf) # rs, s)
   }"

lemma msg_plain_dvd: "msg_ok m \<Longrightarrow> block_size dvd length (msg_plain junk m)"
  by (auto simp: msg_plain_def msg_ok_def padded_length pad_size_dvd PAGE_SIZE_def block_size_def split: msg.splits
      intro!: dvd_add pad_size_dvd [unfolded block_size_def])

lemma recv_all_msgs:
  assumes pair: "cipher_pair sync enc dec" and mem: "\<forall>n. ge_mem env n"
    and "reads dec (cc r) (concat (map (msg_plain junk) ms)) y" "avail p = y @ rest" "\<forall>m\<in>set ms. msg_ok m"
    "PAGE_SIZE \<le> length (ssl_buf r)" "length bufs = length ms" "\<forall>b\<in>set bufs. nr_pages b = 0 \<and> nr_physpages b = 0"
  shows "\<exists>r'. recv_all dec c env bufs lc (r, p) = Some (map2 msg_buf ms bufs, r', p\<lparr>pos := pos p + length y\<rparr>) \<and>
    cc r' = snd (dec (cc r) y)"
  using assms(3-)
proof (induction ms arbitrary: r p y bufs)
  case Nil
  then show ?case using pair by (auto simp: reads_def cipher_pair_def)
next
  case (Cons m ms)
  obtain buf bs where b: "bufs = buf # bs" using Cons.prems(5) by (cases bufs) auto
  let ?x = "msg_plain junk m"
  define y1 y2 where "y1 = take (length ?x) y" and "y2 = drop (length ?x) y"
  have "reads dec (cc r) (?x @ concat (map (msg_plain junk) ms)) y" using Cons.prems(1) by simp
  note s = reads_split [OF pair this msg_plain_dvd, folded y1_def y2_def]
  have y: "y = y1 @ y2" by (simp add: y1_def y2_def)
  obtain r1 where g: "slave_pagebuf_get_one dec c env buf lc (r, p) =
        Some (fst (msg_buf m buf), snd (msg_buf m buf), lc, r1, p\<lparr>pos := pos p + length y1\<rparr>)"
      "cc r1 = snd (dec (cc r) y1)" "PAGE_SIZE \<le> length (ssl_buf r1)"
    using slave_get_msg [OF pair s(1), of p "y2 @ rest" buf env c lc] Cons.prems mem b y by auto
  have av: "avail (p\<lparr>pos := pos p + length y1\<rparr>) = y2 @ rest" using Cons.prems(2) y by (simp add: avail_pos)
  obtain r2 where "recv_all dec c env bs lc (r1, p\<lparr>pos := pos p + length y1\<rparr>) =
        Some (map2 msg_buf ms bs, r2, p\<lparr>pos := pos p + length y1 + length y2\<rparr>)" "cc r2 = snd (dec (cc r1) y2)"
    using Cons.IH [of r1 y2 "p\<lparr>pos := pos p + length y1\<rparr>" bs] s(2) g(2,3) av Cons.prems b by auto
  then show ?case using g b y s(3) Cons.prems(3) by (auto simp: add.assoc)
qed

text \<open>
  The array of types of a batch with an odd number of pages ends within a cipher block. The buffer is not made larger
  for it, so that from 513 pages on the cipher writes beyond the end of a buffer of one page.
\<close>

lemma odd_types_overflow:
  assumes "odd (length ts)" "512 < length ts" "length (ssl_buf ssl) = PAGE_SIZE" "\<forall>c x. length (fst (enc c x)) = length x"
  shows "ssl_wrexact enc junk lim (le_array 8 ts) (ssl, p) = None"
proof -
  have m: "8 * length ts mod 16 \<noteq> 0" using assms(1) by presburger
  have "PAGE_SIZE < cipher_pad (8 * length ts)" using assms(2) unfolding cipher_pad_def block_size_def PAGE_SIZE_def by presburger
  then have "crypt_into enc ssl (fill junk (cipher_pad (8 * length ts)) (le_array 8 ts)) = None"
    using assms(3,4) by (simp add: crypt_into_def case_prod_beta Let_def)
  then show ?thesis using m assms(2) by (simp add: ssl_wrexact_def ssl_put_def ssl_encrypt_def Let_def block_size_def)
qed

section \<open>The sending side\<close>

text \<open>The messages of a sequence of events; a failed call of the hypervisor ends the thread.\<close>

definition batch_msgs :: "save_ctx \<Rightarrow> send_argu \<Rightarrow> int list \<Rightarrow> ulong list \<Rightarrow> byte list list \<Rightarrow> bool \<Rightarrow> msg list" where
  "batch_msgs ctx a errs types region ever =
     (if \<not> ever \<and> sa_last_iter a then [Last_Iter] else []) @
     (if valid_count errs types = 0 then []
      else let ts = canon_types (sa_pfn_batch a) errs types in [Batch ts (concat (wire_pages ctx ts region))])"

fun session_msgs :: "save_ctx \<Rightarrow> send_event list \<Rightarrow> bool \<Rightarrow> msg list" where
  "session_msgs ctx [] ever = []"
| "session_msgs ctx (Send_Batch a ans # evs) ever =
     (case (ma_region ans, ma_types ans) of
        (Some region, Some types) \<Rightarrow>
          batch_msgs ctx a (ma_err ans) types region ever @ session_msgs ctx evs (ever \<or> sa_last_iter a)
      | _ \<Rightarrow> [End])"
| "session_msgs ctx (Iter_Barrier r # evs) ever = Barrier # session_msgs ctx evs ever"
| "session_msgs ctx (End_Barrier # evs) ever = [End]"

text \<open>
  What the thread is given: arrays of one length, whole pages, a live migration, an empty output buffer and a
  number of pages for which the array of types fits the cipher's buffer.
\<close>

definition event_ok :: "send_event \<Rightarrow> bool" where
  "event_ok ev = (case ev of
     Send_Batch a ans \<Rightarrow> let n = length (sa_pfn_batch a) in
       types_fit n \<and> length (ma_err ans) = n \<and> (\<forall>types. ma_types ans = Some types \<longrightarrow> length types = n) \<and>
       (\<forall>region. ma_region ans = Some region \<longrightarrow> length region = n \<and> (\<forall>page\<in>set region. length page = PAGE_SIZE)) \<and>
       sa_live a \<and> sa_ob a = []
   | _ \<Rightarrow> True)"

lemma canon_types_length:
  "length errs = length pfns \<Longrightarrow> length types = length pfns \<Longrightarrow> length (canon_types pfns errs types) = length pfns"
  by (simp add: canon_types_def)

lemma wire_pages_length:
  assumes "length types = length region" "\<forall>page\<in>set region. length page = PAGE_SIZE"
  shows "length (concat (wire_pages ctx types region)) = PAGE_SIZE * length (filter (\<lambda>t. \<not> is_xtab t) types)"
  using assms by (induction types region rule: list_induct2) (auto simp: wire_pages_def wire_page_length)

lemma ssl_flag_sent:
  assumes "cipher_pair sync enc dec" "can_send sync lim d 16 st"
  shows "\<exists>y st'. ssl_wrexact enc junk lim (le32 w) st = Some (0, st') \<and> sent sync dec d (padded junk (le32 w)) y st st'"
  using ssl_put_sent [OF assms(1), of lim d "le32 w" st junk] assms(2) flag_buf_ok [of "fst st"]
  by (auto simp: ssl_wrexact_def can_send_def)

lemma ssl_types_sent:
  assumes "cipher_pair sync enc dec" "can_send sync lim d (pad_size (8 * length ts)) st" "types_fit (length ts)"
  shows "\<exists>y st'. ssl_wrexact enc junk lim (le_array 8 ts) st = Some (0, st') \<and> sent sync dec d (padded junk (le_array 8 ts)) y st st'"
  using ssl_put_sent [OF assms(1), of lim d "le_array 8 ts" st junk] assms(2) types_buf_ok [OF assms(3), of "fst st"]
  by (auto simp: ssl_wrexact_def can_send_def)

lemma can_send_mono: "can_send sync lim d n st \<Longrightarrow> m \<le> n \<Longrightarrow> can_send sync lim d m st"
  by (auto simp: can_send_def)

text \<open>The batch itself; the loop that writes the pages needs room for all of them.\<close>

lemma send_batch_msg:
  assumes pair: "cipher_pair sync enc dec" and n: "types_fit (length ts)" "length region = length ts" "\<forall>page\<in>set region. length page = PAGE_SIZE"
    and can: "can_send sync lim d (16 + (pad_size (8 * length ts) + PAGE_SIZE * length ts)) st"
  shows "\<exists>y st1 st2 st3. ssl_wrexact enc junk lim (le32 (of_nat (length ts))) st = Some (0, st1) \<and>
    ssl_wrexact enc junk lim (le_array 8 ts) st1 = Some (0, st2) \<and>
    send_pages enc junk lim ctx True region 0 0 ts st2 = Some (True, st3) \<and>
    sent sync dec d (msg_plain junk (Batch ts (concat (wire_pages ctx ts region)))) y st st3"
proof -
  obtain y1 st1 where 1: "ssl_wrexact enc junk lim (le32 (of_nat (length ts))) st = Some (0, st1)"
      "sent sync dec d (padded junk (le32 (of_nat (length ts)))) y1 st st1"
    using ssl_flag_sent [OF pair can_send_mono [OF can], of junk "of_nat (length ts)"] by auto
  have c1: "can_send sync lim (snd (dec d y1)) (pad_size (8 * length ts) + PAGE_SIZE * length ts) st1"
    by (rule can_send_step [OF can 1(2)]) (simp add: padded_length)
  obtain y2 st2 where 2: "ssl_wrexact enc junk lim (le_array 8 ts) st1 = Some (0, st2)"
      "sent sync dec (snd (dec d y1)) (padded junk (le_array 8 ts)) y2 st1 st2"
    using ssl_types_sent [OF pair can_send_mono [OF c1] n(1), of junk] by auto
  have c2: "can_send sync lim (snd (dec (snd (dec d y1)) y2)) (PAGE_SIZE * (0 + length ts)) st2"
    using can_send_step [OF c1 2(2)] by (simp add: padded_length)
  obtain y3 st3 where 3: "send_pages enc junk lim ctx True region 0 0 ts st2 = Some (True, st3)"
      "sent sync dec (snd (dec (snd (dec d y1)) y2)) (concat (wire_pages ctx ts region)) y3 st2 st3"
    using send_pages_sent [OF pair n(3) _ _ c2, of 0 junk ctx] n(2) by (auto simp: wire_from_def)
  have "sent sync dec d (msg_plain junk (Batch ts (concat (wire_pages ctx ts region)))) (y1 @ y2 @ y3) st st3"
    using sent_append [OF pair 1(2) sent_append [OF pair 2(2) 3(2)]] by (simp add: msg_plain_def)
  with 1(1) 2(1) 3(1) show ?thesis by blast
qed

text \<open>Room for a batch: the announcement, the count, the types and all its pages.\<close>

definition event_room :: "send_event \<Rightarrow> nat" where
  "event_room ev = (case ev of
     Send_Batch a ans \<Rightarrow> let n = length (sa_pfn_batch a) in 32 + pad_size (8 * n) + PAGE_SIZE * n | _ \<Rightarrow> 16)"

lemma event_room_flags [simp]: "event_room (Iter_Barrier r) = 16" "event_room End_Barrier = 16"
  by (simp_all add: event_room_def)

lemma batch_msgs_ok:
  assumes "event_ok (Send_Batch a ans)" "ma_region ans = Some region" "ma_types ans = Some types"
  shows "\<forall>m\<in>set (batch_msgs ctx a (ma_err ans) types region ever). msg_ok m"
  using assms wire_pages_length [of "canon_types (sa_pfn_batch a) (ma_err ans) types" region ctx]
  by (auto simp: batch_msgs_def event_ok_def msg_ok_def Let_def canon_types_length)

lemma announce_sent:
  assumes pair: "cipher_pair sync enc dec" and can: "can_send sync lim d (16 + n) st"
  shows "\<exists>y st'. announce enc junk lim ever li st = Some (ever \<or> li, st') \<and>
    sent sync dec d (concat (map (msg_plain junk) (if \<not> ever \<and> li then [Last_Iter] else []))) y st st' \<and>
    can_send sync lim (snd (dec d y)) n st'"
proof (cases "\<not> ever \<and> li")
  case True
  obtain y st' where s: "ssl_wrexact enc junk lim (le32 (of_int XC_LAST_ITER_FIRST)) st = Some (0, st')"
      "sent sync dec d (padded junk (le32 (of_int XC_LAST_ITER_FIRST))) y st st'"
    using ssl_flag_sent [OF pair can_send_mono [OF can], of junk "of_int XC_LAST_ITER_FIRST"] by auto
  have "can_send sync lim (snd (dec d y)) n st'"
    by (rule can_send_step [OF can s(2)]) (simp add: padded_length)
  then show ?thesis using True s by (auto simp: announce_def msg_plain_def)
next
  case False
  have "dec d [] = ([], d)" using pair by (simp add: cipher_pair_def)
  then show ?thesis using False sent_nil [OF pair, of st d] can
    by (intro exI [of _ "[]"] exI [of _ st]) (auto simp: announce_def can_send_def)
qed

lemma send_batch_sent:
  assumes pair: "cipher_pair sync enc dec" and ok: "event_ok (Send_Batch a ans)" "ma_region ans = Some region" "ma_types ans = Some types"
    and can: "can_send sync lim d (event_room (Send_Batch a ans)) st"
  shows "\<exists>y st'. send_batch enc junk lim ctx a ans ever st = Some (True, ever \<or> sa_last_iter a, st') \<and>
    sent sync dec d (concat (map (msg_plain junk) (batch_msgs ctx a (ma_err ans) types region ever))) y st st'"
proof -
  let ?ts = "canon_types (sa_pfn_batch a) (ma_err ans) types" and ?n = "length (sa_pfn_batch a)"
  have l: "length ?ts = ?n" "types_fit ?n" "length region = ?n" "\<forall>page\<in>set region. length page = PAGE_SIZE" "sa_live a"
    using ok by (auto simp: event_ok_def Let_def canon_types_length)
  have can': "can_send sync lim d (16 + (16 + (pad_size (8 * ?n) + PAGE_SIZE * ?n))) st" using can by (simp add: event_room_def Let_def add.assoc)
  obtain y1 st1 where 1: "announce enc junk lim ever (sa_last_iter a) st = Some (ever \<or> sa_last_iter a, st1)"
      "sent sync dec d (concat (map (msg_plain junk) (if \<not> ever \<and> sa_last_iter a then [Last_Iter] else []))) y1 st st1"
      "can_send sync lim (snd (dec d y1)) (16 + (pad_size (8 * ?n) + PAGE_SIZE * ?n)) st1"
    using announce_sent [OF pair can'] by blast
  show ?thesis
  proof (cases "valid_count (ma_err ans) types = 0")
    case True
    then show ?thesis using 1 ok(2,3) by (auto simp: send_batch_def batch_msgs_def)
  next
    case False
    obtain y2 st2 st3 st4 where 2: "ssl_wrexact enc junk lim (le32 (of_nat (length ?ts))) st1 = Some (0, st2)"
        "ssl_wrexact enc junk lim (le_array 8 ?ts) st2 = Some (0, st3)" "send_pages enc junk lim ctx True region 0 0 ?ts st3 = Some (True, st4)"
        "sent sync dec (snd (dec d y1)) (msg_plain junk (Batch ?ts (concat (wire_pages ctx ?ts region)))) y2 st1 st4"
      using send_batch_msg [OF pair, of ?ts region lim "snd (dec d y1)" st1 junk ctx] l 1(3) by auto
    show ?thesis using sent_append [OF pair 1(2) 2(4)] 1(1) 2(1-3) False ok(2,3) l(1,5)
      by (auto simp: send_batch_def batch_msgs_def Let_def)
  qed
qed

lemma sent_length: "sent sync dec d x y st st' \<Longrightarrow> length y = length x"
  by (simp add: sent_def carried_def reads_def)

lemma batch_msgs_room:
  assumes "event_ok (Send_Batch a ans)" "ma_region ans = Some region" "ma_types ans = Some types"
  shows "length (concat (map (msg_plain junk) (batch_msgs ctx a (ma_err ans) types region ever))) \<le> event_room (Send_Batch a ans)"
proof -
  let ?ts = "canon_types (sa_pfn_batch a) (ma_err ans) types"
  have l: "length ?ts = length (sa_pfn_batch a)" "length ?ts = length region" "\<forall>page\<in>set region. length page = PAGE_SIZE"
    using assms by (auto simp: event_ok_def Let_def canon_types_length)
  have "length (concat (wire_pages ctx ?ts region)) \<le> PAGE_SIZE * length (sa_pfn_batch a)"
    using l wire_pages_length [of ?ts region ctx] length_filter_le [of "\<lambda>t. \<not> is_xtab t" ?ts] by (simp del: length_concat)
  then show ?thesis using l(1) by (auto simp: batch_msgs_def event_room_def msg_plain_def padded_length Let_def)
qed

lemma send_end_sent:
  assumes "cipher_pair sync enc dec" "can_send sync lim d 16 st"
  shows "\<exists>y st'. send_end enc junk lim st = Some st' \<and> sent sync dec d (msg_plain junk End) y st st'"
  using ssl_flag_sent [OF assms(1,2), of junk "of_int XC_PARA_MIGR_END"] by (auto simp: send_end_def msg_plain_def)

lemma flush_empty [simp]: "flush_ob lim [] st = st"
  by (cases st) (simp add: flush_ob_def pipe_write_def)

text \<open>The acknowledgements of the receiver are there (or the connection is gone), so that no barrier waits.\<close>

definition acks_ok :: "nat \<Rightarrow> 'd ssl_wrap \<times> pipe \<Rightarrow> bool" where
  "acks_ok n bk \<longleftrightarrow> block_size \<le> length (ssl_buf (fst bk)) \<and> (eof (snd bk) \<or> n * block_size \<le> length (avail (snd bk)))"

definition barriers :: "send_event list \<Rightarrow> nat" where
  "barriers evs = length (filter (\<lambda>ev. case ev of Iter_Barrier r \<Rightarrow> True | _ \<Rightarrow> False) evs)"

lemma avail_skip: "avail (p\<lparr>pos := pos p + n\<rparr>) = drop n (avail p)"
  by (simp add: avail_def add.commute)

lemma ssl_read_ack:
  assumes "acks_ok (Suc n) bk"
  shows "\<exists>ack k bk'. ssl_read bdec junk r 2 bk = Some (ack, k, bk') \<and> acks_ok n bk'"
proof -
  obtain ssl p where bk: "bk = (ssl, p)" by (cases bk)
  have a: "read_size_adjust junk ssl 2 = (block_size, ssl)" by (simp add: read_size_adjust_def block_size_def)
  have l: "block_size \<le> length (ssl_buf ssl)" "eof p \<or> block_size + n * block_size \<le> length (avail p)" using assms bk by (auto simp: acks_ok_def)
  define d where "d = (case r of Chunk k \<Rightarrow> take (min (max 1 k) block_size) (avail p) | _ \<Rightarrow> [])"
  have dl: "length d \<le> block_size" by (auto simp: d_def split: sysres.splits)
  have "(case r of Chunk k \<Rightarrow> if avail p = [] \<and> \<not> eof p then None else Some (take (min (max 1 k) block_size) (avail p)) | _ \<Rightarrow> Some []) = Some d"
    using l(2) by (auto simp: d_def block_size_def split: sysres.splits)
  moreover obtain data ssl' where s: "ssl_decrypt bdec (store_buf ssl d) block_size 2 = (data, ssl')" by fastforce
  moreover have "length (ssl_buf ssl') = length (ssl_buf ssl)" using s dl l(1)
    by (auto simp: ssl_decrypt_def store_buf_def split: prod.splits)
  ultimately show ?thesis using a l dl bk by (auto simp: ssl_read_def acks_ok_def avail_skip)
qed

text \<open>One event, with room for the others left.\<close>

lemma send_batch_step:
  assumes pair: "cipher_pair sync enc dec" and ok: "event_ok (Send_Batch a ans)" and rt: "ma_region ans = Some region" "ma_types ans = Some types"
    and c: "can_send sync lim d (event_room (Send_Batch a ans) + n) st"
  shows "\<exists>y st'. send_batch enc junk lim ctx a ans ever st = Some (True, ever \<or> sa_last_iter a, st') \<and>
    sent sync dec d (concat (map (msg_plain junk) (batch_msgs ctx a (ma_err ans) types region ever))) y st st' \<and> can_send sync lim (snd (dec d y)) n st'"
proof -
  let ?ms = "batch_msgs ctx a (ma_err ans) types region ever"
  obtain y st' where 1: "send_batch enc junk lim ctx a ans ever st = Some (True, ever \<or> sa_last_iter a, st')"
      "sent sync dec d (concat (map (msg_plain junk) ?ms)) y st st'"
    using send_batch_sent [OF pair ok rt can_send_mono [OF c le_add1]] by blast
  have "can_send sync lim d (length (concat (map (msg_plain junk) ?ms)) + n) st"
    using batch_msgs_room [OF ok rt, of junk ctx ever] by (intro can_send_mono [OF c]) simp
  then have "can_send sync lim (snd (dec d y)) n st'" using can_send_step [OF _ 1(2) refl] by blast
  with 1 show ?thesis by blast
qed

lemma send_barrier_step:
  assumes pair: "cipher_pair sync enc dec" and c: "can_send sync lim d (16 + n) st" and acks: "acks_ok (Suc k) bk"
  shows "\<exists>y st' ack m bk'. ssl_wrexact enc junk lim (le32 (of_int XC_ITERATION_BARRIER)) st = Some (0, st') \<and>
    sent sync dec d (msg_plain junk Barrier) y st st' \<and> can_send sync lim (snd (dec d y)) n st' \<and>
    ssl_read bdec junk r 2 bk = Some (ack, m, bk') \<and> acks_ok k bk'"
proof -
  obtain y st' where 1: "ssl_wrexact enc junk lim (le32 (of_int XC_ITERATION_BARRIER)) st = Some (0, st')"
      "sent sync dec d (padded junk (le32 (of_int XC_ITERATION_BARRIER))) y st st'"
    using ssl_flag_sent [OF pair can_send_mono [OF c], of junk "of_int XC_ITERATION_BARRIER"] by auto
  have "can_send sync lim (snd (dec d y)) n st'" using can_send_step [OF c 1(2)] by (simp add: padded_length)
  with 1 ssl_read_ack [OF acks, of bdec junk r] show ?thesis by (auto simp: msg_plain_def)
qed

lemma send_patch_sent:
  assumes pair: "cipher_pair sync enc dec"
    and "acks_ok (barriers evs) bk" "\<forall>ev\<in>set evs. event_ok ev"
    "can_send sync lim d (sum_list (map event_room evs)) st"
  shows "\<exists>y st'. send_patch enc bdec junk lim ctx evs ever [] bk st = Some st' \<and>
    sent sync dec d (concat (map (msg_plain junk) (session_msgs ctx evs ever))) y st st'"
  using assms(2-)
proof (induction ctx evs ever arbitrary: bk st d rule: session_msgs.induct)
  case (1 ctx ever)
  then show ?case using sent_nil [OF pair, of st d] by (auto simp: can_send_def)
next
  case (2 ctx a ans evs ever)
  have ok: "event_ok (Send_Batch a ans)" and acks: "acks_ok (barriers evs) bk"
    and c: "can_send sync lim d (event_room (Send_Batch a ans) + sum_list (map event_room evs)) st"
    using "2.prems" by (auto simp: barriers_def)
  show ?case
  proof (cases "ma_region ans = None \<or> ma_types ans = None")
    case True
    then have "send_patch enc bdec junk lim ctx (Send_Batch a ans # evs) ever [] bk st = send_end enc junk lim st"
        "session_msgs ctx (Send_Batch a ans # evs) ever = [End]"
      by (auto simp: send_batch_def split: option.splits)
    moreover have "can_send sync lim d 16 st" using c by (auto simp: event_room_def Let_def intro: can_send_mono)
    ultimately show ?thesis using send_end_sent [OF pair, of lim d st junk] by auto
  next
    case False
    then obtain region types where rt: "ma_region ans = Some region" "ma_types ans = Some types" by auto
    obtain y1 st1 where 1: "send_batch enc junk lim ctx a ans ever st = Some (True, ever \<or> sa_last_iter a, st1)"
        "sent sync dec d (concat (map (msg_plain junk) (batch_msgs ctx a (ma_err ans) types region ever))) y1 st st1"
        "can_send sync lim (snd (dec d y1)) (sum_list (map event_room evs)) st1"
      using send_batch_step [OF pair ok rt c] by blast
    obtain y2 st' where 2: "send_patch enc bdec junk lim ctx evs (ever \<or> sa_last_iter a) [] bk st1 = Some st'"
        "sent sync dec (snd (dec d y1)) (concat (map (msg_plain junk) (session_msgs ctx evs (ever \<or> sa_last_iter a)))) y2 st1 st'"
      using "2.IH" [OF refl rt acks _ 1(3)] rt "2.prems"(2) by auto
    show ?thesis using sent_append [OF pair 1(2) 2(2)] 1(1) 2(1) rt ok by (auto simp: event_ok_def Let_def)
  qed
next
  case (3 ctx r evs ever)
  have c: "can_send sync lim d (16 + sum_list (map event_room evs)) st" and acks: "acks_ok (Suc (barriers evs)) bk"
    using "3.prems" by (simp_all add: barriers_def)
  obtain y1 st1 ack m bk' where 1: "ssl_wrexact enc junk lim (le32 (of_int XC_ITERATION_BARRIER)) st = Some (0, st1)"
      "sent sync dec d (msg_plain junk Barrier) y1 st st1" "can_send sync lim (snd (dec d y1)) (sum_list (map event_room evs)) st1"
      "ssl_read bdec junk r 2 bk = Some (ack, m, bk')" "acks_ok (barriers evs) bk'"
    using send_barrier_step [OF pair c acks, of junk bdec r] by blast
  obtain y2 st' where 2: "send_patch enc bdec junk lim ctx evs ever [] bk' st1 = Some st'"
      "sent sync dec (snd (dec d y1)) (concat (map (msg_plain junk) (session_msgs ctx evs ever))) y2 st1 st'"
    using "3.IH" [OF 1(5) _ 1(3)] "3.prems"(2) by auto
  show ?case using sent_append [OF pair 1(2) 2(2)] 1(1,4) 2(1) by auto
next
  case (4 ctx evs ever)
  then have "can_send sync lim d 16 st" by (auto intro: can_send_mono)
  then show ?case using send_end_sent [OF pair, of lim d st junk] by auto
qed

lemma session_msgs_ok:
  assumes "\<forall>ev\<in>set evs. event_ok ev"
  shows "\<forall>m\<in>set (session_msgs ctx evs ever). msg_ok m"
  using assms
proof (induction ctx evs ever rule: session_msgs.induct)
  case (2 ctx a ans evs ever)
  then show ?case using batch_msgs_ok [of a ans] by (fastforce simp: msg_ok_def split: option.splits)
qed (auto simp: msg_ok_def)

text \<open>C4: Everything that a sending thread puts on its connection arrives at the receiving thread message by message:
  the announcement of the last round, the barriers, the end mark, and every batch with its page types and with the
  contents of the pages that are there, in order, page tables in canonical form. Runs of pages that the sender writes
  at once, the padding to whole cipher blocks and the pieces in which the stream is encrypted do not show, control
  messages and batches are never taken for each other, and afterwards the two cipher states are in step again.
\<close>

theorem send_receive_session:
  assumes "cipher_pair sync enc dec" "sync (cc w) (cc r)" "PAGE_SIZE \<le> length (ssl_buf w)" "PAGE_SIZE \<le> length (ssl_buf r)"
    and "\<not> eof p" "pos p = length (written p)" "\<forall>ev\<in>set evs. event_ok ev" "length (written p) + sum_list (map event_room evs) \<le> lim"
    and "acks_ok (barriers evs) bk"
    and "length bufs = length (session_msgs ctx evs False)" "\<forall>b\<in>set bufs. nr_pages b = 0 \<and> nr_physpages b = 0" "\<forall>n. ge_mem env n"
  shows "\<exists>w' p' r'. send_patch enc bdec junk lim ctx evs False [] bk (w, p) = Some (w', p') \<and>
    recv_all dec c env bufs lc (r, p') =
      Some (map2 msg_buf (session_msgs ctx evs False) bufs, r', p'\<lparr>pos := length (written p')\<rparr>) \<and> sync (cc w') (cc r')"
proof -
  have "can_send sync lim (cc r) (sum_list (map event_room evs)) (w, p)" using assms(2,3,5,8) by (simp add: can_send_def)
  then obtain y w' p' where s: "send_patch enc bdec junk lim ctx evs False [] bk (w, p) = Some (w', p')"
    and y: "sent sync dec (cc r) (concat (map (msg_plain junk) (session_msgs ctx evs False))) y (w, p) (w', p')"
    using send_patch_sent [OF assms(1,9,7), of lim "cc r" "(w, p)" bdec junk ctx False] by auto
  then have p': "p' = p\<lparr>written := written p @ y\<rparr>" by (simp add: sent_def)
  then have "avail p' = y @ []" using assms(6) by (simp add: avail_def)
  moreover have "reads dec (cc r) (concat (map (msg_plain junk) (session_msgs ctx evs False))) y" "sync (cc w') (snd (dec (cc r) y))"
    using y by (simp_all add: sent_def carried_def)
  ultimately show ?thesis
    using recv_all_msgs [OF assms(1,12), of r junk "session_msgs ctx evs False" y p' "[]" bufs c lc] session_msgs_ok [OF assms(7)] assms(4,6,10,11) s p'
    by auto
qed

text \<open>
  A cipher with a state, which adds a running key to the bytes, and a session of a batch with one page,
  a barrier and the end.
\<close>

primrec ex_enc :: "byte \<Rightarrow> byte list \<Rightarrow> byte list \<times> byte" where
  "ex_enc c [] = ([], c)"
| "ex_enc c (b # bs) = (let (y, c') = ex_enc (c + 1) bs in ((b + c) # y, c'))"

primrec ex_dec :: "byte \<Rightarrow> byte list \<Rightarrow> byte list \<times> byte" where
  "ex_dec c [] = ([], c)"
| "ex_dec c (b # bs) = (let (y, c') = ex_dec (c + 1) bs in ((b - c) # y, c'))"

lemma ex_enc_dec: "ex_dec c (fst (ex_enc c x)) = (x, snd (ex_enc c x))" "length (fst (ex_enc c x)) = length x"
  by (induction x arbitrary: c) (simp_all add: case_prod_beta Let_def)

lemma ex_dec_append:
  "ex_dec d (x @ y) = (fst (ex_dec d x) @ fst (ex_dec (snd (ex_dec d x)) y), snd (ex_dec (snd (ex_dec d x)) y))"
  by (induction x arbitrary: d) (simp_all add: case_prod_beta Let_def)

lemma ex_cipher_pair: "cipher_pair (=) ex_enc ex_dec"
proof -
  have "length (fst (ex_dec d x)) = length x" for d x
    by (induction x arbitrary: d) (simp_all add: case_prod_beta Let_def)
  then show ?thesis by (simp add: cipher_pair_def ex_enc_dec ex_dec_append)
qed

definition ex_wrap :: "byte ssl_wrap" where
  "ex_wrap = \<lparr>cc = 9, ssl_buf = replicate PAGE_SIZE 0\<rparr>"

definition ex_events :: "send_event list" where
  "ex_events = [Send_Batch \<lparr>sa_pfn_batch = [5], sa_live = True, sa_last_iter = True, sa_ob = []\<rparr>
       \<lparr>ma_region = Some [replicate PAGE_SIZE 1], ma_err = [0], ma_types = Some [0]\<rparr>, Iter_Barrier (Chunk 16), End_Barrier]"

definition ex_env :: "(byte ssl_wrap \<times> pipe) get_env" where
  "ex_env = \<lparr>ge_rd = (\<lambda>n s. None), ge_tmem = (\<lambda>s. (0, s)), ge_tmem_extra = (\<lambda>s. (0, s)), ge_tsc = (\<lambda>m n k i. 0),
     ge_mem = (\<lambda>n. True), ge_junk = (\<lambda>n. 0), ge_junk64 = (\<lambda>n. 0)\<rparr>"

lemma ex_msgs: "session_msgs ex_save ex_events False = [Last_Iter, Batch [5] (replicate PAGE_SIZE 1), Barrier, End]"
proof -
  have "\<not> is_xtab 5" "\<not> is_table 5" by code_simp+
  then have "wire_pages ex_save [5] [replicate PAGE_SIZE 1] = [replicate PAGE_SIZE 1]" by (simp add: wire_pages_def wire_page_def)
  then show ?thesis
    by (simp add: ex_events_def batch_msgs_def valid_count_def canon_types_def canon_type_def PFINFO_XTAB_def)
qed

theorem send_receive_session_witness:
  "\<exists>w' p' r'. send_patch ex_enc ex_dec (\<lambda>n. 7) 10000 ex_save ex_events False [] (ex_wrap, close_pipe pipe0) (ex_wrap, pipe0) = Some (w', p') \<and>
    recv_all ex_dec False ex_env [pagebuf_init, pagebuf_init, pagebuf_init, pagebuf_init] False (ex_wrap, p') = Some ([
      (1, pagebuf_init\<lparr>nr_pages := 1, nr_physpages := 0\<rparr>),
      (1, pagebuf_init\<lparr>nr_pages := 1, pfn_types := [5], nr_physpages := 1, pages := replicate PAGE_SIZE 1\<rparr>),
      (1, pagebuf_init\<lparr>nr_pages := 0, nr_physpages := 0\<rparr>),
      (1, pagebuf_init\<lparr>nr_pages := 0, nr_physpages := 1\<rparr>)], r', p'\<lparr>pos := length (written p')\<rparr>) \<and> cc w' = cc r'"
proof -
  have x: "\<not> is_xtab 5" "PAGE_SIZE \<noteq> 0" by code_simp+
  have ok: "\<forall>ev\<in>set ex_events. event_ok ev" by (simp add: ex_events_def event_ok_def types_fit_def MAX_BATCH_SIZE_def)
  have room: "sum_list (map event_room ex_events) \<le> 10000"
    by (simp add: ex_events_def event_room_def pad_size_def cipher_pad_def block_size_def PAGE_SIZE_def)
  have acks: "acks_ok (barriers ex_events) (ex_wrap, close_pipe pipe0)"
    by (simp add: acks_ok_def ex_wrap_def close_pipe_def block_size_def PAGE_SIZE_def)
  show ?thesis
    using send_receive_session [of "(=)" ex_enc ex_dec ex_wrap ex_wrap pipe0 ex_events 10000 "(ex_wrap, close_pipe pipe0)"
        "[pagebuf_init, pagebuf_init, pagebuf_init, pagebuf_init]" ex_save ex_env ex_dec "\<lambda>n. 7" False False, OF ex_cipher_pair _ _ _ _ _ ok _ acks] room x
    unfolding ex_msgs by (simp add: ex_wrap_def pipe0_def pagebuf_init_def ex_env_def msg_buf_def)
qed

end
