(* ===== verification/Mig_Apply.thy ===== *)
theory Mig_Apply
  imports Mig_Session
begin

text \<open>
  \<^verbatim>\<open>apply_batch\<close> of \<^verbatim>\<open>tools/libxc/xc_domain_restore.c\<close> with the queue of page-table updates of
  \<^verbatim>\<open>tools/libxc/xc_private.c\<close>: machine frames are allocated for the pages of a batch that have none, the pages are
  mapped and copied, page tables are rewritten with the receiver's frames, and the machine-to-physical table is
  updated. The contents of machine memory are a function from frames to pages.
\<close>

unbundle bit_operations_syntax

section \<open>Updates of the machine-to-physical table\<close>

text \<open>
  The queue of updates that \<^verbatim>\<open>xc_add_mmu_update\<close> fills and the hypervisor empties; what has reached the hypervisor is
  kept beside it. The hypervisor's answers come from a list, an empty one stands for success.
\<close>

datatype flush_res = Flushed | Rejected | No_Bounce

record xc_mmu =
  mmu_updates :: "(ulong \<times> ulong) list"
  mmu_done :: "(ulong \<times> ulong) list"
  mmu_answers :: "flush_res list"

definition MAX_MMU_UPDATES :: nat where "MAX_MMU_UPDATES = 1024"
definition MMU_MACHPHYS_UPDATE :: ulong where "MMU_MACHPHYS_UPDATE = 1"

definition flush_mmu_updates :: "xc_mmu \<Rightarrow> int \<times> xc_mmu" where
  "flush_mmu_updates mmu =
     (if mmu_updates mmu = [] then (0, mmu)
      else case mmu_answers mmu of
        No_Bounce # as \<Rightarrow> (1, mmu\<lparr>mmu_answers := as\<rparr>)
      | Rejected # as \<Rightarrow> (1, mmu\<lparr>mmu_updates := [], mmu_answers := as\<rparr>)
      | as \<Rightarrow> (0, mmu\<lparr>mmu_updates := [], mmu_done := mmu_done mmu @ mmu_updates mmu, mmu_answers := tl as\<rparr>))"

definition xc_add_mmu_update :: "xc_mmu \<Rightarrow> ulong \<Rightarrow> ulong \<Rightarrow> (int \<times> xc_mmu) option" where
  "xc_add_mmu_update mmu ptr val =
     (if MAX_MMU_UPDATES \<le> length (mmu_updates mmu) then None
      else let mmu = mmu\<lparr>mmu_updates := mmu_updates mmu @ [(ptr, val)]\<rparr>
           in Some (if length (mmu_updates mmu) = MAX_MMU_UPDATES then flush_mmu_updates mmu else (0, mmu)))"

section \<open>Applying a batch\<close>

text \<open>
  The restorer's state: the tables of \<^verbatim>\<open>struct restore_ctx\<close>, the types of the pages, the contents of the machine
  frames (of the guest's frames for an HVM guest), the queue of updates.
\<close>

record apply_st =
  as_ctx :: restore_ctx
  as_type :: "ulong list"
  as_mem :: "ulong \<Rightarrow> byte list"
  as_mmu :: xc_mmu

text \<open>What is fixed for a batch: the kind of guest, and the answers to the mapping of its pages.\<close>

record apply_env =
  ae_hvm :: bool
  ae_pae :: bool
  ae_mapped :: bool
  ae_err :: "int list"

definition type_pfn :: "ulong \<Rightarrow> ulong" where
  "type_pfn t = t AND NOT PFINFO_LTAB_MASK"

definition batch_pfns :: "ulong list \<Rightarrow> nat list" where
  "batch_pfns types = map (\<lambda>t. unat (type_pfn t)) (filter (\<lambda>t. \<not> is_xtab t) types)"

text \<open>The second pass: the frames of the batch. The array \<open>batch\<close> holds the new ones.\<close>

fun region_pass :: "bool \<Rightarrow> nat \<Rightarrow> ulong list \<Rightarrow> ulong list \<Rightarrow> restore_ctx \<Rightarrow> (ulong list \<times> restore_ctx) option" where
  "region_pass hvm n [] batch ctx = Some ([], ctx)"
| "region_pass hvm n (t # ts) batch ctx =
     (if is_xtab t then do { (region, ctx) \<leftarrow> region_pass hvm n ts batch ctx; Some (- 1 # region, ctx) }
      else let pfn = type_pfn t
           in if length (p2m ctx) \<le> unat pfn then None
              else let fresh = p2m ctx ! unat pfn = INVALID_P2M_ENTRY - 1
                   in if fresh \<and> length batch \<le> n then None
                      else let ctx = (if fresh then ctx\<lparr>p2m := (p2m ctx)[unat pfn := batch ! n], nr_pfns := nr_pfns ctx + 1\<rparr> else ctx);
                               frame = (if hvm then pfn else p2m ctx ! unat pfn)
                           in do { (region, ctx) \<leftarrow> region_pass hvm (if fresh then n + 1 else n) ts batch ctx; Some (frame # region, ctx) })"

text \<open>The page \<open>n\<close> of the received contents.\<close>

definition page_at :: "byte list \<Rightarrow> nat \<Rightarrow> byte list option" where
  "page_at ps n = (if (n + 1) * PAGE_SIZE \<le> length ps then Some (take PAGE_SIZE (drop (n * PAGE_SIZE) ps)) else None)"

definition rewrite_now :: "apply_env \<Rightarrow> restore_ctx \<Rightarrow> ulong \<Rightarrow> bool" where
  "rewrite_now env ctx pagetype \<longleftrightarrow> r_pt_levels ctx \<noteq> 3 \<or> ae_pae env \<or> pagetype \<noteq> PFINFO_L1TAB"

text \<open>
  One page: its type is noted, its contents are put into its frame (or into a scratch page, when a copy is only
  compared), a page table is rewritten, and the hypervisor is told which page the frame is. The result is
  negative for an error and 1 when a page table could not be rewritten.
\<close>

definition apply_page :: "apply_env \<Rightarrow> bool \<Rightarrow> byte list \<Rightarrow> nat \<Rightarrow> ulong \<Rightarrow> ulong \<Rightarrow> apply_st \<Rightarrow> (int \<times> apply_st) option" where
  "apply_page env vrf ps curpage frame t st =
     (let pfn = type_pfn t; pagetype = t AND PFINFO_LTAB_MASK; ctx = as_ctx st
      in if pfn > r_p2m_size ctx then Some (- 1, st)
         else if length (as_type st) \<le> unat pfn \<or> length (p2m ctx) \<le> unat pfn then None
         else do {
           let mfn = p2m ctx ! unat pfn;
           page \<leftarrow> page_at ps curpage;
           let st = st\<lparr>as_type := (as_type st)[unat pfn := pagetype], as_mem := if vrf then as_mem st else (as_mem st)(frame := page)\<rparr>;
           let pagetype = pagetype AND PFINFO_LTABTYPE_MASK;
           (race, st) \<leftarrow>
             (if PFINFO_L1TAB \<le> pagetype \<and> pagetype \<le> PFINFO_L4TAB
              then if rewrite_now env ctx pagetype
                   then do {
                     (ok, ws, ctx') \<leftarrow> uncanonicalize_pagetable ctx (page_words (r_pt_levels ctx) page);
                     Some (if ok = 0 then 1 else 0,
                       st\<lparr>as_ctx := ctx', as_mem := if vrf \<or> ok = 0 then as_mem st else (as_mem st)(frame := page_bytes (r_pt_levels ctx) ws)\<rparr>)
                   }
                   else Some (0, st)
              else Some (if pagetype \<noteq> PFINFO_NOTAB then - 1 else 0, st));
           if race \<noteq> 0 \<or> ae_hvm env then Some (race, st)
           else do {
             (rc, mmu) \<leftarrow> xc_add_mmu_update (as_mmu st) (push_bit 12 mfn OR MMU_MACHPHYS_UPDATE) pfn;
             Some (if rc \<noteq> 0 then - 1 else 0, st\<lparr>as_mmu := mmu\<rparr>)
           }
         })"

text \<open>The loop over the batch, with the number of races so far.\<close>

fun apply_pages ::
    "apply_env \<Rightarrow> bool \<Rightarrow> byte list \<Rightarrow> nat \<Rightarrow> int \<Rightarrow> (ulong \<times> ulong \<times> int) list \<Rightarrow> apply_st \<Rightarrow> (int \<times> apply_st) option" where
  "apply_pages env vrf ps curpage nraces [] st = Some (nraces, st)"
| "apply_pages env vrf ps curpage nraces ((t, frame, err) # es) st =
     (if is_xtab t then apply_pages env vrf ps curpage nraces es st
      else if err \<noteq> 0 then Some (- 1, st)
      else do {
        (rc, st) \<leftarrow> apply_page env vrf ps curpage frame t st;
        if rc < 0 then Some (- 1, st) else apply_pages env vrf ps (curpage + 1) (nraces + rc) es st
      })"

text \<open>
  \<^verbatim>\<open>apply_batch\<close>. First the frames: the pages that have none are marked and counted, the frames are allocated, and the
  second pass puts them into the table and makes the list of frames to map. The results are the error, that list,
  the thread's array of new frames and the tables.
\<close>

definition alloc_batch :: "bool \<Rightarrow> ulong list \<Rightarrow> ulong list \<Rightarrow> restore_ctx \<Rightarrow> (int \<times> ulong list \<times> ulong list \<times> restore_ctx) option" where
  "alloc_batch hvm types batch ctx = do {
     (nr_mfns, m, batch) \<leftarrow> mark_pass 0 (batch_pfns types) (p2m ctx, batch);
     let (rc, batch, frames) = (if nr_mfns \<noteq> 0 then populate_physmap_exact (host ctx) nr_mfns batch else (0, batch, host ctx));
     let ctx = ctx\<lparr>p2m := m, host := frames\<rparr>;
     if rc \<noteq> 0 then Some (- 1, [], batch, ctx)
     else do { (region, ctx) \<leftarrow> region_pass hvm 0 types batch ctx; Some (0, region, batch, ctx) }
   }"

text \<open>Then the pages. The results: the code's result, the array, whether the page buffer goes back to the pool, the state.\<close>

definition apply_batch ::
    "apply_env \<Rightarrow> pagebuf \<Rightarrow> nat \<Rightarrow> ulong list \<Rightarrow> apply_st \<Rightarrow> (int \<times> ulong list \<times> bool \<times> apply_st) option" where
  "apply_batch env buf curbatch batch st = do {
     let j = min (unat (nr_pages buf) - curbatch) MAX_BATCH_SIZE;
     let types = take j (drop curbatch (pfn_types buf));
     (rc, region, batch, ctx) \<leftarrow> alloc_batch (ae_hvm env) types batch (as_ctx st);
     if rc \<noteq> 0 \<or> \<not> ae_mapped env then Some (- 1, batch, False, st\<lparr>as_ctx := ctx\<rparr>)
     else do {
       (rc, st) \<leftarrow> apply_pages env (verify buf) (pages buf) curbatch 0 (zip types (zip region (ae_err env))) (st\<lparr>as_ctx := ctx\<rparr>);
       Some (rc, batch, True, st)
     }
   }"

text \<open>
  A page table with an entry outside the guest is left alone, but its entries before that one stay marked in the
  table of frames. A later batch with such a page takes a frame of an earlier batch for it: two pages share a frame.
\<close>

lemma stale_mark:
  "case uncanonicalize_pagetable (ex_restore\<lparr>p2m := (replicate 8 INVALID_P2M_ENTRY)[5 := 100], host := []\<rparr>) [0x2067, 0x9067] of
     None \<Rightarrow> False
   | Some (rc, page, ctx) \<Rightarrow> rc = 0 \<and>
       (case alloc_batch False [2] [100] ctx of
          None \<Rightarrow> False
        | Some (rc, region, batch, ctx) \<Rightarrow> rc = 0 \<and> p2m ctx ! 2 = 100 \<and> p2m ctx ! 5 = 100)"
  by code_simp

end
