(* ===== verification/Mig_Apply_Props.thy ===== *)
theory Mig_Apply_Props
  imports Mig_Apply
begin

text \<open>
  The invariant of the restorer (\<open>recv_ok\<close>: no two pages share a frame, the arrays have their lengths, there is room in
  the queue of updates), that \<^verbatim>\<open>apply_batch\<close> keeps it, and what memory holds afterwards.
\<close>

unbundle bit_operations_syntax

section \<open>The state stays in order\<close>

text \<open>
  A well-formed state of the restorer: the frames are in order, the arrays have the length that the code
  allocates for them, and there is room in the queue of updates, which the hypervisor accepts.
\<close>

definition recv_ok :: "apply_st \<Rightarrow> bool" where
  "recv_ok st \<longleftrightarrow> (let ctx = as_ctx st in
     frames_ok (host ctx) (p2m ctx) \<and> length (p2m ctx) = unat (r_p2m_size ctx) \<and> length (as_type st) = unat (r_p2m_size ctx) \<and>
     length (p2m_batch ctx) = MAX_BATCH_SIZE \<and> length (mmu_updates (as_mmu st)) < MAX_MMU_UPDATES \<and> set (mmu_answers (as_mmu st)) \<subseteq> {Flushed})"

definition type_ok :: "ulong \<Rightarrow> bool" where
  "type_ok t \<longleftrightarrow> is_table t \<or> (t AND PFINFO_LTAB_MASK) AND PFINFO_LTABTYPE_MASK = PFINFO_NOTAB"

text \<open>The contents of a page after it has been applied with the frames of \<open>m\<close>.\<close>

definition rewritten :: "apply_env \<Rightarrow> restore_ctx \<Rightarrow> ulong \<Rightarrow> bool" where
  "rewritten env ctx t \<longleftrightarrow> is_table t \<and> rewrite_now env ctx ((t AND PFINFO_LTAB_MASK) AND PFINFO_LTABTYPE_MASK)"

definition page_image :: "apply_env \<Rightarrow> restore_ctx \<Rightarrow> ulong list \<Rightarrow> ulong \<Rightarrow> byte list \<Rightarrow> byte list" where
  "page_image env ctx m t page =
     (if rewritten env ctx t then page_bytes (r_pt_levels ctx) (map (retarget ctx m) (page_words (r_pt_levels ctx) page)) else page)"

definition page_pfns :: "restore_ctx \<Rightarrow> byte list \<Rightarrow> nat list" where
  "page_pfns ctx page = pte_pfns (r_width ctx) (page_words (r_pt_levels ctx) page)"

definition page_fits :: "apply_env \<Rightarrow> restore_ctx \<Rightarrow> ulong \<Rightarrow> byte list \<Rightarrow> bool" where
  "page_fits env ctx t page \<longleftrightarrow> (rewritten env ctx t \<longrightarrow> (\<forall>p\<in>set (page_pfns ctx page). p < unat (r_p2m_size ctx)))"

text \<open>The restorer moves on: frames that are known stay, the geometry stays.\<close>

definition grows :: "restore_ctx \<Rightarrow> restore_ctx \<Rightarrow> bool" where
  "grows c c' \<longleftrightarrow> r_pt_levels c' = r_pt_levels c \<and> r_width c' = r_width c \<and> r_p2m_size c' = r_p2m_size c \<and> length (p2m c') = length (p2m c) \<and>
     (\<forall>p<length (p2m c). p2m c ! p \<noteq> INVALID_P2M_ENTRY \<longrightarrow> p2m c' ! p = p2m c ! p)"

lemma grows_refl [simp]: "grows c c"
  by (simp add: grows_def)

lemma grows_trans: "grows c c' \<Longrightarrow> grows c' c'' \<Longrightarrow> grows c c''"
  by (auto simp: grows_def)

lemma grows_pred:
  assumes "grows c c'"
  shows "rewritten env c' = rewritten env c" "page_fits env c' = page_fits env c" "page_pfns c' = page_pfns c" "retarget c' = retarget c"
  using assms by (auto simp: grows_def rewritten_def rewrite_now_def page_fits_def page_pfns_def retarget_def fun_eq_iff)

definition all_updates :: "xc_mmu \<Rightarrow> (ulong \<times> ulong) list" where
  "all_updates mmu = mmu_done mmu @ mmu_updates mmu"

lemma add_mmu_update_ok:
  assumes "length (mmu_updates mmu) < MAX_MMU_UPDATES" "set (mmu_answers mmu) \<subseteq> {Flushed}"
  shows "\<exists>mmu'. xc_add_mmu_update mmu ptr val = Some (0, mmu') \<and> all_updates mmu' = all_updates mmu @ [(ptr, val)] \<and>
    length (mmu_updates mmu') < MAX_MMU_UPDATES \<and> set (mmu_answers mmu') \<subseteq> {Flushed}"
  using assms by (auto simp: xc_add_mmu_update_def flush_mmu_updates_def all_updates_def MAX_MMU_UPDATES_def Let_def split: list.splits flush_res.splits)

lemma retarget_grows:
  assumes "\<forall>p\<in>set (pte_pfns (r_width ctx) ws). p < length m \<and> m ! p \<noteq> INVALID_P2M_ENTRY"
    and "\<forall>p<length m. m ! p \<noteq> INVALID_P2M_ENTRY \<longrightarrow> m' ! p = m ! p"
  shows "map (retarget ctx m') ws = map (retarget ctx m) ws"
proof (rule map_cong [OF refl])
  fix pte assume "pte \<in> set ws"
  then have "present pte \<Longrightarrow> pte_pfn (r_width ctx) pte \<in> set (pte_pfns (r_width ctx) ws)" by (simp add: pte_pfns_def)
  then show "retarget ctx m' pte = retarget ctx m pte" using assms by (auto simp: retarget_def Let_def)
qed

lemma page_words_length: "length (page_words levels page) \<le> MAX_BATCH_SIZE"
  by (simp add: page_words_def pte_last_def MAX_BATCH_SIZE_def)

lemma alloc_grows: "grows ctx (ctx\<lparr>p2m_batch := b, p2m := alloc_missing f ps (p2m ctx), host := h\<rparr>)"
  by (simp add: grows_def alloc_missing_old)

lemma rewrite_ok:
  assumes ok: "recv_ok st" and fits: "\<forall>p\<in>set (page_pfns (as_ctx st) page). p < unat (r_p2m_size (as_ctx st))"
    and host: "MAX_BATCH_SIZE \<le> length (host (as_ctx st))"
  shows "\<exists>c. uncanonicalize_pagetable (as_ctx st) (page_words (r_pt_levels (as_ctx st)) page) =
      Some (1, map (retarget (as_ctx st) (p2m c)) (page_words (r_pt_levels (as_ctx st)) page), c) \<and>
    grows (as_ctx st) c \<and> recv_ok (st\<lparr>as_ctx := c\<rparr>) \<and> length (host (as_ctx st)) \<le> length (host c) + MAX_BATCH_SIZE \<and>
    (\<forall>p\<in>set (page_pfns (as_ctx st) page). p2m c ! p \<noteq> INVALID_P2M_ENTRY)"
proof -
  let ?c = "as_ctx st" and ?ws = "page_words (r_pt_levels (as_ctx st)) page" and ?ps = "page_pfns (as_ctx st) page"
  have wf: "frames_ok (host ?c) (p2m ?c)" "length (p2m ?c) = unat (r_p2m_size ?c)" "length (p2m_batch ?c) = MAX_BATCH_SIZE"
    using ok by (simp_all add: recv_ok_def Let_def)
  have "length ?ps \<le> MAX_BATCH_SIZE" unfolding page_pfns_def pte_pfns_def
    by (metis length_filter_le length_map order_trans page_words_length)
  then have cnt: "alloc_count ?ps (p2m ?c) \<le> MAX_BATCH_SIZE" using alloc_count_le order_trans by blast
  define h where "h = drop (alloc_count ?ps (p2m ?c)) (host ?c)"
  define m where "m = alloc_missing (host ?c) ?ps (p2m ?c)"
  obtain b where b: "uncanonicalize_pagetable ?c ?ws = Some (1, map (retarget ?c m) ?ws, ?c\<lparr>p2m_batch := b, p2m := m, host := h\<rparr>)"
      "length b = MAX_BATCH_SIZE"
    using uncanonicalize_ok [of ?c ?ws] wf fits host cnt page_words_length [of "r_pt_levels ?c" page]
    unfolding page_pfns_def [symmetric] h_def m_def frames_ok_def by auto
  have rng: "\<forall>p\<in>set ?ps. p < length (p2m ?c)" using fits wf(2) by simp
  have "frames_ok h m" using frames_ok_alloc [OF wf(1) _ rng] cnt host by (simp add: h_def m_def)
  moreover have "\<forall>p\<in>set ?ps. m ! p \<noteq> INVALID_P2M_ENTRY"
    using alloc_missing_new [of "host ?c" ?ps "p2m ?c"] wf(1) cnt host rng by (simp add: m_def frames_ok_def)
  ultimately show ?thesis using b ok cnt
    by (intro exI [of _ "?c\<lparr>p2m_batch := b, p2m := m, host := h\<rparr>"]) (auto simp: recv_ok_def Let_def h_def m_def alloc_grows)
qed

text \<open>One page: nothing fails, the state stays well formed, and the frame holds the page.\<close>

lemma apply_page_ok:
  assumes ok: "recv_ok st" and pfn: "unat (type_pfn t) < unat (r_p2m_size (as_ctx st))" and page: "page_at ps k = Some page"
    and t: "type_ok t" "page_fits env (as_ctx st) t page" and host: "MAX_BATCH_SIZE \<le> length (host (as_ctx st))" and pv: "\<not> ae_hvm env"
  shows "\<exists>st'. apply_page env False ps k frame t st = Some (0, st') \<and> recv_ok st' \<and> grows (as_ctx st) (as_ctx st') \<and>
    length (host (as_ctx st)) \<le> length (host (as_ctx st')) + MAX_BATCH_SIZE \<and>
    as_type st' = (as_type st)[unat (type_pfn t) := t AND PFINFO_LTAB_MASK] \<and>
    as_mem st' = (as_mem st)(frame := page_image env (as_ctx st) (p2m (as_ctx st')) t page) \<and>
    all_updates (as_mmu st') = all_updates (as_mmu st) @
      [(push_bit 12 (p2m (as_ctx st) ! unat (type_pfn t)) OR MMU_MACHPHYS_UPDATE, type_pfn t)] \<and>
    (rewritten env (as_ctx st) t \<longrightarrow> (\<forall>p\<in>set (page_pfns (as_ctx st) page). p2m (as_ctx st') ! p \<noteq> INVALID_P2M_ENTRY))"
proof -
  let ?c = "as_ctx st" and ?pfn = "unat (type_pfn t)" and ?upd = "(push_bit 12 (p2m (as_ctx st) ! unat (type_pfn t)) OR MMU_MACHPHYS_UPDATE, type_pfn t)"
  have len: "length (as_type st) = unat (r_p2m_size ?c)" "length (p2m ?c) = unat (r_p2m_size ?c)"
    and mmu: "length (mmu_updates (as_mmu st)) < MAX_MMU_UPDATES" "set (mmu_answers (as_mmu st)) \<subseteq> {Flushed}"
    using ok by (simp_all add: recv_ok_def Let_def)
  have rng: "\<not> type_pfn t > r_p2m_size ?c" "\<not> length (as_type st) \<le> ?pfn" "\<not> length (p2m ?c) \<le> ?pfn"
    using pfn len by (simp_all add: word_less_nat_alt)
  obtain mmu' where m: "xc_add_mmu_update (as_mmu st) (fst ?upd) (snd ?upd) = Some (0, mmu')" "all_updates mmu' = all_updates (as_mmu st) @ [?upd]"
      "length (mmu_updates mmu') < MAX_MMU_UPDATES" "set (mmu_answers mmu') \<subseteq> {Flushed}"
    using add_mmu_update_ok [OF mmu, of "fst ?upd" "snd ?upd"] by auto
  show ?thesis
  proof (cases "rewritten env ?c t")
    case True
    obtain c where c: "uncanonicalize_pagetable ?c (page_words (r_pt_levels ?c) page) =
          Some (1, map (retarget ?c (p2m c)) (page_words (r_pt_levels ?c) page), c)" "grows ?c c" "recv_ok (st\<lparr>as_ctx := c\<rparr>)"
        "length (host ?c) \<le> length (host c) + MAX_BATCH_SIZE" "\<forall>p\<in>set (page_pfns ?c page). p2m c ! p \<noteq> INVALID_P2M_ENTRY"
      using rewrite_ok [OF ok _ host, of page] t(2) True by (auto simp: page_fits_def)
    let ?st = "st\<lparr>as_ctx := c, as_type := (as_type st)[?pfn := t AND PFINFO_LTAB_MASK],
      as_mem := (as_mem st)(frame := page_image env ?c (p2m c) t page), as_mmu := mmu'\<rparr>"
    have "apply_page env False ps k frame t st = Some (0, ?st)"
      using True rng page c(1) m(1) pv by (simp add: apply_page_def rewritten_def is_table_def page_image_def Let_def)
    then show ?thesis using c m True by (intro exI [of _ ?st]) (simp add: recv_ok_def Let_def)
  next
    case False
    let ?st = "st\<lparr>as_type := (as_type st)[?pfn := t AND PFINFO_LTAB_MASK],
      as_mem := (as_mem st)(frame := page_image env ?c (p2m ?c) t page), as_mmu := mmu'\<rparr>"
    have "apply_page env False ps k frame t st = Some (0, ?st)"
      using False rng page t(1) m(1) pv by (auto simp: apply_page_def rewritten_def is_table_def type_ok_def page_image_def Let_def)
    then show ?thesis using ok m False by (intro exI [of _ ?st]) (simp add: recv_ok_def Let_def)
  qed
qed

text \<open>The loop. The pages that are there are \<open>pgs\<close>, the frames of the pages are known beforehand.\<close>

definition there :: "ulong list \<Rightarrow> ulong list" where
  "there types = filter (\<lambda>t. \<not> is_xtab t) types"

definition page_ok :: "apply_env \<Rightarrow> restore_ctx \<Rightarrow> (ulong \<Rightarrow> ulong) \<Rightarrow> ulong \<Rightarrow> byte list \<Rightarrow> bool" where
  "page_ok env ctx frame t page \<longleftrightarrow> unat (type_pfn t) < unat (r_p2m_size ctx) \<and> type_ok t \<and> page_fits env ctx t page \<and>
     frame t \<noteq> INVALID_P2M_ENTRY \<and> p2m ctx ! unat (type_pfn t) = frame t"

definition page_done :: "apply_env \<Rightarrow> (ulong \<Rightarrow> ulong) \<Rightarrow> apply_st \<Rightarrow> ulong \<Rightarrow> byte list \<Rightarrow> bool" where
  "page_done env frame st t page \<longleftrightarrow> as_type st ! unat (type_pfn t) = t AND PFINFO_LTAB_MASK \<and>
     as_mem st (frame t) = page_image env (as_ctx st) (p2m (as_ctx st)) t page \<and>
     (rewritten env (as_ctx st) t \<longrightarrow> (\<forall>p\<in>set (page_pfns (as_ctx st) page). p2m (as_ctx st) ! p \<noteq> INVALID_P2M_ENTRY))"

definition page_update :: "(ulong \<Rightarrow> ulong) \<Rightarrow> ulong \<Rightarrow> ulong \<times> ulong" where
  "page_update frame t = (push_bit 12 (frame t) OR MMU_MACHPHYS_UPDATE, type_pfn t)"

lemma page_ok_grows:
  assumes "grows c c'" "page_ok env c frame t page" "length (p2m c) = unat (r_p2m_size c)"
  shows "page_ok env c' frame t page"
  using assms grows_pred(2) [OF assms(1), of env] by (auto simp: page_ok_def grows_def)

lemma page_image_grows:
  assumes g: "grows c c'" "grows c' c''" and len: "length (p2m c') = unat (r_p2m_size c)"
    and fits: "page_fits env c t page" and kn: "rewritten env c t \<longrightarrow> (\<forall>p\<in>set (page_pfns c page). p2m c' ! p \<noteq> INVALID_P2M_ENTRY)"
  shows "page_image env c'' (p2m c'') t page = page_image env c (p2m c') t page"
proof (cases "rewritten env c t")
  case True
  note gp = grows_pred [OF grows_trans [OF g]]
  have "map (retarget c (p2m c'')) (page_words (r_pt_levels c) page) = map (retarget c (p2m c')) (page_words (r_pt_levels c) page)"
    by (rule retarget_grows) (use True fits kn len g(2) in \<open>auto simp: page_fits_def page_pfns_def grows_def\<close>)
  moreover have "r_pt_levels c'' = r_pt_levels c" using g by (simp add: grows_def)
  ultimately show ?thesis using True gp by (simp add: page_image_def del: map_eq_conv)
next
  case False
  then show ?thesis using grows_pred(1) [OF grows_trans [OF g], of env] by (simp add: page_image_def)
qed

lemma known_grows:
  assumes g: "grows c c'" "grows c' c''" and len: "length (p2m c) = unat (r_p2m_size c)" and fits: "page_fits env c t page"
    and kn: "rewritten env c t \<longrightarrow> (\<forall>p\<in>set (page_pfns c page). p2m c' ! p \<noteq> INVALID_P2M_ENTRY)"
  shows "rewritten env c'' t \<longrightarrow> (\<forall>p\<in>set (page_pfns c'' page). p2m c'' ! p \<noteq> INVALID_P2M_ENTRY)"
  using assms grows_pred [OF grows_trans [OF g]] by (auto simp: page_fits_def grows_def)

lemma frame_apart:
  assumes ok: "recv_ok st" and t: "page_ok env (as_ctx st) frame t page" and rest: "list_all2 (page_ok env (as_ctx st) frame) (there ts) pgs"
    and d: "unat (type_pfn t) \<notin> set (batch_pfns ts)"
  shows "frame t \<notin> frame ` set (there ts)"
proof
  assume "frame t \<in> frame ` set (there ts)"
  then obtain t' where t': "t' \<in> set (there ts)" "frame t = frame t'" by auto
  then obtain page' where "page_ok env (as_ctx st) frame t' page'" using rest by (auto simp: in_set_conv_nth list_all2_conv_all_nth)
  moreover have "p2m_wf (p2m (as_ctx st))" "length (p2m (as_ctx st)) = unat (r_p2m_size (as_ctx st))" using ok by (auto simp: recv_ok_def frames_ok_def Let_def)
  ultimately have "unat (type_pfn t) = unat (type_pfn t')" using t t'(2) by (auto simp: p2m_wf_def page_ok_def)
  with t'(1) d show False by (auto simp: batch_pfns_def there_def)
qed

lemma apply_pages_ok:
  assumes "recv_ok st" "list_all2 (page_ok env (as_ctx st) frame) (there ts) pgs" "distinct (batch_pfns ts)"
    "\<forall>i<length pgs. page_at ps (k + i) = Some (pgs ! i)" "length ts * MAX_BATCH_SIZE \<le> length (host (as_ctx st))" "\<not> ae_hvm env"
  shows "\<exists>st'. apply_pages env False ps k r (map (\<lambda>t. (t, if is_xtab t then - 1 else frame t, 0)) ts) st = Some (r, st') \<and>
    recv_ok st' \<and> grows (as_ctx st) (as_ctx st') \<and>
    length (host (as_ctx st)) \<le> length (host (as_ctx st')) + length ts * MAX_BATCH_SIZE \<and> list_all2 (page_done env frame st') (there ts) pgs \<and>
    (\<forall>f. f \<notin> frame ` set (there ts) \<longrightarrow> as_mem st' f = as_mem st f) \<and>
    (\<forall>p. p \<notin> set (batch_pfns ts) \<longrightarrow> as_type st' ! p = as_type st ! p) \<and>
    all_updates (as_mmu st') = all_updates (as_mmu st) @ map (page_update frame) (there ts)"
  using assms
proof (induction ts arbitrary: st pgs k)
  case Nil
  then show ?case by (simp add: there_def)
next
  case (Cons t ts)
  show ?case
  proof (cases "is_xtab t")
    case True
    then have e: "there (t # ts) = there ts" "batch_pfns (t # ts) = batch_pfns ts" by (simp_all add: there_def batch_pfns_def)
    show ?thesis using Cons.IH [of st pgs k] Cons.prems True unfolding e by fastforce
  next
    case False
    then have e: "there (t # ts) = t # there ts" "batch_pfns (t # ts) = unat (type_pfn t) # batch_pfns ts" by (simp_all add: there_def batch_pfns_def)
    obtain page pgs' where pgs: "pgs = page # pgs'" and pok: "page_ok env (as_ctx st) frame t page"
        and rest: "list_all2 (page_ok env (as_ctx st) frame) (there ts) pgs'"
      using Cons.prems(2) unfolding e by (auto simp: list_all2_Cons1)
    have pat: "page_at ps k = Some page" "\<forall>i<length pgs'. page_at ps (k + 1 + i) = Some (pgs' ! i)"
      using Cons.prems(4) pgs by (auto dest: spec [of _ 0] spec [of _ "Suc _"])
    obtain st1 where s1: "apply_page env False ps k (frame t) t st = Some (0, st1)" and ok1: "recv_ok st1" and g1: "grows (as_ctx st) (as_ctx st1)"
      and h1: "length (host (as_ctx st)) \<le> length (host (as_ctx st1)) + MAX_BATCH_SIZE"
      and ty: "as_type st1 = (as_type st)[unat (type_pfn t) := t AND PFINFO_LTAB_MASK]"
      and mem: "as_mem st1 = (as_mem st)(frame t := page_image env (as_ctx st) (p2m (as_ctx st1)) t page)"
      and upd: "all_updates (as_mmu st1) = all_updates (as_mmu st) @ [page_update frame t]"
      and kn: "rewritten env (as_ctx st) t \<longrightarrow> (\<forall>p\<in>set (page_pfns (as_ctx st) page). p2m (as_ctx st1) ! p \<noteq> INVALID_P2M_ENTRY)"
      using apply_page_ok [OF Cons.prems(1) _ pat(1), of t env "frame t"] pok Cons.prems(5,6) by (auto simp: page_ok_def page_update_def)
    have len: "length (p2m (as_ctx st)) = unat (r_p2m_size (as_ctx st))" "length (as_type st) = unat (r_p2m_size (as_ctx st))"
      using Cons.prems(1) by (simp_all add: recv_ok_def Let_def)
    have rest1: "list_all2 (page_ok env (as_ctx st1) frame) (there ts) pgs'"
      using list_all2_mono [OF rest] page_ok_grows [OF g1 _ len(1)] by blast
    have host1: "length ts * MAX_BATCH_SIZE \<le> length (host (as_ctx st1))" using h1 Cons.prems(5) by simp
    have d: "unat (type_pfn t) \<notin> set (batch_pfns ts)" "distinct (batch_pfns ts)" using Cons.prems(3) unfolding e by auto
    obtain st2 where s2: "apply_pages env False ps (k + 1) r (map (\<lambda>t. (t, if is_xtab t then - 1 else frame t, 0)) ts) st1 = Some (r, st2)"
      and ok2: "recv_ok st2" and g2: "grows (as_ctx st1) (as_ctx st2)"
      and h2: "length (host (as_ctx st1)) \<le> length (host (as_ctx st2)) + length ts * MAX_BATCH_SIZE" and done2: "list_all2 (page_done env frame st2) (there ts) pgs'"
      and mem2: "\<forall>f. f \<notin> frame ` set (there ts) \<longrightarrow> as_mem st2 f = as_mem st1 f"
      and ty2: "\<forall>p. p \<notin> set (batch_pfns ts) \<longrightarrow> as_type st2 ! p = as_type st1 ! p"
      and upd2: "all_updates (as_mmu st2) = all_updates (as_mmu st1) @ map (page_update frame) (there ts)"
      using Cons.IH [OF ok1 rest1 d(2) pat(2) host1 Cons.prems(6)] by blast
    have "page_image env (as_ctx st2) (p2m (as_ctx st2)) t page = page_image env (as_ctx st) (p2m (as_ctx st1)) t page"
      by (rule page_image_grows [OF g1 g2]) (use g1 len pok kn in \<open>auto simp: page_ok_def grows_def\<close>)
    moreover have "rewritten env (as_ctx st2) t \<longrightarrow> (\<forall>p\<in>set (page_pfns (as_ctx st2) page). p2m (as_ctx st2) ! p \<noteq> INVALID_P2M_ENTRY)"
      by (rule known_grows [OF g1 g2 len(1) _ kn]) (use pok in \<open>simp add: page_ok_def\<close>)
    ultimately have "page_done env frame st2 t page"
      using mem mem2 ty ty2 d(1) frame_apart [OF Cons.prems(1) pok rest d(1)] pok len(2) by (simp add: page_done_def page_ok_def)
    then show ?thesis using s1 s2 ok2 grows_trans [OF g1 g2] h1 h2 done2 mem mem2 ty ty2 upd upd2 False unfolding e pgs
      by (intro exI [of _ st2]) auto
  qed
qed

lemma region_pass_eq:
  assumes "\<forall>p\<in>set (batch_pfns ts). p < length (p2m ctx)" "take (length L) (drop n batch) = fs"
    "length fs = length L" "L = missing (INVALID_P2M_ENTRY - 1) (p2m ctx) (batch_pfns ts)" "INVALID_P2M_ENTRY - 1 \<notin> set fs"
  shows "region_pass False n ts batch ctx = Some (map (\<lambda>t. if is_xtab t then - 1 else put_all L fs (p2m ctx) ! unat (type_pfn t)) ts,
    ctx\<lparr>p2m := put_all L fs (p2m ctx), nr_pfns := nr_pfns ctx + of_nat (length L)\<rparr>)"
  using assms
proof (induction ts arbitrary: ctx n L fs)
  case Nil
  then show ?case by (simp add: batch_pfns_def missing_def)
next
  case (Cons t ts)
  let ?ps = "batch_pfns ts" and ?m = "p2m ctx" and ?p = "unat (type_pfn t)"
  show ?case
  proof (cases "is_xtab t")
    case True
    then have "batch_pfns (t # ts) = ?ps" by (simp add: batch_pfns_def)
    with Cons.IH [of ctx L n fs] Cons.prems True show ?thesis by simp
  next
    case False
    then have ps: "batch_pfns (t # ts) = ?p # ?ps" by (simp add: batch_pfns_def)
    have p: "?p < length ?m" "\<forall>q\<in>set ?ps. q < length ?m" using Cons.prems(1) ps by auto
    show ?thesis
    proof (cases "?m ! ?p = INVALID_P2M_ENTRY - 1")
      case old: False
      then have L: "L = missing (INVALID_P2M_ENTRY - 1) ?m ?ps" using Cons.prems(4) ps by (simp add: missing_def)
      have "?p \<notin> set L" using old L by (auto simp: missing_def)
      then have "put_all L fs ?m ! ?p = ?m ! ?p" by (rule put_all_other)
      with Cons.IH [OF p(2) Cons.prems(2,3) L Cons.prems(5)] p(1) False old show ?thesis by (simp add: Let_def)
    next
      case marked: True
      then have "L \<noteq> []" using Cons.prems(4) ps by (auto simp: missing_def)
      then have n: "n < length batch" using Cons.prems(2,3) by (cases "n < length batch") auto
      define fs' where fs': "fs' = take (length L - 1) (drop (n + 1) batch)"
      have fs: "fs = batch ! n # fs'"
        using Cons.prems(2) \<open>L \<noteq> []\<close> n unfolding fs' by (simp add: take_Cons' Cons_nth_drop_Suc [symmetric])
      then have f: "batch ! n \<noteq> INVALID_P2M_ENTRY - 1" using Cons.prems(5) by auto
      let ?ctx = "ctx\<lparr>p2m := ?m[?p := batch ! n], nr_pfns := nr_pfns ctx + 1\<rparr>"
      define L' where L': "L' = missing (INVALID_P2M_ENTRY - 1) (p2m ?ctx) ?ps"
      have Lp: "L = ?p # L'" using Cons.prems(4) ps marked missing_Cons [OF p(1) f, of ?ps] by (simp add: L')
      have "region_pass False (n + 1) ts batch ?ctx = Some (map (\<lambda>t. if is_xtab t then - 1 else put_all L' fs' (p2m ?ctx) ! unat (type_pfn t)) ts,
          ?ctx\<lparr>p2m := put_all L' fs' (p2m ?ctx), nr_pfns := nr_pfns ?ctx + of_nat (length L')\<rparr>)"
        by (rule Cons.IH) (use p(2) Cons.prems(3,5) Lp fs fs' L' in auto)
      moreover have "put_all L' fs' (?m[?p := batch ! n]) ! ?p = batch ! n"
        using Cons.prems(4) Lp p(1) put_all_other [of ?p L' fs'] firsts_distinct by (metis distinct.simps(2) missing_def nth_list_update_eq)
      ultimately show ?thesis using marked p(1) n False Lp fs by (simp add: Let_def add.assoc)
    qed
  qed
qed

text \<open>The pages in the received contents.\<close>

definition chunks :: "nat \<Rightarrow> byte list \<Rightarrow> byte list list" where
  "chunks n ps = map (\<lambda>i. take PAGE_SIZE (drop (i * PAGE_SIZE) ps)) [0..<n]"

lemma page_at_chunks:
  assumes "length ps = PAGE_SIZE * n" "i < n"
  shows "page_at ps i = Some (chunks n ps ! i)"
proof -
  have "(i + 1) * PAGE_SIZE \<le> n * PAGE_SIZE" using assms(2) by (intro mult_le_mono1) simp
  then show ?thesis using assms by (simp add: page_at_def chunks_def mult.commute)
qed

text \<open>
  A batch that can be applied: different pages of the guest, types that the restorer knows, page tables whose
  entries are within the guest.
\<close>

definition batch_ok :: "apply_env \<Rightarrow> restore_ctx \<Rightarrow> ulong list \<Rightarrow> byte list \<Rightarrow> bool" where
  "batch_ok env ctx types ps \<longleftrightarrow> length types \<le> MAX_BATCH_SIZE \<and> length ps = PAGE_SIZE * length (there types) \<and> distinct (batch_pfns types) \<and>
     list_all2 (\<lambda>t page. unat (type_pfn t) < unat (r_p2m_size ctx) \<and> type_ok t \<and> page_fits env ctx t page) (there types) (chunks (length (there types)) ps)"

lemma batch_pfns_there: "set (batch_pfns types) = (\<lambda>t. unat (type_pfn t)) ` set (there types)"
  by (simp add: batch_pfns_def there_def)

lemma alloc_batch_ok:
  assumes ok: "recv_ok st" and rng: "\<forall>p\<in>set (batch_pfns types). p < unat (r_p2m_size (as_ctx st))"
    and batch: "length batch = MAX_BATCH_SIZE" "length types \<le> MAX_BATCH_SIZE" and host: "MAX_BATCH_SIZE \<le> length (host (as_ctx st))"
  shows "\<exists>b c. alloc_batch False types batch (as_ctx st) =
      Some (0, map (\<lambda>t. if is_xtab t then - 1 else p2m c ! unat (type_pfn t)) types, b, c) \<and> length b = MAX_BATCH_SIZE \<and>
    grows (as_ctx st) c \<and> recv_ok (st\<lparr>as_ctx := c\<rparr>) \<and> length (host (as_ctx st)) \<le> length (host c) + MAX_BATCH_SIZE \<and>
    (\<forall>p\<in>set (batch_pfns types). p2m c ! p \<noteq> INVALID_P2M_ENTRY)"
proof -
  let ?c = "as_ctx st" and ?ps = "batch_pfns types"
  define L where L_def: "L = missing INVALID_P2M_ENTRY (p2m ?c) ?ps"
  define m where m_def: "m = alloc_missing (host ?c) ?ps (p2m ?c)"
  let ?fs = "take (length L) (host ?c)"
  have wf: "frames_ok (host ?c) (p2m ?c)" "length (p2m ?c) = unat (r_p2m_size ?c)" using ok by (simp_all add: recv_ok_def Let_def)
  have cnt: "alloc_count ?ps (p2m ?c) = length L" by (simp add: alloc_count_def L_def)
  have "length ?ps \<le> length types" by (simp add: batch_pfns_def)
  then have lb: "length L \<le> MAX_BATCH_SIZE" using alloc_count_le [of ?ps "p2m ?c"] batch(2) cnt by simp
  have rng': "\<forall>p\<in>set ?ps. p < length (p2m ?c)" "\<forall>p\<in>set ?ps. p < length (p2m ?c) \<and> p2m ?c ! p \<noteq> INVALID_P2M_ENTRY - 1"
    using rng wf by (auto simp: frames_ok_def p2m_wf_def)
  obtain b where mp: "mark_pass 0 ?ps (p2m ?c, batch) = Some (length L, mark_all L (p2m ?c), b)" and b: "length b = MAX_BATCH_SIZE"
    using mark_pass_eq [OF rng'(1), of 0 batch] lb batch(1) unfolding L_def by auto
  let ?b = "?fs @ drop (length L) b" and ?h = "drop (length L) (host ?c)"
  let ?d = "?c\<lparr>p2m := mark_all L (p2m ?c), host := ?h\<rparr>"
  have dL: "distinct L" "\<forall>p\<in>set L. p < length (p2m ?c)" using missing_props [OF rng'(1)] by (auto simp: L_def)
  have fs: "length ?fs = length L" "INVALID_P2M_ENTRY - 1 \<notin> set ?fs" using wf(1) lb host by (auto simp: frames_ok_def dest: in_set_takeD)
  have m: "put_all L ?fs (mark_all L (p2m ?c)) = m"
    using put_all_marked [OF dL(1) fs(1) dL(2)] by (simp add: m_def L_def alloc_missing_def Let_def)
  have "region_pass False 0 types ?b ?d = Some (map (\<lambda>t. if is_xtab t then - 1 else put_all L ?fs (p2m ?d) ! unat (type_pfn t)) types,
      ?d\<lparr>p2m := put_all L ?fs (p2m ?d), nr_pfns := nr_pfns ?d + of_nat (length L)\<rparr>)"
    by (rule region_pass_eq) (use rng'(1) fs missing_marked [OF rng'(2)] in \<open>auto simp: L_def\<close>)
  moreover have "populate_physmap_exact (host ?c) (length L) b = (0, ?b, ?h)" using populate_exact_ok lb host by simp
  moreover have "length ?b = MAX_BATCH_SIZE" using b fs(1) lb by simp
  moreover have "frames_ok ?h m" using frames_ok_alloc [OF wf(1) _ rng'(1)] cnt lb host by (simp add: m_def)
  moreover have "\<forall>p\<in>set ?ps. m ! p \<noteq> INVALID_P2M_ENTRY"
    using alloc_missing_new [of "host ?c" ?ps "p2m ?c"] wf(1) cnt lb host rng'(1) by (simp add: m_def frames_ok_def)
  ultimately show ?thesis using mp m ok lb
    by (intro exI [of _ ?b] exI [of _ "?c\<lparr>p2m := m, host := ?h, nr_pfns := nr_pfns ?c + of_nat (length L)\<rparr>"], cases "L = []")
      (simp_all add: alloc_batch_def recv_ok_def Let_def m_def grows_def alloc_missing_old)
qed

lemma apply_batch_ok:
  assumes "recv_ok st" "batch_ok env (as_ctx st) (pfn_types buf) (pages buf)" "nr_pages buf = of_nat (length (pfn_types buf))" "\<not> verify buf"
    and "\<not> ae_hvm env" "ae_mapped env" "ae_err env = replicate (length (pfn_types buf)) 0"
    and "length batch = MAX_BATCH_SIZE" "(length (pfn_types buf) + 1) * MAX_BATCH_SIZE \<le> length (host (as_ctx st))"
  shows "\<exists>batch' st'. apply_batch env buf 0 batch st = Some (0, batch', True, st') \<and> recv_ok st' \<and> length batch' = MAX_BATCH_SIZE \<and>
    grows (as_ctx st) (as_ctx st') \<and> length (host (as_ctx st)) \<le> length (host (as_ctx st')) + (length (pfn_types buf) + 1) * MAX_BATCH_SIZE \<and>
    list_all2 (page_done env (\<lambda>t. p2m (as_ctx st') ! unat (type_pfn t)) st') (there (pfn_types buf)) (chunks (length (there (pfn_types buf))) (pages buf)) \<and>
    (\<forall>p\<in>set (batch_pfns (pfn_types buf)). p2m (as_ctx st') ! p \<noteq> INVALID_P2M_ENTRY) \<and>
    (\<forall>f. f \<notin> (!) (p2m (as_ctx st')) ` set (batch_pfns (pfn_types buf)) \<longrightarrow> as_mem st' f = as_mem st f) \<and>
    (\<forall>p. p \<notin> set (batch_pfns (pfn_types buf)) \<longrightarrow> as_type st' ! p = as_type st ! p)"
proof -
  let ?ts = "pfn_types buf" and ?pgs = "chunks (length (there (pfn_types buf))) (pages buf)"
  have b: "length ?ts \<le> MAX_BATCH_SIZE" "length (pages buf) = PAGE_SIZE * length (there ?ts)" "distinct (batch_pfns ?ts)"
      "list_all2 (\<lambda>t page. unat (type_pfn t) < unat (r_p2m_size (as_ctx st)) \<and> type_ok t \<and> page_fits env (as_ctx st) t page) (there ?ts) ?pgs"
    using assms(2) by (auto simp: batch_ok_def)
  have rng: "\<forall>p\<in>set (batch_pfns ?ts). p < unat (r_p2m_size (as_ctx st))"
    using b(4) by (auto simp: batch_pfns_there list_all2_conv_all_nth in_set_conv_nth)
  obtain b' c where c: "alloc_batch False ?ts batch (as_ctx st) = Some (0, map (\<lambda>t. if is_xtab t then - 1 else p2m c ! unat (type_pfn t)) ?ts, b', c)"
      "length b' = MAX_BATCH_SIZE" "grows (as_ctx st) c" "recv_ok (st\<lparr>as_ctx := c\<rparr>)" "length (host (as_ctx st)) \<le> length (host c) + MAX_BATCH_SIZE"
      "\<forall>p\<in>set (batch_pfns ?ts). p2m c ! p \<noteq> INVALID_P2M_ENTRY"
    using alloc_batch_ok [OF assms(1) rng assms(8) b(1)] assms(9) by auto
  define frame where "frame = (\<lambda>t. p2m c ! unat (type_pfn t))"
  have "list_all2 (page_ok env c frame) (there ?ts) ?pgs"
  proof (rule list.rel_mono_strong [OF b(4)])
    fix t page assume "t \<in> set (there ?ts)" "page \<in> set ?pgs" "unat (type_pfn t) < unat (r_p2m_size (as_ctx st)) \<and> type_ok t \<and> page_fits env (as_ctx st) t page"
    then show "page_ok env c frame t page" using c(6) grows_pred(2) [OF c(3), of env] c(3) by (simp add: page_ok_def frame_def grows_def batch_pfns_there)
  qed
  moreover have "length ?ts * MAX_BATCH_SIZE \<le> length (host c)" using c(5) assms(9) by simp
  ultimately obtain st' where s: "apply_pages env False (pages buf) 0 0 (map (\<lambda>t. (t, if is_xtab t then - 1 else frame t, 0)) ?ts) (st\<lparr>as_ctx := c\<rparr>) = Some (0, st')"
      "recv_ok st'" "grows c (as_ctx st')" "length (host c) \<le> length (host (as_ctx st')) + length ?ts * MAX_BATCH_SIZE"
      "list_all2 (page_done env frame st') (there ?ts) ?pgs" "\<forall>f. f \<notin> frame ` set (there ?ts) \<longrightarrow> as_mem st' f = as_mem st f"
      "\<forall>p. p \<notin> set (batch_pfns ?ts) \<longrightarrow> as_type st' ! p = as_type st ! p"
    using apply_pages_ok [OF c(4), of env frame ?ts ?pgs "pages buf" 0 0] b(2,3) assms(5) page_at_chunks [OF b(2)] by (auto simp: chunks_def)
  have z: "zip ?ts (zip (map (\<lambda>t. if is_xtab t then - 1 else p2m c ! unat (type_pfn t)) ?ts) (replicate (length ?ts) (0 :: int))) =
      map (\<lambda>t. (t, if is_xtab t then - 1 else frame t, 0)) ?ts"
    by (rule nth_equalityI) (auto simp: frame_def)
  have n: "unat (nr_pages buf) = length ?ts" using assms(3) b(1) by (simp add: unat_of_nat MAX_BATCH_SIZE_def)
  have "apply_batch env buf 0 batch st = Some (0, b', True, st')"
    using c(1) s(1) z n assms(4-7) b(1) by (simp add: apply_batch_def Let_def)
  moreover have keep: "p2m (as_ctx st') ! p = p2m c ! p" if "p \<in> set (batch_pfns ?ts)" for p
    using rng that c(3,4,6) s(3) by (auto simp: recv_ok_def grows_def Let_def)
  then have "list_all2 (page_done env (\<lambda>t. p2m (as_ctx st') ! unat (type_pfn t)) st') (there ?ts) ?pgs"
    by (intro list.rel_mono_strong [OF s(5)]) (simp add: page_done_def frame_def batch_pfns_there)
  moreover have "(!) (p2m (as_ctx st')) ` set (batch_pfns ?ts) = frame ` set (there ?ts)"
    using keep unfolding batch_pfns_there image_image frame_def by (intro image_cong) auto
  ultimately show ?thesis using s(2,4,6,7) c(2,5,6) keep grows_trans [OF c(3) s(3)] by auto
qed


text \<open>A restorer of eight pages with enough frames.\<close>

definition ex_ctx :: restore_ctx where
  "ex_ctx = ex_restore\<lparr>p2m_batch := replicate MAX_BATCH_SIZE 0, host := frame_range 100 5000\<rparr>"

definition ex_apply :: apply_st where
  "ex_apply = \<lparr>as_ctx = ex_ctx, as_type = replicate 8 0, as_mem = (\<lambda>_. []),
     as_mmu = \<lparr>mmu_updates = [], mmu_done = [], mmu_answers = []\<rparr>\<rparr>"

lemma ex_apply_ok: "recv_ok ex_apply"
proof -
  have "p2m_wf (p2m ex_restore)"
    by (simp add: p2m_wf_def ex_restore_def INVALID_P2M_ENTRY_def nth_list_update)
  moreover have "f \<notin> {- 1, - 2, 7}" if "f \<in> set (frame_range 100 5000)" for f
    using frame_range_set [of 5000 f 100] that by (auto simp: unsigned_minus_1_eq_mask mask_eq_exp_minus_1)
  moreover have "set (p2m ex_restore) = {- 1, 7}" by (auto simp: ex_restore_def INVALID_P2M_ENTRY_def numeral_eq_Suc)
  ultimately have "frames_ok (host ex_ctx) (p2m ex_ctx)"
    by (auto simp: ex_ctx_def frames_ok_def frame_range_distinct INVALID_P2M_ENTRY_def)
  then show ?thesis
    by (simp add: recv_ok_def ex_apply_def ex_ctx_def MAX_MMU_UPDATES_def Let_def ex_restore_def)
qed

lemma ex_batch_ok: "batch_ok env ex_ctx [5] (replicate PAGE_SIZE 1)"
proof -
  have t: "\<not> is_xtab 5" "\<not> is_table 5" "type_pfn 5 = 5" "type_ok 5" by code_simp+
  then show ?thesis
    by (simp add: batch_ok_def there_def batch_pfns_def chunks_def page_fits_def rewritten_def MAX_BATCH_SIZE_def ex_ctx_def ex_restore_def)
qed

lemma p2m_wf_inj: "p2m_wf m \<Longrightarrow> i < length m \<Longrightarrow> j < length m \<Longrightarrow> m ! i = m ! j \<Longrightarrow> m ! i \<noteq> INVALID_P2M_ENTRY \<Longrightarrow> i = j"
  by (auto simp: p2m_wf_def)


end
