(* ===== verification/Mig_Receive.thy ===== *)
theory Mig_Receive
  imports Mig_Apply_Props
begin

text \<open>
  \<^verbatim>\<open>receive_patch\<close> of \<^verbatim>\<open>tools/libxc/xc_domain_restore.c\<close>: the loop over messages, which acknowledges barriers, notes the last
  round, applies batches and gives buffers back to the pool. The lemmas follow a whole session through it; with
  the sending side this gives the end-to-end property of the page transfer.
\<close>

unbundle bit_operations_syntax

section \<open>A receiving thread\<close>

text \<open>
  What a thread of \<^verbatim>\<open>receive_patch\<close> works on: the pool of page buffers, the buffers that it leaves to the main
  process, the count of finished threads and the flag of the last round, its array of new frames, the last-checkpoint
  flag, and the restorer's state.
\<close>

record recv_thread =
  rt_pool :: "pagebuf list"
  rt_main :: "pagebuf list"
  rt_finish :: nat
  rt_last :: bool
  rt_batch :: "ulong list"
  rt_lc :: bool
  rt_apply :: apply_st

text \<open>
  The loop that applies a buffer in pieces; a buffer that \<^verbatim>\<open>apply_batch\<close> has put back into the pool has its
  counters reset. The results: the array, the buffers put back, the state.
\<close>

function apply_loop ::
    "(pagebuf \<Rightarrow> apply_env) \<Rightarrow> nat \<Rightarrow> nat \<Rightarrow> pagebuf \<Rightarrow> ulong list \<Rightarrow> apply_st \<Rightarrow> (ulong list \<times> pagebuf list \<times> apply_st) option" where
  "apply_loop aenv j curbatch buf batch st =
     (if curbatch < j
      then do {
        (brc, batch, back_in_pool, st) \<leftarrow> apply_batch (aenv buf) buf curbatch batch st;
        let buf = (if back_in_pool then buf\<lparr>nr_physpages := 0, nr_pages := 0\<rparr> else buf);
        let put = (if back_in_pool then [buf] else []);
        if brc < 0 then Some (batch, put, st)
        else do { (batch, more, st) \<leftarrow> apply_loop aenv j (curbatch + MAX_BATCH_SIZE) buf batch st; Some (batch, put @ more, st) }
      }
      else Some (batch, [], st))"
  by pat_completeness auto
termination
  by (relation "measure (\<lambda>(aenv, j, curbatch, buf, batch, st). j - curbatch)") (auto simp: MAX_BATCH_SIZE_def)

declare apply_loop.simps [simp del]

text \<open>
  \<^verbatim>\<open>receive_patch\<close> with the buffer in hand. A message that is no page data is the end, a barrier, which is
  acknowledged, or the announcement of the last round. None is also a thread that waits for a buffer of the pool.
\<close>

partial_function (option) receive_patch ::
    "'d crypt \<Rightarrow> 'c crypt \<Rightarrow> bool \<Rightarrow> ('d ssl_wrap \<times> pipe) get_env \<Rightarrow> nat \<Rightarrow> (pagebuf \<Rightarrow> apply_env) \<Rightarrow> pagebuf \<Rightarrow>
     'd ssl_wrap \<times> pipe \<Rightarrow> 'c ssl_wrap \<times> pipe \<Rightarrow> recv_thread \<Rightarrow> (recv_thread \<times> ('d ssl_wrap \<times> pipe) \<times> ('c ssl_wrap \<times> pipe)) option" where
  "receive_patch dec enc completed genv lim aenv buf s out th = do {
     (pagecount, buf, lc, s) \<leftarrow> slave_pagebuf_get_one dec completed genv buf (rt_lc th) s;
     let th = th\<lparr>rt_lc := lc\<rparr>;
     if pagecount \<le> 0 then Some (th, s, out)
     else if nr_pages buf = 0 \<and> nr_physpages buf = 1
     then Some (th\<lparr>rt_finish := rt_finish th + 1, rt_pool := rt_pool th @ [buf\<lparr>nr_pages := 0, nr_physpages := 0\<rparr>]\<rparr>, s, out)
     else if nr_pages buf = 0 \<and> nr_physpages buf = 0
     then do { (n, out) \<leftarrow> ssl_put enc (ge_junk genv) lim (chars ''OK'') out; receive_patch dec enc completed genv lim aenv buf s out th }
     else if nr_pages buf = 1 \<and> nr_physpages buf = 0
     then receive_patch dec enc completed genv lim aenv (buf\<lparr>nr_pages := 0, nr_physpages := 0\<rparr>) s out (th\<lparr>rt_last := True\<rparr>)
     else do {
       th \<leftarrow> (if nr_pages buf = 0 then Some (th\<lparr>rt_main := rt_main th @ [buf]\<rparr>)
              else do {
                (batch, put, st) \<leftarrow> apply_loop aenv (unat (nr_pages buf)) 0 buf (rt_batch th) (rt_apply th);
                Some (th\<lparr>rt_batch := batch, rt_apply := st, rt_pool := rt_pool th @ put\<rparr>)
              });
       case rt_pool th of
         [] \<Rightarrow> None
       | buf # pool \<Rightarrow> receive_patch dec enc completed genv lim aenv buf s out (th\<lparr>rt_pool := pool\<rparr>)
     }
   }"

section \<open>Where the pages end up\<close>

text \<open>The hypervisor maps every page of a batch of a paravirtual guest.\<close>

definition good_env :: "bool \<Rightarrow> pagebuf \<Rightarrow> apply_env" where
  "good_env pae buf = \<lparr>ae_hvm = False, ae_pae = pae, ae_mapped = True, ae_err = replicate (length (pfn_types buf)) 0\<rparr>"

abbreviation pv_env :: "bool \<Rightarrow> apply_env" where
  "pv_env pae \<equiv> good_env pae pagebuf_init"

lemma good_env_pred:
  "rewritten (good_env pae buf) = rewritten (pv_env pae)" "page_image (good_env pae buf) = page_image (pv_env pae)"
  "page_fits (good_env pae buf) = page_fits (pv_env pae)" "page_done (good_env pae buf) = page_done (pv_env pae)"
  "batch_ok (good_env pae buf) = batch_ok (pv_env pae)"
  by (auto simp: fun_eq_iff rewritten_def rewrite_now_def page_image_def page_fits_def page_done_def batch_ok_def good_env_def)

text \<open>The page that was sent last for every page number, with its type.\<close>

type_synonym image = "nat \<Rightarrow> (ulong \<times> byte list) option"

definition put_pages :: "ulong list \<Rightarrow> byte list \<Rightarrow> image \<Rightarrow> image" where
  "put_pages types ps m =
     m ++ map_of (map (\<lambda>(t, page). (unat (type_pfn t), t, page)) (zip (there types) (chunks (length (there types)) ps)))"

fun latest :: "msg list \<Rightarrow> image \<Rightarrow> image" where
  "latest [] m = m"
| "latest (Batch types ps # ms) m = latest ms (put_pages types ps m)"
| "latest (_ # ms) m = latest ms m"

definition placed :: "bool \<Rightarrow> apply_st \<Rightarrow> image \<Rightarrow> bool" where
  "placed pae st m \<longleftrightarrow> (\<forall>p t page. m p = Some (t, page) \<longrightarrow>
     p = unat (type_pfn t) \<and> p < unat (r_p2m_size (as_ctx st)) \<and> p2m (as_ctx st) ! p \<noteq> INVALID_P2M_ENTRY \<and> page_fits (pv_env pae) (as_ctx st) t page \<and>
     page_done (pv_env pae) (\<lambda>t. p2m (as_ctx st) ! unat (type_pfn t)) st t page)"

lemma put_pages_cases:
  assumes "put_pages types ps m p = Some (t, page)"
  shows "(t, page) \<in> set (zip (there types) (chunks (length (there types)) ps)) \<and> p = unat (type_pfn t) \<or> m p = Some (t, page) \<and> p \<notin> set (batch_pfns types)"
proof -
  let ?z = "zip (there types) (chunks (length (there types)) ps)"
  have k: "fst ` set (map (\<lambda>(t, page). (unat (type_pfn t), t, page)) ?z) = set (batch_pfns types)"
    by (force simp: batch_pfns_there chunks_def set_zip in_set_conv_nth image_iff)
  show ?thesis
  proof (cases "p \<in> set (batch_pfns types)")
    case True
    then have "map_of (map (\<lambda>(t, page). (unat (type_pfn t), t, page)) ?z) p \<noteq> None" using k by (simp add: map_of_eq_None_iff)
    then have "map_of (map (\<lambda>(t, page). (unat (type_pfn t), t, page)) ?z) p = Some (t, page)" using assms by (auto simp: put_pages_def map_add_Some_iff)
    then show ?thesis by (auto dest!: map_of_SomeD)
  next
    case False
    then have "map_of (map (\<lambda>(t, page). (unat (type_pfn t), t, page)) ?z) p = None" using k by (simp add: map_of_eq_None_iff)
    then show ?thesis using assms False by (auto simp: put_pages_def map_add_Some_iff)
  qed
qed

text \<open>A batch leaves the pages of earlier batches in place.\<close>

lemma placed_step:
  assumes pl: "placed pae st m" and ok: "recv_ok st" "recv_ok st'" and g: "grows (as_ctx st) (as_ctx st')"
    and batch: "batch_ok (pv_env pae) (as_ctx st) types ps"
    and done': "list_all2 (page_done (pv_env pae) (\<lambda>t. p2m (as_ctx st') ! unat (type_pfn t)) st') (there types) (chunks (length (there types)) ps)"
    and known: "\<forall>p\<in>set (batch_pfns types). p2m (as_ctx st') ! p \<noteq> INVALID_P2M_ENTRY"
    and mem: "\<forall>f. f \<notin> (!) (p2m (as_ctx st')) ` set (batch_pfns types) \<longrightarrow> as_mem st' f = as_mem st f"
    and ty: "\<forall>p. p \<notin> set (batch_pfns types) \<longrightarrow> as_type st' ! p = as_type st ! p"
  shows "placed pae st' (put_pages types ps m)"
  unfolding placed_def
proof (intro allI impI)
  fix p t page assume "put_pages types ps m p = Some (t, page)"
  then consider (new) "(t, page) \<in> set (zip (there types) (chunks (length (there types)) ps))" "p = unat (type_pfn t)"
    | (old) "m p = Some (t, page)" "p \<notin> set (batch_pfns types)" by (blast dest: put_pages_cases)
  then show "p = unat (type_pfn t) \<and> p < unat (r_p2m_size (as_ctx st')) \<and> p2m (as_ctx st') ! p \<noteq> INVALID_P2M_ENTRY \<and>
      page_fits (pv_env pae) (as_ctx st') t page \<and> page_done (pv_env pae) (\<lambda>t. p2m (as_ctx st') ! unat (type_pfn t)) st' t page"
  proof cases
    case new
    have "unat (type_pfn t) < unat (r_p2m_size (as_ctx st)) \<and> page_fits (pv_env pae) (as_ctx st) t page"
      using new(1) batch by (auto simp: batch_ok_def list_all2_iff)
    moreover have "page_done (pv_env pae) (\<lambda>t. p2m (as_ctx st') ! unat (type_pfn t)) st' t page" using new(1) done' by (auto simp: list_all2_iff)
    moreover have "p \<in> set (batch_pfns types)" using new by (auto simp: batch_pfns_there dest: set_zip_leftD)
    ultimately show ?thesis using new(2) known g grows_pred(2) [OF g, of "pv_env pae"] by (auto simp: grows_def)
  next
    case old
    have o: "p = unat (type_pfn t)" "p < unat (r_p2m_size (as_ctx st))" "p2m (as_ctx st) ! p \<noteq> INVALID_P2M_ENTRY"
        "page_fits (pv_env pae) (as_ctx st) t page" "page_done (pv_env pae) (\<lambda>t. p2m (as_ctx st) ! unat (type_pfn t)) st t page"
      using pl old(1) unfolding placed_def by blast+
    have len: "length (p2m (as_ctx st)) = unat (r_p2m_size (as_ctx st))" "p2m_wf (p2m (as_ctx st'))"
      using ok by (auto simp: recv_ok_def frames_ok_def Let_def)
    have same: "p2m (as_ctx st') ! p = p2m (as_ctx st) ! p" using g o(2,3) len(1) by (simp add: grows_def)
    have "p2m (as_ctx st') ! p \<notin> (!) (p2m (as_ctx st')) ` set (batch_pfns types)"
    proof
      assume "p2m (as_ctx st') ! p \<in> (!) (p2m (as_ctx st')) ` set (batch_pfns types)"
      then obtain q where q: "q \<in> set (batch_pfns types)" "p2m (as_ctx st') ! p = p2m (as_ctx st') ! q" by auto
      moreover have "q < unat (r_p2m_size (as_ctx st))"
        using q(1) batch by (auto simp: batch_ok_def batch_pfns_there list_all2_conv_all_nth in_set_conv_nth)
      ultimately have "p = q" using len g o(2,3) same unfolding p2m_wf_def grows_def by metis
      with q(1) old(2) show False by simp
    qed
    then have "as_mem st' (p2m (as_ctx st') ! p) = as_mem st (p2m (as_ctx st) ! p)" using mem same by simp
    moreover have "page_image (pv_env pae) (as_ctx st') (p2m (as_ctx st')) t page = page_image (pv_env pae) (as_ctx st) (p2m (as_ctx st)) t page"
      by (rule page_image_grows [OF grows_refl g len(1) o(4)]) (use o(5) in \<open>simp add: page_done_def\<close>)
    moreover have "rewritten (pv_env pae) (as_ctx st') t \<longrightarrow> (\<forall>p\<in>set (page_pfns (as_ctx st') page). p2m (as_ctx st') ! p \<noteq> INVALID_P2M_ENTRY)"
      by (rule known_grows [OF grows_refl g len(1) o(4)]) (use o(5) in \<open>simp add: page_done_def\<close>)
    ultimately have "page_done (pv_env pae) (\<lambda>t. p2m (as_ctx st') ! unat (type_pfn t)) st' t page"
      using o(1,5) ty old(2) by (simp add: page_done_def)
    then show ?thesis using o same g grows_pred(2) [OF g, of "pv_env pae"] by (auto simp: grows_def)
  qed
qed

section \<open>A session at the receiver\<close>

definition buf_ready :: "pagebuf \<Rightarrow> bool" where
  "buf_ready buf \<longleftrightarrow> nr_pages buf = 0 \<and> nr_physpages buf = 0 \<and> \<not> verify buf"

definition thread_ok :: "bool \<Rightarrow> recv_thread \<Rightarrow> image \<Rightarrow> bool" where
  "thread_ok pae th m \<longleftrightarrow> recv_ok (rt_apply th) \<and> length (rt_batch th) = MAX_BATCH_SIZE \<and> (\<forall>buf\<in>set (rt_pool th). buf_ready buf) \<and>
     placed pae (rt_apply th) m"

text \<open>Frames that the hypervisor must be able to give for a message: its pages, and the pages that its page tables refer to.\<close>

definition msg_frames :: "msg \<Rightarrow> nat" where
  "msg_frames m = (case m of Batch types ps \<Rightarrow> (length types + 1) * MAX_BATCH_SIZE | _ \<Rightarrow> 0)"

definition msg_applies :: "bool \<Rightarrow> restore_ctx \<Rightarrow> msg \<Rightarrow> bool" where
  "msg_applies pae ctx m = (case m of Batch types ps \<Rightarrow> batch_ok (pv_env pae) ctx types ps \<and> there types \<noteq> [] | _ \<Rightarrow> True)"

lemma msg_applies_grows: "grows c c' \<Longrightarrow> msg_applies pae c' = msg_applies pae c"
  using grows_pred(2) [of c c' "pv_env pae"] by (auto simp: fun_eq_iff msg_applies_def batch_ok_def grows_def split: msg.splits)

definition ends :: "msg list \<Rightarrow> bool" where
  "ends ms \<longleftrightarrow> ms \<noteq> [] \<and> last ms = End \<and> End \<notin> set (butlast ms)"

lemma ends_Cons: "ends (m # ms) \<Longrightarrow> if m = End then ms = [] else ends ms"
  by (cases ms) (auto simp: ends_def)

text \<open>The acknowledgement can always be put on the connection.\<close>

lemma ssl_ack_some:
  assumes "\<forall>c x. length (fst (enc c x)) = length x" "PAGE_SIZE \<le> length (ssl_buf (fst out))"
  shows "\<exists>n out'. ssl_put enc junk lim (chars ''OK'') out = Some (n, out') \<and> PAGE_SIZE \<le> length (ssl_buf (fst out'))"
proof -
  obtain ssl p where o: "out = (ssl, p)" by (cases out)
  have "length (chars ''OK'') = 2" by (simp add: chars_def)
  then have b: "buf_ok (length (chars ''OK'')) ssl" using assms(2) o by (simp add: buf_ok_def pad_size_def block_size_def PAGE_SIZE_def)
  obtain b' where "ssl_encrypt enc junk ssl (chars ''OK'') =
      Some (pad_size (length (chars ''OK'')), \<lparr>cc = snd (enc (cc ssl) (padded junk (chars ''OK''))), ssl_buf = b'\<rparr>)" "length (ssl_buf ssl) \<le> length b'"
    using ssl_encrypt_padded [of enc ssl junk "chars ''OK''"] b assms(1) by blast
  then show ?thesis using assms(2) o by (auto simp: ssl_put_def split: prod.splits)
qed

lemma apply_loop_once:
  assumes "0 < j" "j \<le> MAX_BATCH_SIZE" "apply_batch (aenv buf) buf 0 batch st = Some (0, batch', True, st')"
  shows "apply_loop aenv j 0 buf batch st = Some (batch', [buf\<lparr>nr_physpages := 0, nr_pages := 0\<rparr>], st')"
  using assms by (simp add: apply_loop.simps)

text \<open>One batch, from the buffer in hand to the next.\<close>

lemma thread_batch:
  assumes th: "thread_ok pae th m" and ap: "msg_applies pae (as_ctx (rt_apply th)) (Batch types ps)"
    and host: "msg_frames (Batch types ps) \<le> length (host (as_ctx (rt_apply th)))" and buf: "buf_ready buf"
  shows "\<exists>batch st. apply_loop (good_env pae) (unat (nr_pages (snd (msg_buf (Batch types ps) buf)))) 0 (snd (msg_buf (Batch types ps) buf)) (rt_batch th) (rt_apply th) =
      Some (batch, [(snd (msg_buf (Batch types ps) buf))\<lparr>nr_physpages := 0, nr_pages := 0\<rparr>], st) \<and>
    thread_ok pae (th\<lparr>rt_batch := batch, rt_apply := st\<rparr>) (put_pages types ps m) \<and> grows (as_ctx (rt_apply th)) (as_ctx st) \<and>
    length (host (as_ctx (rt_apply th))) \<le> length (host (as_ctx st)) + msg_frames (Batch types ps)"
proof -
  let ?buf = "snd (msg_buf (Batch types ps) buf)" and ?st = "rt_apply th"
  have b: "batch_ok (pv_env pae) (as_ctx ?st) types ps" "there types \<noteq> []" using ap by (auto simp: msg_applies_def)
  then have "ps \<noteq> []" "types \<noteq> []" by (auto simp: batch_ok_def PAGE_SIZE_def there_def)
  then have f: "pfn_types ?buf = types" "pages ?buf = ps" "nr_pages ?buf = of_nat (length types)" "verify ?buf = verify buf"
    by (simp_all add: msg_buf_def)
  have ok: "recv_ok ?st" "length (rt_batch th) = MAX_BATCH_SIZE" "placed pae ?st m" using th by (simp_all add: thread_ok_def)
  have env: "\<not> ae_hvm (good_env pae ?buf)" "ae_mapped (good_env pae ?buf)" "ae_err (good_env pae ?buf) = replicate (length (pfn_types ?buf)) 0"
    by (simp_all add: good_env_def)
  have prem: "batch_ok (good_env pae ?buf) (as_ctx ?st) (pfn_types ?buf) (pages ?buf)" "nr_pages ?buf = of_nat (length (pfn_types ?buf))" "\<not> verify ?buf"
      "(length (pfn_types ?buf) + 1) * MAX_BATCH_SIZE \<le> length (host (as_ctx ?st))"
    using b(1) buf host by (simp_all add: f good_env_pred(5) [of pae ?buf] buf_ready_def msg_frames_def)
  note done' = apply_batch_ok [OF ok(1) prem(1-3) env ok(2) prem(4), unfolded f(1,2) good_env_pred(4) [of pae ?buf]]
  obtain batch st where s: "apply_batch (good_env pae ?buf) ?buf 0 (rt_batch th) ?st = Some (0, batch, True, st)" "recv_ok st" "length batch = MAX_BATCH_SIZE"
      "grows (as_ctx ?st) (as_ctx st)" "length (host (as_ctx ?st)) \<le> length (host (as_ctx st)) + (length types + 1) * MAX_BATCH_SIZE"
      "list_all2 (page_done (pv_env pae) (\<lambda>t. p2m (as_ctx st) ! unat (type_pfn t)) st) (there types) (chunks (length (there types)) ps)"
      "\<forall>p\<in>set (batch_pfns types). p2m (as_ctx st) ! p \<noteq> INVALID_P2M_ENTRY"
      "\<forall>f. f \<notin> (!) (p2m (as_ctx st)) ` set (batch_pfns types) \<longrightarrow> as_mem st f = as_mem ?st f"
      "\<forall>p. p \<notin> set (batch_pfns types) \<longrightarrow> as_type st ! p = as_type ?st ! p"
    using done' by (elim exE conjE) (rule that)
  have n: "unat (nr_pages ?buf) = length types" "length types \<le> MAX_BATCH_SIZE" "0 < length types"
    using b(1) \<open>types \<noteq> []\<close> f(3) by (auto simp: batch_ok_def unat_of_nat MAX_BATCH_SIZE_def)
  have "placed pae st (put_pages types ps m)"
    by (rule placed_step [OF ok(3,1) s(2,4) b(1) s(6-9)])
  then have "thread_ok pae (th\<lparr>rt_batch := batch, rt_apply := st\<rparr>) (put_pages types ps m)" using s(2,3) th by (simp add: thread_ok_def)
  moreover have "apply_loop (good_env pae) (unat (nr_pages ?buf)) 0 ?buf (rt_batch th) ?st = Some (batch, [?buf\<lparr>nr_physpages := 0, nr_pages := 0\<rparr>], st)"
    unfolding n(1) by (rule apply_loop_once [where aenv = "good_env pae", OF n(3,2) s(1)])
  moreover have "length (host (as_ctx ?st)) \<le> length (host (as_ctx st)) + msg_frames (Batch types ps)" using s(5) by (simp add: msg_frames_def)
  ultimately show ?thesis using s(4) by blast
qed

text \<open>One message: the thread is done, or goes on with a buffer that is ready.\<close>

definition next_thread :: "bool \<Rightarrow> msg \<Rightarrow> recv_thread \<Rightarrow> image \<Rightarrow> pagebuf \<Rightarrow> recv_thread \<Rightarrow> bool" where
  "next_thread pae m th img buf' th' \<longleftrightarrow> thread_ok pae th' (latest [m] img) \<and> buf_ready buf' \<and> rt_finish th' = rt_finish th \<and>
     grows (as_ctx (rt_apply th)) (as_ctx (rt_apply th')) \<and> length (host (as_ctx (rt_apply th))) \<le> length (host (as_ctx (rt_apply th'))) + msg_frames m"

lemma receive_patch_batch:
  assumes get: "slave_pagebuf_get_one dec c genv buf (rt_lc th) s = Some (fst (msg_buf (Batch types ps) buf), snd (msg_buf (Batch types ps) buf), rt_lc th, s')"
    and th: "thread_ok pae th img" and buf: "buf_ready buf" and ok: "msg_ok (Batch types ps)"
    and ap: "msg_applies pae (as_ctx (rt_apply th)) (Batch types ps)" and host: "msg_frames (Batch types ps) \<le> length (host (as_ctx (rt_apply th)))"
  shows "\<exists>buf' th'. receive_patch dec enc c genv lim (good_env pae) buf s out th = receive_patch dec enc c genv lim (good_env pae) buf' s' out th' \<and>
    next_thread pae (Batch types ps) th img buf' th'"
proof -
  let ?buf = "snd (msg_buf (Batch types ps) buf)"
  obtain batch st where b: "apply_loop (good_env pae) (unat (nr_pages ?buf)) 0 ?buf (rt_batch th) (rt_apply th) =
      Some (batch, [?buf\<lparr>nr_physpages := 0, nr_pages := 0\<rparr>], st)"
      "thread_ok pae (th\<lparr>rt_batch := batch, rt_apply := st\<rparr>) (put_pages types ps img)" "grows (as_ctx (rt_apply th)) (as_ctx st)"
      "length (host (as_ctx (rt_apply th))) \<le> length (host (as_ctx st)) + msg_frames (Batch types ps)"
    using thread_batch [OF th ap host buf] by blast
  let ?done = "?buf\<lparr>nr_physpages := 0, nr_pages := 0\<rparr>"
  obtain buf' pool where p: "rt_pool th @ [?done] = buf' # pool" by (cases "rt_pool th @ [?done]") auto
  have ready: "buf_ready ?done" using buf by (simp add: buf_ready_def msg_buf_def)
  then have all: "\<forall>b\<in>set (rt_pool th @ [?done]). buf_ready b" using th by (simp add: thread_ok_def)
  have n: "0 < length types" "length types \<le> MAX_BATCH_SIZE" using ok by (auto simp: msg_ok_def types_fit_def)
  then have c: "fst (msg_buf (Batch types ps) buf) > 0" "nr_pages ?buf \<noteq> 0"
    by (auto simp: msg_buf_def MAX_BATCH_SIZE_def word_unat_eq_iff unat_of_nat)
  have "there types \<noteq> []" using ap by (simp add: msg_applies_def)
  moreover have "length (there types) < 2 ^ 32" 
    using n(2) length_filter_le [of "\<lambda>t. \<not> is_xtab t" types, folded there_def] by (simp add: MAX_BATCH_SIZE_def)
  ultimately have d: "nr_physpages ?buf \<noteq> 0" by (simp add: msg_buf_def there_def word_unat_eq_iff unat_of_nat)
  let ?th = "th\<lparr>rt_batch := batch, rt_apply := st, rt_pool := pool\<rparr>"
  have "receive_patch dec enc c genv lim (good_env pae) buf s out th = receive_patch dec enc c genv lim (good_env pae) buf' s' out ?th"
    by (subst receive_patch.simps) (use c d in \<open>simp add: get b(1) p del: append_eq_Cons_conv\<close>)
  moreover have "next_thread pae (Batch types ps) th img buf' ?th"
    using b(2-4) all unfolding p next_thread_def by (simp add: thread_ok_def)
  ultimately show ?thesis by blast
qed

lemma receive_patch_flag:
  assumes get: "slave_pagebuf_get_one dec c genv buf (rt_lc th) s = Some (fst (msg_buf m buf), snd (msg_buf m buf), rt_lc th, s')"
    and th: "thread_ok pae th img" and buf: "buf_ready buf" and m: "m = Last_Iter \<or> m = Barrier"
    and ack: "\<forall>c x. length (fst (enc c x)) = length x" "PAGE_SIZE \<le> length (ssl_buf (fst out))"
  shows "\<exists>buf' th' out'. receive_patch dec enc c genv lim aenv buf s out th = receive_patch dec enc c genv lim aenv buf' s' out' th' \<and>
    next_thread pae m th img buf' th' \<and> PAGE_SIZE \<le> length (ssl_buf (fst out'))"
proof (cases "m = Barrier")
  case True
  obtain n out' where o: "ssl_put enc (ge_junk genv) lim (chars ''OK'') out = Some (n, out')" "PAGE_SIZE \<le> length (ssl_buf (fst out'))"
    using ssl_ack_some [OF ack] by blast
  have "receive_patch dec enc c genv lim aenv buf s out th = receive_patch dec enc c genv lim aenv (buf\<lparr>nr_pages := 0, nr_physpages := 0\<rparr>) s' out' (th\<lparr>rt_lc := rt_lc th\<rparr>)"
    by (subst receive_patch.simps) (simp add: get o(1) True msg_buf_def)
  moreover have "next_thread pae m th img (buf\<lparr>nr_pages := 0, nr_physpages := 0\<rparr>) (th\<lparr>rt_lc := rt_lc th\<rparr>)"
    using th buf True by (simp add: next_thread_def buf_ready_def grows_refl)
  ultimately show ?thesis using o(2) by blast
next
  case False
  let ?th = "th\<lparr>rt_last := True\<rparr>"
  have "receive_patch dec enc c genv lim aenv buf s out th = receive_patch dec enc c genv lim aenv (buf\<lparr>nr_pages := 0, nr_physpages := 0\<rparr>) s' out ?th"
    by (subst receive_patch.simps) (use m False in \<open>simp add: get msg_buf_def\<close>)
  moreover have "next_thread pae m th img (buf\<lparr>nr_pages := 0, nr_physpages := 0\<rparr>) ?th"
    using th buf m False by (auto simp: next_thread_def buf_ready_def grows_refl thread_ok_def)
  ultimately show ?thesis using ack(2) by blast
qed

lemma receive_patch_next:
  assumes get: "slave_pagebuf_get_one dec c genv buf (rt_lc th) s = Some (fst (msg_buf m buf), snd (msg_buf m buf), rt_lc th, s')"
    and th: "thread_ok pae th img" and buf: "buf_ready buf" and ok: "msg_ok m" and m: "m \<noteq> End"
    and ap: "msg_applies pae (as_ctx (rt_apply th)) m" and host: "msg_frames m \<le> length (host (as_ctx (rt_apply th)))"
    and ack: "\<forall>c x. length (fst (enc c x)) = length x" "PAGE_SIZE \<le> length (ssl_buf (fst out))"
  shows "\<exists>buf' th' out'. receive_patch dec enc c genv lim (good_env pae) buf s out th = receive_patch dec enc c genv lim (good_env pae) buf' s' out' th' \<and>
    next_thread pae m th img buf' th' \<and> PAGE_SIZE \<le> length (ssl_buf (fst out'))"
proof (cases m)
  case (Batch types ps)
  then show ?thesis using receive_patch_batch [where enc = enc and lim = lim and out = out, OF get [unfolded Batch] th buf] ok ap host ack(2) by blast
qed (use m receive_patch_flag [OF get th buf _ ack] in \<open>blast+\<close>)

lemma receive_patch_end:
  assumes "slave_pagebuf_get_one dec c genv buf (rt_lc th) s = Some (fst (msg_buf End buf), snd (msg_buf End buf), rt_lc th, s')"
  shows "\<exists>pool. receive_patch dec enc c genv lim aenv buf s out th = Some (th\<lparr>rt_finish := rt_finish th + 1, rt_pool := pool\<rparr>, s', out)"
  by (subst receive_patch.simps) (auto simp: assms msg_buf_def)

lemma latest_Cons: "latest (m # ms) img = latest ms (latest [m] img)"
  by (cases m) auto

text \<open>The thread goes through all messages and leaves every page where its number says.\<close>

lemma receive_patch_msgs:
  assumes pair: "cipher_pair sync enc' dec" and mem: "\<forall>n. ge_mem genv n" and ack: "\<forall>c x. length (fst (enc c x)) = length x"
    and "reads dec (cc r) (concat (map (msg_plain junk) ms)) y" "avail p = y @ rest" "\<forall>m\<in>set ms. msg_ok m" "ends ms"
    "PAGE_SIZE \<le> length (ssl_buf r)" "PAGE_SIZE \<le> length (ssl_buf (fst out))" "buf_ready buf" "thread_ok pae th img"
    "\<forall>m\<in>set ms. msg_applies pae (as_ctx (rt_apply th)) m" "sum_list (map msg_frames ms) \<le> length (host (as_ctx (rt_apply th)))"
  shows "\<exists>th' r' out'. receive_patch dec enc c genv lim (good_env pae) buf (r, p) out th = Some (th', (r', p\<lparr>pos := pos p + length y\<rparr>), out') \<and>
    rt_finish th' = rt_finish th + 1 \<and> recv_ok (rt_apply th') \<and> grows (as_ctx (rt_apply th)) (as_ctx (rt_apply th')) \<and>
    placed pae (rt_apply th') (latest ms img)"
  using assms(4-)
proof (induction ms arbitrary: r p y out buf th img)
  case Nil
  then show ?case by (simp add: ends_def)
next
  case (Cons m ms)
  let ?x = "msg_plain junk m"
  define y1 y2 where "y1 = take (length ?x) y" and "y2 = drop (length ?x) y"
  have "reads dec (cc r) (?x @ concat (map (msg_plain junk) ms)) y" using Cons.prems(1) by simp
  note s = reads_split [OF pair this msg_plain_dvd, folded y1_def y2_def]
  have y: "y = y1 @ y2" by (simp add: y1_def y2_def)
  have rdy: "nr_pages buf = 0" "nr_physpages buf = 0" using Cons.prems(7) by (simp_all add: buf_ready_def)
  have mok: "msg_ok m" using Cons.prems(3) by simp
  have av1: "avail p = y1 @ y2 @ rest" using Cons.prems(2) y by simp
  obtain r1 where g: "slave_pagebuf_get_one dec c genv buf (rt_lc th) (r, p) =
        Some (fst (msg_buf m buf), snd (msg_buf m buf), rt_lc th, r1, p\<lparr>pos := pos p + length y1\<rparr>)"
      "cc r1 = snd (dec (cc r) y1)" "PAGE_SIZE \<le> length (ssl_buf r1)"
    using slave_get_msg [OF pair s(1) [OF mok] av1 mok Cons.prems(5) rdy mem] by blast
  have av: "avail (p\<lparr>pos := pos p + length y1\<rparr>) = y2 @ rest" using Cons.prems(2) y by (simp add: avail_pos)
  show ?case
  proof (cases "m = End")
    case True
    then have "ms = []" using ends_Cons [OF Cons.prems(4)] by simp
    then have "y2 = []" using Cons.prems(1) True by (simp add: y2_def reads_def)
    obtain pool where "receive_patch dec enc c genv lim (good_env pae) buf (r, p) out th =
        Some (th\<lparr>rt_finish := rt_finish th + 1, rt_pool := pool\<rparr>, (r1, p\<lparr>pos := pos p + length y1\<rparr>), out)"
      using receive_patch_end [OF g(1) [unfolded True]] by blast
    then show ?thesis using Cons.prems(8) True y \<open>ms = []\<close> \<open>y2 = []\<close> by (simp add: thread_ok_def)
  next
    case False
    have ap: "msg_applies pae (as_ctx (rt_apply th)) m" and hs: "msg_frames m \<le> length (host (as_ctx (rt_apply th)))"
      using Cons.prems(9,10) by simp_all
    obtain buf' th' out' where n: "receive_patch dec enc c genv lim (good_env pae) buf (r, p) out th =
          receive_patch dec enc c genv lim (good_env pae) buf' (r1, p\<lparr>pos := pos p + length y1\<rparr>) out' th'"
        "next_thread pae m th img buf' th'" "PAGE_SIZE \<le> length (ssl_buf (fst out'))"
      using receive_patch_next [OF g(1) Cons.prems(8,7) mok False ap hs ack Cons.prems(6)] by blast
    have "\<forall>m\<in>set ms. msg_applies pae (as_ctx (rt_apply th')) m" using n(2) Cons.prems(9) by (auto simp: next_thread_def msg_applies_grows)
    moreover have "ends ms" using ends_Cons [OF Cons.prems(4)] False by simp
    moreover have "reads dec (cc r1) (concat (map (msg_plain junk) ms)) y2" using s(2) mok g(2) by simp
    moreover have "sum_list (map msg_frames ms) \<le> length (host (as_ctx (rt_apply th')))" using n(2) Cons.prems(10) by (simp add: next_thread_def)
    moreover have "\<forall>m\<in>set ms. msg_ok m" "buf_ready buf'" "thread_ok pae th' (latest [m] img)" "rt_finish th' = rt_finish th"
      using Cons.prems(3) n(2) by (simp_all add: next_thread_def)
    moreover note grows_trans [of "as_ctx (rt_apply th)" "as_ctx (rt_apply th')"] n(2) [unfolded next_thread_def]
    ultimately show ?thesis using Cons.IH [OF _ av _ _ g(3) n(3), of buf' th' "latest [m] img"] unfolding n(1)
      by (auto simp: latest_Cons [of m ms] y add.assoc)
  qed
qed

lemma ends_append: "End \<notin> set ms \<Longrightarrow> ends (ms @ ms') = (if ms' = [] then ends ms else ends ms')"
  by (auto simp: ends_def butlast_append)

lemma session_ends: "ends (session_msgs ctx (evs @ [End_Barrier]) ever)"
proof (induction evs arbitrary: ever)
  case Nil
  then show ?case by (simp add: ends_def)
next
  case (Cons ev evs)
  have e: "ends [End]" by (simp add: ends_def)
  have n: "session_msgs ctx (evs @ [End_Barrier]) ever \<noteq> []" for ever using Cons [of ever] by (auto simp: ends_def)
  show ?case
  proof (cases ev)
    case (Send_Batch a ans)
    have "End \<notin> set (batch_msgs ctx a (ma_err ans) types region ever)" for types region by (simp add: batch_msgs_def Let_def)
    then show ?thesis using Send_Batch Cons n e by (simp add: ends_append split: option.split)
  next
    case (Iter_Barrier r)
    then show ?thesis using Cons [of ever] ends_append [of "[Barrier]"] n by simp
  qed (simp add: e)
qed

text \<open>C2: A sending thread and a receiving thread together move the pages of the guest. When the sender has gone through its
  events up to the end, the receiver comes to its end, having taken exactly what was sent, and is counted as finished.
  Then every page that was sent has a frame of its own at the receiver, which holds the page as it was sent last, a
  page table with the receiver's frames in place of the page numbers, and its type is the one sent last; frames that
  the receiver knew before stay.
\<close>

theorem migrated_pages_in_place:
  assumes "cipher_pair sync enc dec" "sync (cc w) (cc r)" "PAGE_SIZE \<le> length (ssl_buf w)" "PAGE_SIZE \<le> length (ssl_buf r)"
    and "\<not> eof p" "pos p = length (written p)" "\<forall>ev\<in>set evs. event_ok ev" "length (written p) + sum_list (map event_room evs) + 16 \<le> lim"
    and "acks_ok (barriers evs) bk"
    and "\<forall>n. ge_mem env n" "\<forall>c x. length (fst (renc c x)) = length x" "PAGE_SIZE \<le> length (ssl_buf (fst out))"
    and "\<forall>b\<in>set (buf # rt_pool th). buf_ready b" "length (rt_batch th) = MAX_BATCH_SIZE" "recv_ok (rt_apply th)"
    and "\<forall>m\<in>set (session_msgs ctx (evs @ [End_Barrier]) False). msg_applies pae (as_ctx (rt_apply th)) m"
    and "sum_list (map msg_frames (session_msgs ctx (evs @ [End_Barrier]) False)) \<le> length (host (as_ctx (rt_apply th)))"
  shows "\<exists>w' p' th' r' out'. send_patch enc bdec junk lim ctx (evs @ [End_Barrier]) False [] bk (w, p) = Some (w', p') \<and>
    receive_patch dec renc c env rlim (good_env pae) buf (r, p') out th = Some (th', (r', p'\<lparr>pos := length (written p')\<rparr>), out') \<and>
    rt_finish th' = rt_finish th + 1 \<and> recv_ok (rt_apply th') \<and> grows (as_ctx (rt_apply th)) (as_ctx (rt_apply th')) \<and>
    (\<forall>q t page. latest (session_msgs ctx (evs @ [End_Barrier]) False) Map.empty q = Some (t, page) \<longrightarrow>
       (let st = rt_apply th'; mfn = p2m (as_ctx st) ! q
        in q = unat (type_pfn t) \<and> q < length (p2m (as_ctx st)) \<and> mfn \<noteq> INVALID_P2M_ENTRY \<and> as_type st ! q = t AND PFINFO_LTAB_MASK \<and>
           as_mem st mfn = page_image (pv_env pae) (as_ctx st) (p2m (as_ctx st)) t page))"
proof -
  let ?evs = "evs @ [End_Barrier]" and ?ms = "session_msgs ctx (evs @ [End_Barrier]) False"
  have ok: "\<forall>ev\<in>set ?evs. event_ok ev" using assms(7) by (auto simp: event_ok_def)
  have acks: "acks_ok (barriers ?evs) bk" using assms(9) by (simp add: barriers_def)
  have can: "can_send sync lim (cc r) (sum_list (map event_room ?evs)) (w, p)" using assms(2,3,5,8) by (simp add: can_send_def)
  obtain y w' p' where s: "send_patch enc bdec junk lim ctx ?evs False [] bk (w, p) = Some (w', p')"
    and y: "sent sync dec (cc r) (concat (map (msg_plain junk) ?ms)) y (w, p) (w', p')"
    using send_patch_sent [OF assms(1) acks ok can, of bdec junk ctx False] by auto
  have p': "p' = p\<lparr>written := written p @ y\<rparr>" using y by (simp add: sent_def)
  have av: "avail p' = y @ []" using assms(6) p' by (simp add: avail_def)
  have rd: "reads dec (cc r) (concat (map (msg_plain junk) ?ms)) y" using y by (simp add: sent_def carried_def)
  have th: "buf_ready buf" "thread_ok pae th Map.empty" using assms(13-15) by (simp_all add: thread_ok_def placed_def)
  obtain th' r' out' where t: "receive_patch dec renc c env rlim (good_env pae) buf (r, p') out th = Some (th', (r', p'\<lparr>pos := pos p' + length y\<rparr>), out')"
      "rt_finish th' = rt_finish th + 1" "recv_ok (rt_apply th')" "grows (as_ctx (rt_apply th)) (as_ctx (rt_apply th'))" and pl: "placed pae (rt_apply th') (latest ?ms Map.empty)"
    using receive_patch_msgs [OF assms(1,10,11) rd av session_msgs_ok [OF ok] session_ends assms(4,12) th assms(16,17)] by blast
  have "pos p' + length y = length (written p')" using p' assms(6) by simp
  moreover have "q = unat (type_pfn u) \<and> q < length (p2m (as_ctx (rt_apply th'))) \<and> p2m (as_ctx (rt_apply th')) ! q \<noteq> INVALID_P2M_ENTRY \<and>
      as_type (rt_apply th') ! q = u AND PFINFO_LTAB_MASK \<and>
      as_mem (rt_apply th') (p2m (as_ctx (rt_apply th')) ! q) = page_image (pv_env pae) (as_ctx (rt_apply th')) (p2m (as_ctx (rt_apply th'))) u page"
    if "latest ?ms Map.empty q = Some (u, page)" for q u page
    using pl that t(3) by (fastforce simp: placed_def page_done_def recv_ok_def Let_def)
  ultimately show ?thesis using s t(1-4) unfolding Let_def by auto
qed

text \<open>The session with one page.\<close>

definition ex_thread :: recv_thread where
  "ex_thread = \<lparr>rt_pool = [], rt_main = [], rt_finish = 0, rt_last = False, rt_batch = replicate MAX_BATCH_SIZE 0, rt_lc = False, rt_apply = ex_apply\<rparr>"

theorem migrated_pages_in_place_witness:
  "\<exists>w' p' th' r' out'. send_patch ex_enc ex_dec (\<lambda>n. 7) 10000 ex_save ex_events False [] (ex_wrap, close_pipe pipe0) (ex_wrap, pipe0) = Some (w', p') \<and>
    receive_patch ex_dec ex_enc False ex_env 100 (good_env False) pagebuf_init (ex_wrap, p') (ex_wrap, pipe0) ex_thread =
      Some (th', (r', p'\<lparr>pos := length (written p')\<rparr>), out') \<and>
    rt_finish th' = 1 \<and> as_mem (rt_apply th') (p2m (as_ctx (rt_apply th')) ! 5) = replicate PAGE_SIZE 1"
proof -
  let ?evs = "butlast ex_events"
  have t: "\<not> is_xtab 5" "\<not> is_table 5" "type_pfn 5 = 5" by code_simp+
  have e: "?evs @ [End_Barrier] = ex_events" by (simp add: ex_events_def)
  have ok: "\<forall>ev\<in>set ?evs. event_ok ev" by (simp add: ex_events_def event_ok_def types_fit_def MAX_BATCH_SIZE_def)
  have room: "length (written pipe0) + sum_list (map event_room ?evs) + 16 \<le> 10000"
    by (simp add: ex_events_def event_room_def pad_size_def cipher_pad_def block_size_def PAGE_SIZE_def pipe0_def)
  have acks: "acks_ok (barriers ?evs) (ex_wrap, close_pipe pipe0)"
    by (simp add: acks_ok_def ex_wrap_def close_pipe_def block_size_def PAGE_SIZE_def)
  have ms: "\<forall>m\<in>set (session_msgs ex_save ex_events False). msg_applies False (as_ctx (rt_apply ex_thread)) m"
    "sum_list (map msg_frames (session_msgs ex_save ex_events False)) \<le> length (host (as_ctx (rt_apply ex_thread)))"
    using t ex_batch_ok [of "pv_env False"] unfolding ex_msgs
    by (auto simp: msg_applies_def ex_thread_def ex_apply_def there_def msg_frames_def MAX_BATCH_SIZE_def ex_ctx_def)
  have l: "latest (session_msgs ex_save ex_events False) Map.empty 5 = Some (5, replicate PAGE_SIZE 1)"
    using t unfolding ex_msgs by (simp add: put_pages_def there_def chunks_def)
  have img: "page_image (pv_env False) c m 5 (replicate PAGE_SIZE 1) = replicate PAGE_SIZE 1" for c m using t by (simp add: page_image_def rewritten_def)
  have w: "PAGE_SIZE \<le> length (ssl_buf ex_wrap)" "\<not> eof pipe0" "pos pipe0 = length (written pipe0)" "\<forall>n. ge_mem ex_env n"
    "\<forall>c x. length (fst (ex_enc c x)) = length x" "PAGE_SIZE \<le> length (ssl_buf (fst (ex_wrap, pipe0)))" "\<forall>b\<in>set (pagebuf_init # rt_pool ex_thread). buf_ready b"
    "length (rt_batch ex_thread) = MAX_BATCH_SIZE" "recv_ok (rt_apply ex_thread)"
    by (simp_all add: ex_wrap_def pipe0_def ex_env_def ex_enc_dec ex_thread_def buf_ready_def pagebuf_init_def ex_apply_ok)
  note res = migrated_pages_in_place [where sync = "(=)" and w = ex_wrap and r = ex_wrap and p = pipe0 and evs = ?evs and lim = 10000 and
      bk = "(ex_wrap, close_pipe pipe0)" and env = ex_env and renc = ex_enc and out = "(ex_wrap, pipe0)" and buf = pagebuf_init and th = ex_thread and
      ctx = ex_save and pae = False and bdec = ex_dec and junk = "\<lambda>n. 7" and c = False and rlim = 100, unfolded e,
      OF ex_cipher_pair refl w(1) w(1) w(2) w(3) ok room acks w(4) w(5) w(6) w(7) w(8) w(9) ms]
  then show ?thesis using l img by (fastforce simp: Let_def ex_thread_def)
qed

end
