(* ===== verification/Spec2Isabelle.thy ===== *)
theory Spec2Isabelle
  imports Evtchn_Props Mig_Queue Mig_Handshake_Props Mig_Bitmap Mig_Receive
begin

text \<open>
  A verification development for PMigrate-Xen: Xen 4.1.2 with a parallel live-migration extension in the tool
  stack. All file names below are relative to \<^verbatim>\<open>src/xen-4.1.2\<close>.

  \<^bold>\<open>The program.\<close> The hypervisor keeps, for every domain, sets of machine resources (range sets) and the capabilities
  built on them, and event channels that connect domains and deliver interrupts. The tools move a running domain
  to another host. Two copies of \<^verbatim>\<open>xl\<close> hold a conversation over a pair of pipes; between its first and its second part
  the memory goes over: a master thread puts batches of page numbers into a queue, several sending threads map
  the pages, make page tables independent of the machine and write everything to an encrypted connection of their
  own; as many receiving threads read page buffers, allocate machine frames, copy the pages and rewrite the page tables.

  \<^bold>\<open>Conventions.\<close> C functions are HOL functions with the state passed along. \<^verbatim>\<open>unsigned long\<close> is \<open>64 word\<close> and wraps,
  \<^verbatim>\<open>unsigned int\<close> is \<open>32 word\<close>, bytes are \<open>8 word\<close>. A result of type \<open>option\<close> is \<open>None\<close> where the C code has no defined
  continuation (a \<^verbatim>\<open>BUG\<close>, a null pointer, an access outside an array) or waits forever; error codes are values. Calls
  that leave the modelled code (the hypervisor seen from the tools, \<^verbatim>\<open>read\<close> and \<^verbatim>\<open>write\<close>, \<^verbatim>\<open>malloc\<close>, OpenSSL) take their
  answers from arguments, and the theorems hold for all answers or name what they assume of them.

  \<^bold>\<open>Theories.\<close>
    \<^item> \<open>Xen_Prelude\<close>: integer types, error numbers, facts on words and lists.
    \<^item> \<open>Rangeset\<close> (\<^verbatim>\<open>xen/common/rangeset.c\<close>): the ordered list of ranges and every operation on it, with the registry of a
      domain's sets. \<open>Rangeset_Lemmas\<close>: the set of members as abstraction, the invariant of ascending ranges with gaps.
      \<open>Rangeset_Caps\<close>: the contract as the locale \<open>range_caps\<close>, its interpretation, and the properties: union, removal,
      queries, reports, destruction, and two inputs at which removal is wrong.
    \<^item> \<open>Iocap\<close> (\<^verbatim>\<open>xen/include/xen/iocap.h\<close>, \<^verbatim>\<open>xen/arch/x86/domctl.c\<close>, \<^verbatim>\<open>xen/arch/x86/domain_build.c\<close>): capabilities for ports,
      interrupts and frames over the contract of range sets; the set-up of domain 0 and the control operations.
    \<^item> \<open>Evtchn\<close> (\<^verbatim>\<open>xen/common/event_channel.c\<close>): domains, vcpus, channels and all \<^verbatim>\<open>EVTCHNOP\<close> handlers. \<open>Evtchn_Inv\<close>: the
      invariant. \<open>Evtchn_Ops\<close>, \<open>Evtchn_Close\<close>: every operation returns, keeps the invariant and has its effect.
      \<open>Evtchn_Steps\<close>: the hypervisor as a transition system. \<open>Evtchn_Props\<close>: the properties.
    \<^item> \<open>Mig_Queue\<close> (\<^verbatim>\<open>tools/libxl/mc_migration_helper.c\<close>, \<^verbatim>\<open>tools/libxc/mc_queue.c\<close>): the lists that the threads share, on an
      explicit heap, with the locale \<open>fifo\<close>; they are first-in first-out queues under every interleaving of the
      threads. The work queue on atomic counters.
    \<^item> \<open>Mig_Stream\<close> (\<^verbatim>\<open>tools/libxl/libxl_utils.c\<close>, \<^verbatim>\<open>tools/libxl/xl_cmdimpl.c\<close>): pipes, exact reads and writes, the header
      of a saved domain. \<open>Mig_Handshake\<close>: \<^verbatim>\<open>migrate_domain\<close> and \<^verbatim>\<open>migrate_receive\<close> as one step per visible call, and the step
      relation of the two programs with breaking connections and dying programs. \<open>Mig_Handshake_Inv\<close>: its invariant.
      \<open>Mig_Handshake_Props\<close>: the domain never runs twice, success means that it has moved, no deadlock, completion.
    \<^item> \<open>Mig_Bitmap\<close> (\<^verbatim>\<open>tools/libxc/xc_domain_save.c\<close>): bitmaps of pages with their population count, and the output buffer.
    \<^item> \<open>Mig_Pagetable\<close> (\<^verbatim>\<open>xc_domain_save.c\<close>, \<^verbatim>\<open>xc_domain_restore.c\<close> of \<^verbatim>\<open>tools/libxc\<close>): canonical page tables, the allocation of
      frames in two passes, and that a table survives the way there and back.
    \<^item> \<open>Mig_Ssl\<close> (\<^verbatim>\<open>tools/libxc/mc_ssl/mc_ssl.c\<close> and the readers and writers around it): data padded to cipher blocks and
      encrypted; what goes in at one end comes out at the other.
    \<^item> \<open>Mig_Pagebuf\<close>: \<^verbatim>\<open>pagebuf_get_one\<close> and \<^verbatim>\<open>slave_pagebuf_get_one\<close>. \<open>Mig_Send\<close>: \<^verbatim>\<open>send_patch\<close>. \<open>Mig_Session\<close>: the messages of a
      session as the specification of both, and that the receiver reads what the sender writes.
    \<^item> \<open>Mig_Apply\<close>: \<^verbatim>\<open>apply_batch\<close> with the queue of updates of \<^verbatim>\<open>tools/libxc/xc_private.c\<close>. \<open>Mig_Apply_Props\<close>: the invariant of
      the restorer, and that every page of a batch ends up in its frame.
    \<^item> \<open>Mig_Receive\<close>: \<^verbatim>\<open>receive_patch\<close>, and the end-to-end property of the page transfer, from the batches of the sending
      thread to the memory of the receiver, which rests on the five theories before it.

  \<^bold>\<open>Bounds and termination.\<close> Loops over lists and words are structural or have a measure. The exact reads and the
  message readers of the receiver are \<open>partial_function (option)\<close> or take the answers of \<^verbatim>\<open>read\<close> as a list; the theorems
  state that they return. Nothing is limited by fuel. \<open>event_room\<close> bounds the bytes of a session, \<open>msg_frames\<close> the frames
  that the hypervisor must be able to hand out: at most 1024 for a batch and for each of its page tables, the
  length of the arrays in which the code collects them. A batch has at most \<^verbatim>\<open>MAX_BATCH_SIZE\<close> (1024) pages; an odd number
  of them above 512 overruns the cipher's buffer (\<open>odd_types_overflow\<close>), so the session theorems leave these out.

  \<^bold>\<open>Not modelled.\<close> The master loops \<^verbatim>\<open>xc_domain_save\<close> and \<^verbatim>\<open>xc_domain_restore\<close> around the threads (rounds over dirty pages,
  frame lists, vcpu contexts, pinning), which consist of hypercalls and mappings whose answers would all be
  parameters; the rate limiter and profiling, which depend on the clock; sockets and the keys of the cipher; the
  threads' barriers (\<^verbatim>\<open>pthread_barrier_wait\<close>), and two receiving threads that work on the tables of the restorer at the
  same time, which the code does without a lock. Of the hypervisor: schedulers, memory management, grant tables, HVM,
  interrupts, boot and drivers, which the migration extension does not change; where the modelled parts call them
  (interrupt routing, security modules, allocation) they are parameters. Generated parsers and the daemons of the tool
  stack are I/O.
\<close>

end
